(* ===== verification/Xnu_Prelude.thy ===== *)
theory Xnu_Prelude
  imports Main "HOL-Library.Word"
begin

text \<open>
  Shared vocabulary of the development: the machine integer types of the Rust
  sources, the result type with its error, panic and fuel outcomes, the
  checked, saturating and overflow-checked arithmetic the sources use, slice
  access, byte-order conversion and UTF-8 validation, with the generic lemmas
  the component theories share.

  Conventions. Values of type \<open>u8\<close>, \<open>u16\<close>, \<open>u32\<close>, \<open>u64\<close> are words of that
  width. A \<open>usize\<close> that indexes a slice is a natural number below \<open>2 ^ 64\<close>
  (the targets are 64-bit) and every addition on it is one of the explicit
  operations below, so the overflow branch is part of the model; a \<open>usize\<close>
  that is an address or takes part in bit masking is a 64-bit word.
  Unchecked \<open>+\<close> and \<open>-\<close> panic on overflow: the images are built with the
  dev profile (\<open>xtask\<close> takes its artefacts from \<open>target/.../debug\<close>), where
  overflow checks are on.
\<close>

unbundle bit_operations_syntax

named_theorems res_simps "laws of the result type and of its sequencing"
named_theorems arith_specs "characterisations of checked and saturating arithmetic"
named_theorems slice_simps "slice access and byte order"

type_synonym u8 = "8 word"
type_synonym u16 = "16 word"
type_synonym u32 = "32 word"
type_synonym u64 = "64 word"
type_synonym bytes = "8 word list"

section \<open>Results\<close>

text \<open>
  \<open>Ok\<close> and \<open>Err\<close> are Rust's \<open>Result\<close>. \<open>Panic\<close> is a Rust panic (out-of-range
  index, overflow of an unchecked operation). \<open>Diverge\<close> is the value of a
  fuelled recursion whose fuel ran out; the component theories prove that it
  does not arise with the fuel they use.
\<close>

datatype ('a, 'e) res = Ok 'a | Err 'e | Panic | Diverge

fun and_then :: "('a, 'e) res \<Rightarrow> ('a \<Rightarrow> ('b, 'e) res) \<Rightarrow> ('b, 'e) res" where
  "and_then (Ok a) f = f a"
| "and_then (Err e) f = Err e"
| "and_then Panic f = Panic"
| "and_then Diverge f = Diverge"

lemma and_then_cong [fundef_cong]:
  "m = m' \<Longrightarrow> (\<And>a. m' = Ok a \<Longrightarrow> f a = g a) \<Longrightarrow> and_then m f = and_then m' g"
  by (cases m') simp_all

fun map_err :: "('e \<Rightarrow> 'f) \<Rightarrow> ('a, 'e) res \<Rightarrow> ('a, 'f) res" where
  "map_err g (Ok a) = Ok a"
| "map_err g (Err e) = Err (g e)"
| "map_err g Panic = Panic"
| "map_err g Diverge = Diverge"

definition ok_or :: "'a option \<Rightarrow> 'e \<Rightarrow> ('a, 'e) res" where
  "ok_or x e = (case x of None \<Rightarrow> Err e | Some a \<Rightarrow> Ok a)"

text \<open>Rust's \<open>Result::ok\<close>; only the two \<open>Result\<close> constructors reach it.\<close>

fun res_ok :: "('a, 'e) res \<Rightarrow> 'a option" where
  "res_ok (Ok a) = Some a"
| "res_ok _ = None"

text \<open>An operation that panics instead of returning \<open>None\<close>.\<close>

definition or_panic :: "'a option \<Rightarrow> ('a, 'e) res" where
  "or_panic x = (case x of None \<Rightarrow> Panic | Some a \<Rightarrow> Ok a)"

definition returns :: "('a, 'e) res \<Rightarrow> bool" where
  "returns r \<longleftrightarrow> (case r of Ok _ \<Rightarrow> True | Err _ \<Rightarrow> True | Panic \<Rightarrow> False | Diverge \<Rightarrow> False)"

lemma and_then_assoc [res_simps]:
  "and_then (and_then m f) g = and_then m (\<lambda>a. and_then (f a) g)"
  by (cases m) simp_all

lemma and_then_eq_Ok [res_simps]:
  "and_then m f = Ok b \<longleftrightarrow> (\<exists>a. m = Ok a \<and> f a = Ok b)"
  by (cases m) simp_all

lemma and_then_eq_Err [res_simps]:
  "and_then m f = Err e \<longleftrightarrow> m = Err e \<or> (\<exists>a. m = Ok a \<and> f a = Err e)"
  by (cases m) simp_all

lemma and_then_eq_Panic [res_simps]:
  "and_then m f = Panic \<longleftrightarrow> m = Panic \<or> (\<exists>a. m = Ok a \<and> f a = Panic)"
  by (cases m) simp_all

lemma and_then_eq_Diverge [res_simps]:
  "and_then m f = Diverge \<longleftrightarrow> m = Diverge \<or> (\<exists>a. m = Ok a \<and> f a = Diverge)"
  by (cases m) simp_all

lemma ok_or_simps [simp]: "ok_or (Some a) e = Ok a" "ok_or None e = Err e"
  by (simp_all add: ok_or_def)

lemma or_panic_simps [simp]: "or_panic (Some a) = Ok a" "or_panic None = Panic"
  by (simp_all add: or_panic_def)

lemma ok_or_eq_Ok [res_simps]: "ok_or x e = Ok a \<longleftrightarrow> x = Some a"
  by (cases x) simp_all

lemma ok_or_not_fault [simp]: "ok_or x e \<noteq> Panic" "ok_or x e \<noteq> Diverge"
  by (cases x; simp)+

lemma or_panic_eq_Ok [res_simps]: "or_panic x = Ok a \<longleftrightarrow> x = Some a"
  by (cases x) simp_all

lemma returns_simps [simp]:
  "returns (Ok a)" "returns (Err e)" "\<not> returns Panic" "\<not> returns Diverge"
  by (simp_all add: returns_def)

lemma returns_iff: "returns r \<longleftrightarrow> r \<noteq> Panic \<and> r \<noteq> Diverge"
  by (cases r) simp_all

lemma returns_ok_or [simp]: "returns (ok_or x e)"
  by (cases x) simp_all

lemma returns_and_then [intro]:
  "returns m \<Longrightarrow> (\<And>a. m = Ok a \<Longrightarrow> returns (f a)) \<Longrightarrow> returns (and_then m f)"
  by (cases m) simp_all

text \<open>The only error a computation can report.\<close>

definition errs_only :: "'e \<Rightarrow> ('a, 'e) res \<Rightarrow> bool" where
  "errs_only e r \<longleftrightarrow> (case r of Err e' \<Rightarrow> e' = e | _ \<Rightarrow> True)"

lemma errs_only_simps [simp]:
  "errs_only e (Ok a)" "errs_only e (Err e') \<longleftrightarrow> e' = e" "errs_only e Panic" "errs_only e Diverge"
  "errs_only e (ok_or x e)" "errs_only e (or_panic x)"
  by (simp_all add: errs_only_def ok_or_def or_panic_def split: option.splits)

lemma errs_only_and_then [intro]:
  "errs_only e m \<Longrightarrow> (\<And>a. m = Ok a \<Longrightarrow> errs_only e (f a)) \<Longrightarrow> errs_only e (and_then m f)"
  by (cases m) simp_all

section \<open>Arithmetic of Rust integers\<close>

definition checked_add_us :: "nat \<Rightarrow> nat \<Rightarrow> nat option" where
  "checked_add_us a b = (if a + b < 2 ^ 64 then Some (a + b) else None)"

definition checked_add :: "'a::len word \<Rightarrow> 'a word \<Rightarrow> 'a word option" where
  "checked_add a b = (if unat a + unat b < 2 ^ LENGTH('a) then Some (a + b) else None)"

definition checked_sub :: "'a::len word \<Rightarrow> 'a word \<Rightarrow> 'a word option" where
  "checked_sub a b = (if b \<le> a then Some (a - b) else None)"

definition checked_mul :: "'a::len word \<Rightarrow> 'a word \<Rightarrow> 'a word option" where
  "checked_mul a b = (if unat a * unat b < 2 ^ LENGTH('a) then Some (a * b) else None)"

definition saturating_add :: "'a::len word \<Rightarrow> 'a word \<Rightarrow> 'a word" where
  "saturating_add a b = (if unat a + unat b < 2 ^ LENGTH('a) then a + b else - 1)"

definition saturating_sub :: "'a::len word \<Rightarrow> 'a word \<Rightarrow> 'a word" where
  "saturating_sub a b = (if b \<le> a then a - b else 0)"

text \<open>Unchecked \<open>a + b\<close> and \<open>a - b\<close> of the sources, with overflow checks on.\<close>

definition add_panic :: "'a::len word \<Rightarrow> 'a word \<Rightarrow> ('a word, 'e) res" where
  "add_panic a b = or_panic (checked_add a b)"

definition sub_panic :: "'a::len word \<Rightarrow> 'a word \<Rightarrow> ('a word, 'e) res" where
  "sub_panic a b = or_panic (checked_sub a b)"

lemma checked_add_us_Some [arith_specs]:
  "checked_add_us a b = Some c \<longleftrightarrow> c = a + b \<and> a + b < 2 ^ 64"
  by (auto simp: checked_add_us_def)

lemma checked_add_us_None [arith_specs]:
  "checked_add_us a b = None \<longleftrightarrow> 2 ^ 64 \<le> a + b"
  by (auto simp: checked_add_us_def)

lemma checked_add_us_ok: "a + b < 2 ^ 64 \<Longrightarrow> checked_add_us a b = Some (a + b)"
  by (simp add: checked_add_us_def)

lemma unat_bound: "unat w < 2 ^ LENGTH('a)" for w :: "'a::len word"
  by (fact unsigned_less)

lemma unat_power_two:
  assumes "k < LENGTH('a)"
  shows "unat (2 ^ k :: 'a::len word) = 2 ^ k"
proof -
  have "(2 ^ k :: 'a word) = word_of_nat (2 ^ k)" by simp
  then have "unat (2 ^ k :: 'a word) = 2 ^ k mod 2 ^ LENGTH('a)"
    by (simp only: unat_of_nat)
  also have "\<dots> = 2 ^ k" using assms by (simp add: power_strict_increasing)
  finally show ?thesis .
qed

lemma unat_take_bit: "unat (take_bit k w) = unat w mod 2 ^ k" for w :: "'a::len word"
  by (metis take_bit_eq_mod unsigned_take_bit_eq)

lemma unat_drop_bit: "unat (drop_bit k w) = unat w div 2 ^ k" for w :: "'a::len word"
  by (metis drop_bit_eq_div unat_drop_bit_eq)

lemma unat_ucast: "unat (ucast w :: 'b::len word) = unat w mod 2 ^ LENGTH('b)"
  for w :: "'a::len word"
  by (metis take_bit_eq_mod unsigned_ucast_eq)

lemma ucast_ucast_up:
  fixes w :: "'a::len word"
  assumes "LENGTH('a) \<le> LENGTH('b)"
  shows "ucast (ucast w :: 'b::len word) = w"
proof -
  have "unat w < 2 ^ LENGTH('a)" by (fact unat_bound)
  also have "\<dots> \<le> 2 ^ LENGTH('b)" using assms by simp
  finally have "unat w mod 2 ^ LENGTH('b) = unat w" by simp
  then show ?thesis by (simp add: word_unat_eq_iff unat_ucast unat_bound)
qed

lemma unat_add_nowrap:
  "unat a + unat b < 2 ^ LENGTH('a) \<Longrightarrow> unat (a + b :: 'a::len word) = unat a + unat b"
  by (simp add: unat_word_ariths)

lemma unat_sub_le: "b \<le> a \<Longrightarrow> unat (a - b :: 'a::len word) = unat a - unat b"
  by (simp add: unat_sub word_le_nat_alt)

lemma checked_add_Some [arith_specs]:
  "checked_add a b = Some c \<longleftrightarrow> unat c = unat a + unat b"
proof
  assume "checked_add a b = Some c"
  then show "unat c = unat a + unat b"
    by (auto simp: checked_add_def unat_add_nowrap split: if_splits)
next
  assume c: "unat c = unat a + unat b"
  with unat_bound [of c] have lt: "unat a + unat b < 2 ^ LENGTH('a)" by simp
  then have "unat (a + b) = unat c" by (simp add: unat_add_nowrap c)
  with lt show "checked_add a b = Some c"
    by (simp add: checked_add_def word_unat_eq_iff)
qed

lemma checked_add_None [arith_specs]:
  "checked_add a b = None \<longleftrightarrow> 2 ^ LENGTH('a) \<le> unat a + unat (b :: 'a::len word)"
  by (auto simp: checked_add_def)

lemma checked_sub_Some [arith_specs]:
  "checked_sub a b = Some c \<longleftrightarrow> unat a = unat b + unat c"
proof
  assume "checked_sub a b = Some c"
  then have "b \<le> a" "c = a - b" by (auto simp: checked_sub_def split: if_splits)
  then show "unat a = unat b + unat c"
    by (simp add: unat_sub_le word_le_nat_alt)
next
  assume a: "unat a = unat b + unat c"
  then have "b \<le> a" by (simp add: word_le_nat_alt)
  moreover from this a have "a - b = c" by (simp add: word_unat_eq_iff unat_sub_le)
  ultimately show "checked_sub a b = Some c" by (simp add: checked_sub_def)
qed

lemma checked_sub_None [arith_specs]:
  "checked_sub a b = None \<longleftrightarrow> unat a < unat b"
  by (auto simp: checked_sub_def word_le_nat_alt)

lemma checked_mul_Some [arith_specs]:
  "checked_mul a b = Some c \<longleftrightarrow> unat c = unat a * unat b"
proof
  assume "checked_mul a b = Some c"
  then show "unat c = unat a * unat b"
    by (auto simp: checked_mul_def unat_word_ariths split: if_splits)
next
  assume c: "unat c = unat a * unat b"
  with unat_bound [of c] have "unat a * unat b < 2 ^ LENGTH('a)" by simp
  with c show "checked_mul a b = Some c"
    by (simp add: checked_mul_def word_unat_eq_iff unat_word_ariths)
qed

lemma unat_max_word: "unat (- 1 :: 'a::len word) = 2 ^ LENGTH('a) - 1"
  by (simp add: unsigned_minus_1_eq_mask mask_eq_exp_minus_1)

lemma unat_saturating_add [arith_specs]:
  "unat (saturating_add a b :: 'a::len word) = min (unat a + unat b) (2 ^ LENGTH('a) - 1)"
  by (auto simp: saturating_add_def unat_add_nowrap unat_max_word min_def)

lemma unat_saturating_sub [arith_specs]:
  "unat (saturating_sub a b) = unat a - unat b"
  by (auto simp: saturating_sub_def unat_sub_le word_le_nat_alt)

lemma add_panic_Ok [arith_specs]:
  "add_panic a b = Ok c \<longleftrightarrow> unat c = unat a + unat b"
  by (simp add: add_panic_def or_panic_eq_Ok checked_add_Some)

lemma sub_panic_Ok [arith_specs]:
  "sub_panic a b = Ok c \<longleftrightarrow> unat a = unat b + unat c"
  by (simp add: sub_panic_def or_panic_eq_Ok checked_sub_Some)

section \<open>Slices\<close>

text \<open>\<open>get_range\<close> is \<open>slice.get(a..b)\<close>, \<open>get_from\<close> is \<open>slice.get(a..)\<close>;
  the indexing forms \<open>slice[a..b]\<close> panic where \<open>get\<close> gives \<open>None\<close>.\<close>

definition get_range :: "'a list \<Rightarrow> nat \<Rightarrow> nat \<Rightarrow> 'a list option" where
  "get_range xs a b = (if a \<le> b \<and> b \<le> length xs then Some (take (b - a) (drop a xs)) else None)"

definition get_from :: "'a list \<Rightarrow> nat \<Rightarrow> 'a list option" where
  "get_from xs a = (if a \<le> length xs then Some (drop a xs) else None)"

definition get_at :: "'a list \<Rightarrow> nat \<Rightarrow> 'a option" where
  "get_at xs i = (if i < length xs then Some (xs ! i) else None)"

definition index_range :: "'a list \<Rightarrow> nat \<Rightarrow> nat \<Rightarrow> ('a list, 'e) res" where
  "index_range xs a b = or_panic (get_range xs a b)"

text \<open>\<open>buf[a..b].copy_from_slice(src)\<close>: panics when the range is out of bounds or
  the lengths differ.\<close>

definition copy_from_slice :: "'a list \<Rightarrow> nat \<Rightarrow> nat \<Rightarrow> 'a list \<Rightarrow> ('a list, 'e) res" where
  "copy_from_slice buf a b src =
     (if a \<le> b \<and> b \<le> length buf \<and> b - a = length src
      then Ok (take a buf @ src @ drop b buf) else Panic)"

lemma get_range_Some [slice_simps]:
  "get_range xs a b = Some ys \<longleftrightarrow> a \<le> b \<and> b \<le> length xs \<and> ys = take (b - a) (drop a xs)"
  by (auto simp: get_range_def)

lemma get_range_None [slice_simps]:
  "get_range xs a b = None \<longleftrightarrow> \<not> (a \<le> b \<and> b \<le> length xs)"
  by (auto simp: get_range_def)

lemma get_from_Some [slice_simps]:
  "get_from xs a = Some ys \<longleftrightarrow> a \<le> length xs \<and> ys = drop a xs"
  by (auto simp: get_from_def)

lemma get_at_Some [slice_simps]: "get_at xs i = Some x \<longleftrightarrow> i < length xs \<and> x = xs ! i"
  by (auto simp: get_at_def)

lemma get_range_mid:
  "length pre = a \<Longrightarrow> length mid = b - a \<Longrightarrow> a \<le> b \<Longrightarrow>
   get_range (pre @ mid @ post) a b = Some mid"
  by (auto simp: get_range_def)

lemma length_copy_from_slice:
  "copy_from_slice buf a b src = Ok buf' \<Longrightarrow> length buf' = length buf"
  by (auto simp: copy_from_slice_def split: if_splits)

section \<open>Byte order\<close>

primrec to_le :: "nat \<Rightarrow> nat \<Rightarrow> bytes" where
  "to_le 0 v = []"
| "to_le (Suc n) v = word_of_nat v # to_le n (v div 256)"

fun le_val :: "bytes \<Rightarrow> nat" where
  "le_val [] = 0"
| "le_val (b # bs) = unat b + 256 * le_val bs"

definition u32_to_le_bytes :: "u32 \<Rightarrow> bytes" where
  "u32_to_le_bytes w = to_le 4 (unat w)"

definition u64_to_le_bytes :: "u64 \<Rightarrow> bytes" where
  "u64_to_le_bytes w = to_le 8 (unat w)"

definition u16_to_le_bytes :: "u16 \<Rightarrow> bytes" where
  "u16_to_le_bytes w = to_le 2 (unat w)"

definition u32_to_be_bytes :: "u32 \<Rightarrow> bytes" where
  "u32_to_be_bytes w = rev (to_le 4 (unat w))"

definition u64_to_be_bytes :: "u64 \<Rightarrow> bytes" where
  "u64_to_be_bytes w = rev (to_le 8 (unat w))"

definition u32_from_le_bytes :: "bytes \<Rightarrow> u32" where
  "u32_from_le_bytes bs = word_of_nat (le_val bs)"

definition u32_from_be_bytes :: "bytes \<Rightarrow> u32" where
  "u32_from_be_bytes bs = word_of_nat (le_val (rev bs))"

lemma length_to_le [simp]: "length (to_le n v) = n"
  by (induction n arbitrary: v) simp_all

lemma le_val_to_le [slice_simps]: "le_val (to_le n v) = v mod 256 ^ n"
proof (induction n arbitrary: v)
  case 0
  then show ?case by simp
next
  case (Suc n)
  have "unat (word_of_nat v :: u8) = v mod 256"
    by (simp add: unat_of_nat)
  with Suc show ?case
    by (simp add: mod_mult2_eq)
qed

lemma le_val_bound: "le_val bs < 256 ^ length bs"
proof (induction bs)
  case Nil
  then show ?case by simp
next
  case (Cons b bs)
  have "unat b \<le> 255" using unat_bound [of b] by simp
  with Cons show ?case by simp
qed

lemma to_le_le_val [slice_simps]: "to_le (length bs) (le_val bs) = bs"
proof (induction bs)
  case Nil
  then show ?case by simp
next
  case (Cons b bs)
  have b: "unat b < 256" using unat_bound [of b] by simp
  then have "(unat b + 256 * le_val bs) div 256 = le_val bs" by simp
  moreover have "(word_of_nat (unat b + 256 * le_val bs) :: u8) = b"
    using b by (simp add: word_unat_eq_iff unat_of_nat del: of_nat_add)
  ultimately show ?case using Cons by (simp del: of_nat_add)
qed

lemma u32_le_roundtrip [simp]: "u32_from_le_bytes (u32_to_le_bytes w) = w"
proof -
  have "unat w mod 256 ^ 4 = unat w" using unat_bound [of w] by simp
  then show ?thesis by (simp add: u32_from_le_bytes_def u32_to_le_bytes_def le_val_to_le)
qed

lemma u32_be_roundtrip [simp]: "u32_from_be_bytes (u32_to_be_bytes w) = w"
proof -
  have "unat w mod 256 ^ 4 = unat w" using unat_bound [of w] by simp
  then show ?thesis by (simp add: u32_from_be_bytes_def u32_to_be_bytes_def le_val_to_le)
qed

lemma length_int_bytes [simp]:
  "length (u32_to_le_bytes w) = 4" "length (u64_to_le_bytes x) = 8"
  "length (u16_to_le_bytes h) = 2" "length (u32_to_be_bytes w) = 4"
  "length (u64_to_be_bytes x) = 8"
  by (simp_all add: u32_to_le_bytes_def u64_to_le_bytes_def u16_to_le_bytes_def
      u32_to_be_bytes_def u64_to_be_bytes_def)

section \<open>Strings\<close>

text \<open>A \<open>str\<close> or \<open>String\<close> is its UTF-8 bytes. \<open>ascii\<close> turns a literal into them.\<close>

definition ascii :: "string \<Rightarrow> bytes" where
  "ascii s = map (\<lambda>c. word_of_nat (of_char c)) s"

lemma length_ascii [simp]: "length (ascii s) = length s"
  by (simp add: ascii_def)

lemma ascii_append: "ascii (s @ t) = ascii s @ ascii t"
  by (simp add: ascii_def)

text \<open>\<open>core::str::from_utf8\<close> accepts exactly the well-formed sequences of the Unicode
  standard: one byte below \<open>0x80\<close>, or a lead byte with continuation bytes whose
  first one is restricted for the leads \<open>E0\<close>, \<open>ED\<close>, \<open>F0\<close> and \<open>F4\<close>.\<close>

definition cont :: "u8 \<Rightarrow> bool" where
  "cont b \<longleftrightarrow> 0x80 \<le> b \<and> b \<le> 0xBF"

definition utf8_second_ok :: "u8 \<Rightarrow> u8 \<Rightarrow> bool" where
  "utf8_second_ok a b \<longleftrightarrow>
     (if a = 0xE0 then 0xA0 \<le> b \<and> b \<le> 0xBF
      else if a = 0xED then 0x80 \<le> b \<and> b \<le> 0x9F
      else if a = 0xF0 then 0x90 \<le> b \<and> b \<le> 0xBF
      else if a = 0xF4 then 0x80 \<le> b \<and> b \<le> 0x8F
      else cont b)"

fun utf8_valid :: "bytes \<Rightarrow> bool" where
  "utf8_valid [] = True"
| "utf8_valid (a # r) =
     (if a < 0x80 then utf8_valid r
      else if 0xC2 \<le> a \<and> a \<le> 0xDF then
        (case r of b # r' \<Rightarrow> cont b \<and> utf8_valid r' | _ \<Rightarrow> False)
      else if 0xE0 \<le> a \<and> a \<le> 0xEF then
        (case r of b # c # r' \<Rightarrow> utf8_second_ok a b \<and> cont c \<and> utf8_valid r' | _ \<Rightarrow> False)
      else if 0xF0 \<le> a \<and> a \<le> 0xF4 then
        (case r of b # c # d # r' \<Rightarrow>
           utf8_second_ok a b \<and> cont c \<and> cont d \<and> utf8_valid r' | _ \<Rightarrow> False)
      else False)"

lemma utf8_valid_ascii: "(\<And>b. b \<in> set bs \<Longrightarrow> b < 0x80) \<Longrightarrow> utf8_valid bs"
  by (induction bs) auto

definition from_utf8 :: "bytes \<Rightarrow> bytes option" where
  "from_utf8 bs = (if utf8_valid bs then Some bs else None)"

lemma from_utf8_Some [slice_simps]: "from_utf8 bs = Some s \<longleftrightarrow> utf8_valid bs \<and> s = bs"
  by (auto simp: from_utf8_def)

end
