(* ===== verification/Xnu_Uart.thy ===== *)
theory Xnu_Uart
  imports Xnu_Prelude
begin

text \<open>
  The PL011 console of \<open>kernel/src/arch/aarch64/uart.rs\<close>. The state the code
  changes is the device: the log of volatile 32-bit writes, oldest first.
  \<open>uart_text\<close> reads off the bytes the data register received; the locale
  \<open>console\<close> is the interface the kernel's printing code relies on.
\<close>

type_synonym mmio_log = "(u64 \<times> u32) list"

definition PL011_UART_BASE :: u64 where
  "PL011_UART_BASE = 0x09000000"

definition PL011_UART_DR :: u64 where
  "PL011_UART_DR = PL011_UART_BASE"

definition write_byte :: "u8 \<Rightarrow> mmio_log \<Rightarrow> mmio_log" where
  "write_byte b log = log @ [(PL011_UART_DR, ucast b)]"

definition write_str :: "bytes \<Rightarrow> mmio_log \<Rightarrow> mmio_log" where
  "write_str message log = fold write_byte message log"

definition hex_byte :: "u64 \<Rightarrow> nat \<Rightarrow> u8" where
  "hex_byte value shift =
     (let nibble = ucast (drop_bit shift value AND 0x0f) :: u8
      in if nibble < 10 then 0x30 + nibble else 0x61 + (nibble - 10))"

definition write_hex_u64 :: "u64 \<Rightarrow> mmio_log \<Rightarrow> mmio_log" where
  "write_hex_u64 value log =
     fold (\<lambda>shift. write_byte (hex_byte value shift))
       (rev (map (\<lambda>i. 4 * i) [0..<16])) (write_str (ascii ''0x'') log)"

definition write_hex_usize :: "u64 \<Rightarrow> mmio_log \<Rightarrow> mmio_log" where
  "write_hex_usize value log = write_hex_u64 value log"

definition uart_text :: "mmio_log \<Rightarrow> bytes" where
  "uart_text log = map (\<lambda>w. ucast (snd w)) (filter (\<lambda>w. fst w = PL011_UART_DR) log)"

section \<open>The console interface\<close>

locale console =
  fixes put :: "u8 \<Rightarrow> 's \<Rightarrow> 's" and shown :: "'s \<Rightarrow> bytes"
  assumes shown_put: "shown (put b s) = shown s @ [b]"
begin

lemma shown_fold: "shown (fold put bs s) = shown s @ bs"
  by (induction bs arbitrary: s) (simp_all add: shown_put)

lemma shown_fold_map: "shown (fold (\<lambda>x. put (f x)) xs s) = shown s @ map f xs"
  by (induction xs arbitrary: s) (simp_all add: shown_put)

end

interpretation uart: console write_byte uart_text
  by unfold_locales (simp add: uart_text_def write_byte_def ucast_ucast_up)

text \<open>The text of a printed \<open>u64\<close>: \<open>0x\<close> and sixteen digits.\<close>

definition hex_text :: "u64 \<Rightarrow> bytes" where
  "hex_text value = ascii ''0x'' @ map (hex_byte value) (rev (map (\<lambda>i. 4 * i) [0..<16]))"

lemma text_write_byte [simp]: "uart_text (write_byte b log) = uart_text log @ [b]"
  by (rule uart.shown_put)

lemma text_write_str [simp]: "uart_text (write_str s log) = uart_text log @ s"
  by (simp add: write_str_def uart.shown_fold)

lemma text_write_hex [simp]: "uart_text (write_hex_u64 v log) = uart_text log @ hex_text v"
  by (simp add: write_hex_u64_def uart.shown_fold_map hex_text_def)

lemma length_hex_text [simp]: "length (hex_text v) = 18"
  by (simp add: hex_text_def)

section \<open>Reading the hexadecimal text back\<close>

definition digit_val :: "u8 \<Rightarrow> nat" where
  "digit_val b = (if b < 0x61 then unat b - 0x30 else unat b - 0x61 + 10)"

definition read_hex :: "bytes \<Rightarrow> nat" where
  "read_hex ds = foldl (\<lambda>acc d. 16 * acc + digit_val d) 0 ds"

lemma unat_nibble: "unat (ucast (w AND 0x0f) :: u8) = unat w mod 16" for w :: u64
proof -
  have "w AND 0x0f = take_bit 4 w"
    by (simp add: take_bit_eq_mask mask_numeral)
  then show ?thesis by (simp add: unat_ucast unat_take_bit)
qed

lemma digit_val_hex_byte: "digit_val (hex_byte v s) = unat v div 2 ^ s mod 16"
proof -
  define n :: u8 where "n = ucast (drop_bit s v AND 0x0f)"
  have n: "unat n = unat v div 2 ^ s mod 16"
    by (simp add: n_def unat_nibble unat_drop_bit)
  then have "unat n < 16" by simp
  have "digit_val (if n < 10 then 0x30 + n else 0x61 + (n - 10)) = unat n"
  proof (cases "n < 10")
    case True
    then have l: "unat n < 10" by (simp add: word_less_nat_alt)
    then have "unat (0x30 + n) = 0x30 + unat n" by (simp add: unat_add_nowrap)
    with l True show ?thesis by (simp add: digit_val_def word_less_nat_alt)
  next
    case False
    then have l: "10 \<le> unat n" by (simp add: word_less_nat_alt)
    then have "unat (n - 10) = unat n - 10" by (simp add: unat_sub_le word_le_nat_alt)
    with l \<open>unat n < 16\<close> have "unat (0x61 + (n - 10)) = 0x61 + (unat n - 10)"
      by (simp add: unat_add_nowrap)
    with l show ?thesis using False by (simp add: digit_val_def word_less_nat_alt)
  qed
  then show ?thesis by (simp add: hex_byte_def Let_def n n_def [symmetric])
qed

lemma foldl_digits:
  "foldl (\<lambda>a i. 16 * a + v div 16 ^ i mod 16) acc (rev [0..<n]) = acc * 16 ^ n + v mod 16 ^ n"
  for v :: nat
proof (induction n arbitrary: acc)
  case 0
  then show ?case by simp
next
  case (Suc n)
  have "v mod 16 ^ Suc n = 16 ^ n * (v div 16 ^ n mod 16) + v mod 16 ^ n"
    by (metis mod_mult2_eq mult.commute power_Suc)
  with Suc show ?case by (simp add: algebra_simps)
qed

lemma read_hex_text: "read_hex (drop 2 (hex_text v)) = unat v"
proof -
  have "read_hex (drop 2 (hex_text v)) =
      foldl (\<lambda>a i. 16 * a + unat v div 16 ^ i mod 16) 0 (rev [0..<16])"
    by (simp add: read_hex_def hex_text_def foldl_map rev_map digit_val_hex_byte power_mult
        ascii_def)
  also have "\<dots> = unat v mod 16 ^ 16" by (simp only: foldl_digits)
  also have "\<dots> = unat v" using unat_bound [of v] by simp
  finally show ?thesis .
qed

end
