(* ===== verification/Xnu_Align.thy ===== *)
theory Xnu_Align
  imports Xnu_Prelude
begin

text \<open>
  Rounding up to a power of two. Six functions of the sources do it
  (\<open>align_up\<close> and \<open>align_down\<close> of the boot loader, \<open>align_up\<close> of the user-image
  loader, \<open>align_up_2m\<close> of the kernel entry, \<open>align_up_4\<close> of the device-tree
  reader, \<open>align_pos\<close> of the FDT parser and \<open>align_usize\<close> of the image builder).
  The locale \<open>aligner\<close> states what they promise; each of them is interpreted in
  the theory of its component.
\<close>

section \<open>Masking\<close>

lemma and_not_mask_eq_push_drop:
  "w AND NOT (mask k) = push_bit k (drop_bit k w)" for w :: "'a::len word"
  by (rule bit_word_eqI)
    (auto simp: bit_and_iff bit_not_iff bit_mask_iff bit_push_bit_iff bit_drop_bit_eq)

lemma unat_and_not_mask:
  "unat (w AND NOT (mask k)) = unat w - unat w mod 2 ^ k" for w :: "'a::len word"
proof -
  have "push_bit k (drop_bit k w) = w - take_bit k w"
    using bits_ident [of k w] by (simp add: algebra_simps)
  moreover have "take_bit k w \<le> w"
    by (simp add: word_le_nat_alt unat_take_bit)
  ultimately show ?thesis
    by (simp add: and_not_mask_eq_push_drop unat_sub_le unat_take_bit)
qed

lemma sub_mod_eq_mult_div: "n - n mod a = a * (n div a)" for n :: nat
  by (metis minus_mod_eq_mult_div)

text \<open>\<open>2 ^ k - 1\<close> as the sources write it is \<open>mask k\<close>.\<close>

lemma power_two_minus_one_mask: "2 ^ k - 1 = (mask k :: 'a::len word)"
  by (simp add: mask_eq_exp_minus_1)

lemma unat_round_up:
  fixes v a :: "'a::len word"
  assumes a: "a = 2 ^ k" and k: "k < LENGTH('a)"
    and nw: "unat v + unat (a - 1) < 2 ^ LENGTH('a)"
  shows "unat ((v + (a - 1)) AND NOT (a - 1)) = 2 ^ k * ((unat v + (2 ^ k - 1)) div 2 ^ k)"
proof -
  have "unat (a - 1) = 2 ^ k - 1"
    using k by (simp add: a unat_sub_le word_le_nat_alt unat_power_two)
  with nw have "unat (v + (a - 1)) = unat v + (2 ^ k - 1)"
    by (simp add: unat_add_nowrap)
  then show ?thesis
    by (simp add: a power_two_minus_one_mask unat_and_not_mask sub_mod_eq_mult_div)
qed

section \<open>The contract\<close>

text \<open>\<open>up v\<close> is the rounded value, or \<open>None\<close> when the code fails (an error, a panic or a
  missing option); \<open>lim\<close> bounds the inputs on which it must not fail.\<close>

locale aligner =
  fixes up :: "nat \<Rightarrow> nat option" and al :: nat and lim :: nat
  assumes al_pos: "0 < al"
    and up_sound: "up v = Some r \<Longrightarrow> al dvd r \<and> v \<le> r \<and> r < v + al"
    and up_total: "v + (al - 1) < lim \<Longrightarrow> \<exists>r. up v = Some r"
    and up_none: "lim \<le> v + (al - 1) \<Longrightarrow> up v = None"
begin

lemma up_multiple: "up v = Some r \<Longrightarrow> al dvd r"
  using up_sound by blast

lemma up_least: "up v = Some r \<Longrightarrow> al dvd m \<Longrightarrow> v \<le> m \<Longrightarrow> r \<le> m"
proof -
  assume r: "up v = Some r" and m: "al dvd m" "v \<le> m"
  from up_sound [OF r] have d: "al dvd r" and lt: "r < v + al" by auto
  show "r \<le> m"
  proof (rule ccontr)
    assume "\<not> r \<le> m"
    then have "m < r" by simp
    moreover from d m(1) have "al dvd r - m" by (rule dvd_diff_nat)
    ultimately have "al \<le> r - m" by (simp add: dvd_imp_le)
    with lt m(2) \<open>m < r\<close> show False by simp
  qed
qed

lemma up_eq: "up v = Some r \<Longrightarrow> r = al * ((v + (al - 1)) div al)"
proof -
  assume r: "up v = Some r"
  from up_sound [OF r] obtain q where q: "r = al * q" and b: "v \<le> al * q" "al * q < v + al"
    by (auto elim!: dvdE)
  have "(v + (al - 1)) div al = q"
  proof (rule div_nat_eqI)
    show "al * q \<le> v + (al - 1)" using b(2) al_pos by simp
    show "v + (al - 1) < al * Suc q" using b(1) al_pos by simp
  qed
  with q show ?thesis by simp
qed

lemma up_iff: "up v = Some r \<longleftrightarrow> v + (al - 1) < lim \<and> r = al * ((v + (al - 1)) div al)"
  using up_eq up_total up_none by (metis linorder_not_less option.distinct(1))

lemma up_fixed: "v + (al - 1) < lim \<Longrightarrow> al dvd v \<Longrightarrow> up v = Some v"
proof -
  assume "v + (al - 1) < lim" and d: "al dvd v"
  then obtain r where r: "up v = Some r" using up_total by blast
  have "r \<le> v" by (rule up_least [OF r d]) simp
  moreover from up_sound [OF r] have "v \<le> r" by simp
  ultimately show ?thesis using r by simp
qed

lemma up_unique:
  assumes "v + (al - 1) < lim" "al dvd t" "v \<le> t" "t < v + al"
  shows "up v = Some t"
proof -
  from assms(1) obtain r where r: "up v = Some r" using up_total by blast
  have le: "r \<le> t" by (rule up_least [OF r assms(2,3)])
  from up_sound [OF r] have d: "al dvd t - r" and "v \<le> r" using assms(2) by (auto intro: dvd_diff_nat)
  have "t - r = 0"
  proof (rule ccontr)
    assume "t - r \<noteq> 0"
    with d have "al \<le> t - r" by (simp add: dvd_imp_le)
    with \<open>v \<le> r\<close> le assms(4) show False by linarith
  qed
  with le r show ?thesis by simp
qed

lemma up_mono: "up v = Some r \<Longrightarrow> up w = Some s \<Longrightarrow> v \<le> w \<Longrightarrow> r \<le> s"
  using up_least [of v r s] up_sound [of w s] by auto

lemma up_idem: "up v = Some r \<Longrightarrow> r + (al - 1) < lim \<Longrightarrow> up r = Some r"
  by (intro up_fixed) (auto dest: up_multiple)

end

text \<open>Rounding by the closed formula satisfies the contract, so an implementation only has to
  be shown equal to it.\<close>

lemma round_up_bounds:
  fixes al :: nat
  assumes "0 < al"
  shows "v \<le> al * ((v + (al - 1)) div al)" "al * ((v + (al - 1)) div al) < v + al"
proof -
  let ?n = "v + (al - 1)"
  have e: "al * (?n div al) + ?n mod al = ?n" by simp
  have "?n mod al < al" using assms by simp
  with e assms show "v \<le> al * (?n div al)" by linarith
  from e assms show "al * (?n div al) < v + al" by linarith
qed

lemma aligner_by_formula:
  assumes "0 < al"
    and "\<And>v. up v = (if v + (al - 1) < lim then Some (al * ((v + (al - 1)) div al)) else None)"
  shows "aligner up al lim"
  using assms round_up_bounds [of al] by unfold_locales (auto split: if_splits)

text \<open>A function on \<open>u64\<close> as one on the naturals, for the interpretations.\<close>

definition on_u64 :: "(u64 \<Rightarrow> u64 option) \<Rightarrow> nat \<Rightarrow> nat option" where
  "on_u64 f v = (if v < 2 ^ 64 then map_option unat (f (word_of_nat v)) else None)"

lemma on_u64_unat: "on_u64 f (unat v) = map_option unat (f v)"
  using unat_bound [of v] by (simp add: on_u64_def)

lemma u64_aligner:
  assumes k: "k < 64" and lim: "lim \<le> 2 ^ 64"
    and f: "\<And>v. f v = (if unat v + (2 ^ k - 1) < lim
                       then Some ((v + (2 ^ k - 1)) AND NOT (2 ^ k - 1)) else None)"
  shows "aligner (on_u64 f) (2 ^ k) lim"
proof (rule aligner_by_formula)
  show "0 < (2 :: nat) ^ k" by simp
next
  fix v :: nat
  have one: "unat (2 ^ k - 1 :: u64) = 2 ^ k - 1"
    using k by (simp add: unat_sub_le word_le_nat_alt unat_power_two)
  show "on_u64 f v =
    (if v + (2 ^ k - 1) < lim then Some (2 ^ k * ((v + (2 ^ k - 1)) div 2 ^ k)) else None)"
  proof (cases "v + (2 ^ k - 1) < lim")
    case True
    then have v: "v < 2 ^ 64" and s: "v + (2 ^ k - 1) < 2 ^ 64" using lim by linarith+
    define w :: u64 where "w = word_of_nat v"
    have w: "unat w = v" using v by (simp add: w_def unat_of_nat)
    have "unat ((w + (2 ^ k - 1)) AND NOT (2 ^ k - 1)) = 2 ^ k * ((v + (2 ^ k - 1)) div 2 ^ k)"
      using unat_round_up [of "2 ^ k" k w] k s by (simp add: w one)
    with True v w show ?thesis
      by (simp add: on_u64_def f w_def [symmetric])
  next
    case False
    then show ?thesis
      by (auto simp: on_u64_def f unat_of_nat)
  qed
qed

end
