(* ===== verification/Kernel_Device_Tree.thy ===== *)
theory Kernel_Device_Tree
  imports Xnu_Uart Xnu_Align
begin

text \<open>
  The Apple device tree reader of \<open>kernel/src/device_tree.rs\<close>. A \<open>Node\<close> is the
  slice that starts at the node. \<open>Result<_, ()>\<close> is \<open>(_, unit) res\<close>.
  \<open>child_at\<close> and \<open>total_len\<close> call each other; the recursion goes to a strictly
  shorter slice (a child starts at offset 8 or later), so \<open>total_len\<close> recurses on
  fuel and the length of the slice is enough of it (\<open>returns_total_len\<close>,
  \<open>total_len_unfold\<close>). \<open>dump_node\<close> writes to the console while it parses,
  so it is a state transformer that also returns a result.
\<close>

section \<open>Definitions\<close>

definition PROPERTY_NAME_LEN :: nat where
  "PROPERTY_NAME_LEN = 32"

definition read_le_u32 :: "bytes \<Rightarrow> nat \<Rightarrow> (u32, unit) res" where
  "read_le_u32 bs offset =
     and_then (ok_or (checked_add_us offset 4) ()) (\<lambda>e.
     and_then (ok_or (get_range bs offset e) ()) (\<lambda>data.
     Ok (u32_from_le_bytes data)))"

definition align_up_4 :: "nat \<Rightarrow> nat option" where
  "align_up_4 v =
     (case checked_add_us v 3 of
        Some v' \<Rightarrow> Some (unat ((word_of_nat v' :: u64) AND NOT 3))
      | None \<Rightarrow> None)"

record property =
  pname :: bytes
  pvalue :: bytes
  pend :: nat

definition position_zero :: "bytes \<Rightarrow> nat option" where
  "position_zero bs = (if 0 \<in> set bs then Some (length (takeWhile (\<lambda>b. b \<noteq> 0) bs)) else None)"

definition Property_parse :: "bytes \<Rightarrow> nat \<Rightarrow> (property, unit) res" where
  "Property_parse bs offset =
     and_then (ok_or (checked_add_us offset PROPERTY_NAME_LEN) ()) (\<lambda>name_end.
     and_then (ok_or (get_range bs offset name_end) ()) (\<lambda>name_bytes.
     let name_len = (case position_zero name_bytes of Some n \<Rightarrow> n | None \<Rightarrow> PROPERTY_NAME_LEN) in
     and_then (index_range name_bytes 0 name_len) (\<lambda>name_slice.
     and_then (ok_or (from_utf8 name_slice) ()) (\<lambda>name.
     and_then (ok_or (checked_add_us offset PROPERTY_NAME_LEN) ()) (\<lambda>len_offset.
     and_then (read_le_u32 bs len_offset) (\<lambda>len32.
     let len = unat len32 in
     and_then (ok_or (checked_add_us len_offset 4) ()) (\<lambda>value_start.
     and_then (ok_or (checked_add_us value_start len) ()) (\<lambda>value_end.
     and_then (ok_or (get_range bs value_start value_end) ()) (\<lambda>val.
     and_then (ok_or (align_up_4 value_end) ()) (\<lambda>e.
     if e > length bs then Err ()
     else Ok \<lparr>pname = name, pvalue = val, pend = e\<rparr>))))))))))"

definition property_count :: "bytes \<Rightarrow> (u32, unit) res" where
  "property_count node = read_le_u32 node 0"

definition child_count :: "bytes \<Rightarrow> (u32, unit) res" where
  "child_count node = read_le_u32 node 4"

primrec properties_loop :: "nat \<Rightarrow> bytes \<Rightarrow> nat \<Rightarrow> (nat, unit) res" where
  "properties_loop 0 node offset = Ok offset"
| "properties_loop (Suc n) node offset =
     and_then (Property_parse node offset) (\<lambda>p. properties_loop n node (pend p))"

definition properties_end :: "bytes \<Rightarrow> (nat, unit) res" where
  "properties_end node =
     and_then (property_count node) (\<lambda>n. properties_loop (unat n) node 8)"

text \<open>The loop of \<open>Node::child_at\<close>: \<open>n\<close> iterations left, the current one being \<open>index\<close>.\<close>

primrec child_at_loop ::
  "nat \<Rightarrow> (bytes \<Rightarrow> (nat, unit) res) \<Rightarrow> bytes \<Rightarrow> nat \<Rightarrow> nat \<Rightarrow> nat \<Rightarrow> (bytes, unit) res" where
  "child_at_loop 0 tlen node wanted index offset = Err ()"
| "child_at_loop (Suc n) tlen node wanted index offset =
     and_then (ok_or (get_from node offset) ()) (\<lambda>child.
     and_then (tlen child) (\<lambda>child_len.
     if index = wanted then Ok child
     else and_then (ok_or (checked_add_us offset child_len) ()) (\<lambda>offset'.
          child_at_loop n tlen node wanted (Suc index) offset')))"

definition child_at_with ::
  "(bytes \<Rightarrow> (nat, unit) res) \<Rightarrow> bytes \<Rightarrow> nat \<Rightarrow> (bytes, unit) res" where
  "child_at_with tlen node wanted =
     and_then (properties_end node) (\<lambda>offset.
     and_then (child_count node) (\<lambda>n. child_at_loop (unat n) tlen node wanted 0 offset))"

primrec total_len_loop ::
  "nat \<Rightarrow> (bytes \<Rightarrow> (nat, unit) res) \<Rightarrow> bytes \<Rightarrow> nat \<Rightarrow> nat \<Rightarrow> (nat, unit) res" where
  "total_len_loop 0 tlen node index offset = Ok offset"
| "total_len_loop (Suc n) tlen node index offset =
     and_then (child_at_with tlen node index) (\<lambda>child.
     and_then (tlen child) (\<lambda>l.
     and_then (ok_or (checked_add_us offset l) ()) (\<lambda>offset'.
     total_len_loop n tlen node (Suc index) offset')))"

primrec total_len_fuel :: "nat \<Rightarrow> bytes \<Rightarrow> (nat, unit) res" where
  "total_len_fuel 0 node = Diverge"
| "total_len_fuel (Suc f) node =
     and_then (properties_end node) (\<lambda>offset.
     and_then (child_count node) (\<lambda>n.
     total_len_loop (unat n) (total_len_fuel f) node 0 offset))"

definition total_len :: "bytes \<Rightarrow> (nat, unit) res" where
  "total_len node = total_len_fuel (Suc (length node)) node"

definition child_at :: "bytes \<Rightarrow> nat \<Rightarrow> (bytes, unit) res" where
  "child_at node wanted = child_at_with total_len node wanted"

definition AppleDeviceTree_new :: "bytes \<Rightarrow> (bytes, unit) res" where
  "AppleDeviceTree_new bs = (if length bs < 8 then Err () else Ok bs)"

subsection \<open>Printing\<close>

type_synonym 'a dump = "mmio_log \<Rightarrow> mmio_log \<times> ('a, unit) res"

fun dump_then :: "'a dump \<Rightarrow> ('a \<Rightarrow> 'b dump) \<Rightarrow> 'b dump" where
  "dump_then m k log =
     (case m log of
        (log', Ok a) \<Rightarrow> k a log'
      | (log', Err e) \<Rightarrow> (log', Err e)
      | (log', Panic) \<Rightarrow> (log', Panic)
      | (log', Diverge) \<Rightarrow> (log', Diverge))"

definition try_res :: "('a, unit) res \<Rightarrow> 'a dump" where
  "try_res r log = (log, r)"

definition emit :: "(mmio_log \<Rightarrow> mmio_log) \<Rightarrow> unit dump" where
  "emit f log = (f log, Ok ())"

definition is_printable :: "bytes \<Rightarrow> bool" where
  "is_printable bs \<longleftrightarrow> bs \<noteq> [] \<and> (\<forall>b \<in> set bs. (0x20 \<le> b \<and> b \<le> 0x7e) \<or> b = 0)"

definition write_ascii :: "bytes \<Rightarrow> mmio_log \<Rightarrow> mmio_log" where
  "write_ascii bs =
     fold (\<lambda>b. case from_utf8 [b] of Some t \<Rightarrow> write_str t | None \<Rightarrow> (\<lambda>log. log))
       (filter (\<lambda>b. b \<noteq> 0) bs)"

primrec write_indent :: "nat \<Rightarrow> mmio_log \<Rightarrow> mmio_log" where
  "write_indent 0 log = log"
| "write_indent (Suc d) log = write_indent d (write_str (ascii ''  '') log)"

definition dump_property :: "nat \<Rightarrow> property \<Rightarrow> mmio_log \<Rightarrow> mmio_log" where
  "dump_property depth p log =
     (let l1 = write_indent (depth + 1) log;
          l2 = write_str (pname p) l1;
          l3 = write_str (ascii '' len='') l2;
          l4 = write_hex_u64 (word_of_nat (length (pvalue p))) l3;
          l5 = (if is_printable (pvalue p)
                then write_str (ascii [CHR 0x22])
                       (write_ascii (pvalue p)
                         (write_str (ascii ('' value='' @ [CHR 0x22])) l4))
                else l4)
      in write_str (ascii [CHR 0x0A]) l5)"

primrec dump_props :: "nat \<Rightarrow> bytes \<Rightarrow> nat \<Rightarrow> nat \<Rightarrow> unit dump" where
  "dump_props 0 node depth offset = emit (\<lambda>log. log)"
| "dump_props (Suc n) node depth offset =
     dump_then (try_res (Property_parse node offset)) (\<lambda>p.
     dump_then (emit (dump_property depth p)) (\<lambda>_.
     dump_props n node depth (pend p)))"

primrec dump_children ::
  "nat \<Rightarrow> (bytes \<Rightarrow> nat \<Rightarrow> unit dump) \<Rightarrow> bytes \<Rightarrow> nat \<Rightarrow> nat \<Rightarrow> unit dump" where
  "dump_children 0 dn node depth index = emit (\<lambda>log. log)"
| "dump_children (Suc n) dn node depth index =
     dump_then (try_res (child_at node index)) (\<lambda>child.
     dump_then (dn child (depth + 1)) (\<lambda>_.
     dump_children n dn node depth (Suc index)))"

primrec dump_node_fuel :: "nat \<Rightarrow> bytes \<Rightarrow> nat \<Rightarrow> unit dump" where
  "dump_node_fuel 0 node depth = try_res Diverge"
| "dump_node_fuel (Suc f) node depth =
     dump_then (emit (\<lambda>log. write_str (ascii ''node props='') (write_indent depth log))) (\<lambda>_.
     dump_then (try_res (property_count node)) (\<lambda>pc.
     dump_then (emit (write_hex_u64 (ucast pc))) (\<lambda>_.
     dump_then (emit (write_str (ascii '' children=''))) (\<lambda>_.
     dump_then (try_res (child_count node)) (\<lambda>cc.
     dump_then (emit (write_hex_u64 (ucast cc))) (\<lambda>_.
     dump_then (emit (write_str (ascii [CHR 0x0A]))) (\<lambda>_.
     dump_then (try_res (property_count node)) (\<lambda>pc2.
     dump_then (dump_props (unat pc2) node depth 8) (\<lambda>_.
     dump_then (try_res (child_count node)) (\<lambda>cc2.
     dump_children (unat cc2) (dump_node_fuel f) node depth 0))))))))))"

definition dump_node :: "bytes \<Rightarrow> nat \<Rightarrow> unit dump" where
  "dump_node node depth = dump_node_fuel (Suc (length node)) node depth"

definition dump :: "bytes \<Rightarrow> mmio_log \<Rightarrow> mmio_log \<times> (unit, unit) res" where
  "dump bs log =
     (case AppleDeviceTree_new bs of
        Ok root \<Rightarrow>
          (case dump_node root 0 (write_str (ascii (''xnu-rs: Apple device tree'' @ [CHR 0x0A])) log) of
             (log', Err _) \<Rightarrow>
               (write_str (ascii (''xnu-rs: Apple device tree dump truncated/malformed''
                                  @ [CHR 0x0A])) log', Ok ())
           | (log', r) \<Rightarrow> (log', r))
      | Err _ \<Rightarrow> (write_str (ascii (''xnu-rs: malformed Apple device tree'' @ [CHR 0x0A])) log, Ok ())
      | Panic \<Rightarrow> (log, Panic)
      | Diverge \<Rightarrow> (log, Diverge))"

section \<open>Primitive readers\<close>

lemma read_le_u32_eq:
  "read_le_u32 bs offset =
     (if offset + 4 \<le> length bs \<and> offset + 4 < 2 ^ 64
      then Ok (u32_from_le_bytes (take 4 (drop offset bs))) else Err ())"
  by (simp add: read_le_u32_def checked_add_us_def get_range_def)

lemma read_le_u32_OkD: "read_le_u32 bs offset = Ok w \<Longrightarrow> offset + 4 \<le> length bs"
  by (simp add: read_le_u32_eq split: if_splits)

lemma returns_read_le_u32 [simp]: "returns (read_le_u32 bs offset)"
  by (simp add: read_le_u32_eq)

lemma align_up_4_eq:
  "align_up_4 v = (if v + (4 - 1) < 2 ^ 64 then Some (4 * ((v + (4 - 1)) div 4)) else None)"
proof (cases "v + 3 < 2 ^ 64")
  case True
  have m: "(3 :: u64) = mask 2" by (simp add: mask_numeral)
  have u: "unat (word_of_nat (v + 3) :: u64) = v + 3"
    using True by (simp add: unat_of_nat del: of_nat_add)
  have "unat ((word_of_nat (v + 3) :: u64) AND NOT 3) = 4 * ((v + 3) div 4)"
    unfolding m unat_and_not_mask u by (simp add: sub_mod_eq_mult_div)
  with True show ?thesis
    by (simp add: align_up_4_def checked_add_us_def del: of_nat_add)
next
  case False
  then show ?thesis by (simp add: align_up_4_def checked_add_us_def)
qed

interpretation up4: aligner align_up_4 4 "2 ^ 64"
  by (rule aligner_by_formula) (simp_all add: align_up_4_eq)

lemma position_zero_le: "position_zero bs = Some n \<Longrightarrow> n \<le> length bs"
  by (auto simp: position_zero_def length_takeWhile_le split: if_splits)

section \<open>Properties\<close>

lemma returns_Property_parse [simp]: "returns (Property_parse bs offset)"
proof -
  have "index_range nb 0 (case position_zero nb of Some n \<Rightarrow> n | None \<Rightarrow> PROPERTY_NAME_LEN) \<noteq>
      (Panic :: (bytes, unit) res)" if "length nb = PROPERTY_NAME_LEN" for nb :: bytes
    using that by (auto simp: index_range_def get_range_def dest: position_zero_le split: option.splits)
  then show ?thesis
    by (auto simp: Property_parse_def Let_def returns_iff res_simps arith_specs slice_simps
        index_range_def get_range_def read_le_u32_eq split: if_splits option.splits)
qed

lemma Property_parse_OkD:
  assumes "Property_parse bs offset = Ok p"
  shows "offset + 36 + length (pvalue p) \<le> pend p" "pend p \<le> length bs" "4 dvd pend p"
    "pvalue p = take (length (pvalue p)) (drop (offset + 36) bs)"
    "utf8_valid (pname p)" "length (pname p) \<le> 32"
proof -
  from assms have "align_up_4 (36 + offset + length (pvalue p)) = Some (pend p) \<and>
      pvalue p = take (length (pvalue p)) (drop (36 + offset) bs) \<and>
      pend p \<le> length bs \<and> length (pname p) \<le> 32 \<and> utf8_valid (pname p)"
    by (auto simp: Property_parse_def Let_def res_simps arith_specs slice_simps index_range_def
        PROPERTY_NAME_LEN_def split: if_splits)
  with up4.up_sound [of "36 + offset + length (pvalue p)" "pend p"]
  show "offset + 36 + length (pvalue p) \<le> pend p" "4 dvd pend p" "pend p \<le> length bs"
    "utf8_valid (pname p)" "length (pname p) \<le> 32"
    "pvalue p = take (length (pvalue p)) (drop (offset + 36) bs)"
    by (simp_all add: add.commute)
qed

lemma properties_loop_OkD:
  "properties_loop n node offset = Ok e \<Longrightarrow> offset + 36 * n \<le> e \<and> (if n = 0 then e = offset else e \<le> length node)"
proof (induction n arbitrary: offset)
  case 0
  then show ?case by simp
next
  case (Suc n)
  then obtain p where p: "Property_parse node offset = Ok p"
      and l: "properties_loop n node (pend p) = Ok e"
    by (auto simp: res_simps)
  from Suc.IH [OF l] Property_parse_OkD(1,2) [OF p] l show ?case by (cases n) auto
qed

lemma returns_properties_loop [simp]: "returns (properties_loop n node offset)"
  by (induction n arbitrary: offset) auto

lemma returns_properties_end [simp]: "returns (properties_end node)"
  by (auto simp: properties_end_def property_count_def)

lemma properties_end_OkD:
  assumes "properties_end node = Ok e"
  shows "8 \<le> e" "4 \<le> length node"
  using assms
  by (auto simp: properties_end_def property_count_def res_simps
      dest!: properties_loop_OkD read_le_u32_OkD)

section \<open>The walk over the children\<close>

text \<open>Reference form of the two mutually recursive functions: one pass over the children that
  keeps the running offset.\<close>

primrec walk :: "nat \<Rightarrow> (bytes \<Rightarrow> (nat, unit) res) \<Rightarrow> bytes \<Rightarrow> nat \<Rightarrow> (nat, unit) res" where
  "walk 0 tlen node offset = Ok offset"
| "walk (Suc n) tlen node offset =
     and_then (ok_or (get_from node offset) ()) (\<lambda>child.
     and_then (tlen child) (\<lambda>l.
     and_then (ok_or (checked_add_us offset l) ()) (walk n tlen node)))"

lemma walk_add: "walk (a + b) tlen node offset = and_then (walk a tlen node offset) (walk b tlen node)"
  by (induction a arbitrary: offset) (simp_all add: res_simps cong: and_then_cong)

lemma child_at_loop_walk:
  "k < n \<Longrightarrow> child_at_loop n tlen node (i + k) i offset =
     and_then (walk k tlen node offset) (\<lambda>o'.
     and_then (ok_or (get_from node o') ()) (\<lambda>c. and_then (tlen c) (\<lambda>_. Ok c)))"
proof (induction n arbitrary: k i offset)
  case 0
  then show ?case by simp
next
  case (Suc n)
  show ?case
  proof (cases k)
    case 0
    then show ?thesis by simp
  next
    case (Suc k')
    then have "child_at_loop n tlen node (i + k) (Suc i) o' =
        and_then (walk k' tlen node o') (\<lambda>o'.
        and_then (ok_or (get_from node o') ()) (\<lambda>c. and_then (tlen c) (\<lambda>_. Ok c)))" for o'
      using Suc.IH [of k' "Suc i" o'] Suc.prems by simp
    with Suc show ?thesis by (simp add: res_simps cong: and_then_cong)
  qed
qed

lemma total_len_loop_walk:
  assumes p: "properties_end node = Ok off0" and c: "child_count node = Ok N"
  shows "walk i tlen node off0 = Ok offset \<Longrightarrow> i + n = unat N \<Longrightarrow>
    total_len_loop n tlen node i offset = walk n tlen node offset"
proof (induction n arbitrary: i offset)
  case 0
  then show ?case by simp
next
  case (Suc n)
  have child: "child_at_with tlen node i =
      and_then (ok_or (get_from node offset) ()) (\<lambda>c. and_then (tlen c) (\<lambda>_. Ok c))"
    using child_at_loop_walk [of i "unat N" tlen node 0 off0] Suc.prems
    by (simp add: child_at_with_def p c)
  have step: "total_len_loop n tlen node (Suc i) (offset + l) = walk n tlen node (offset + l)"
    if "get_from node offset = Some ch" "tlen ch = Ok l" "offset + l < 2 ^ 64" for ch l
  proof -
    have "walk (i + Suc 0) tlen node off0 = Ok (offset + l)"
      using that(3) by (simp only: walk_add) (simp add: that(1,2) Suc.prems checked_add_us_def)
    then show ?thesis by (intro Suc.IH) (use Suc.prems in simp_all)
  qed
  show ?case
  proof (cases "get_from node offset")
    case None
    then show ?thesis by (simp add: child)
  next
    case (Some ch)
    then show ?thesis
      using step [OF Some] by (cases "tlen ch") (simp_all add: child checked_add_us_def)
  qed
qed

primrec node_len_fuel :: "nat \<Rightarrow> bytes \<Rightarrow> (nat, unit) res" where
  "node_len_fuel 0 node = Diverge"
| "node_len_fuel (Suc f) node =
     and_then (properties_end node) (\<lambda>offset.
     and_then (child_count node) (\<lambda>n. walk (unat n) (node_len_fuel f) node offset))"

definition node_len :: "bytes \<Rightarrow> (nat, unit) res" where
  "node_len node = node_len_fuel (Suc (length node)) node"

lemma total_len_fuel_eq: "total_len_fuel f node = node_len_fuel f node"
proof (induction f arbitrary: node)
  case 0
  then show ?case by simp
next
  case (Suc f)
  then have "total_len_fuel f = node_len_fuel f" by auto
  then show ?case
    using total_len_loop_walk [of node _ _ 0 "node_len_fuel f"]
    by (simp cong: and_then_cong)
qed

lemma get_from_shorter: "get_from node offset = Some c \<Longrightarrow> 0 < offset \<Longrightarrow> length c < length node"
  by (auto simp: slice_simps)

lemma walk_agree:
  assumes "\<And>c. length c < length node \<Longrightarrow> t c = t' c"
  shows "0 < offset \<Longrightarrow> walk n t node offset = walk n t' node offset"
proof (induction n arbitrary: offset)
  case 0
  then show ?case by simp
next
  case (Suc n)
  show ?case
  proof (cases "get_from node offset")
    case None
    then show ?thesis by simp
  next
    case (Some c)
    with Suc.prems have "t c = t' c" by (intro assms get_from_shorter)
    with Some Suc show ?thesis
      by (cases "t' c") (simp_all add: checked_add_us_def)
  qed
qed

lemma returns_walk:
  assumes "\<And>c. length c < length node \<Longrightarrow> returns (t c)"
  shows "0 < offset \<Longrightarrow> returns (walk n t node offset)"
proof (induction n arbitrary: offset)
  case 0
  then show ?case by simp
next
  case (Suc n)
  have "returns (t c)" if "get_from node offset = Some c" for c
    using that Suc.prems by (intro assms get_from_shorter)
  with Suc show ?case by (auto simp: res_simps arith_specs intro!: returns_and_then)
qed

lemma walk_bound:
  assumes "\<And>c l. length c < length node \<Longrightarrow> t c = Ok l \<Longrightarrow> 8 \<le> l \<and> l \<le> length c"
  shows "0 < offset \<Longrightarrow> walk n t node offset = Ok e \<Longrightarrow>
    offset + 8 * n \<le> e \<and> (n = 0 \<or> e \<le> length node)"
proof (induction n arbitrary: offset)
  case 0
  then show ?case by simp
next
  case (Suc n)
  then obtain c l where c: "get_from node offset = Some c" and l: "t c = Ok l"
      and w: "walk n t node (offset + l) = Ok e"
    by (auto simp: res_simps arith_specs)
  from assms [OF get_from_shorter [OF c Suc.prems(1)] l]
  have "8 \<le> l" and "offset + l \<le> length node"
    using c by (auto simp: slice_simps)
  moreover from this Suc.IH [OF _ w] have "offset + l + 8 * n \<le> e \<and> (n = 0 \<or> e \<le> length node)"
    by simp
  ultimately show ?case using w by (cases n) auto
qed

lemma node_len_fuel_agree:
  "length node < f \<Longrightarrow> length node < g \<Longrightarrow> node_len_fuel f node = node_len_fuel g node"
proof (induction "length node" arbitrary: node f g rule: less_induct)
  case less
  from less.prems obtain f' g' where fg: "f = Suc f'" "g = Suc g'" by (cases f; cases g) auto
  have "walk n (node_len_fuel f') node off = walk n (node_len_fuel g') node off"
    if "properties_end node = Ok off" for n off
  proof (rule walk_agree)
    show "node_len_fuel f' c = node_len_fuel g' c" if "length c < length node" for c
      by (rule less.hyps) (use less.prems that fg in simp_all)
    show "0 < off" using properties_end_OkD(1) [OF that] by simp
  qed
  then show ?case by (simp add: fg cong: and_then_cong)
qed

lemma returns_node_len_fuel: "length node < f \<Longrightarrow> returns (node_len_fuel f node)"
proof (induction f arbitrary: node)
  case 0
  then show ?case by simp
next
  case (Suc f)
  have "returns (walk n (node_len_fuel f) node off)" if "properties_end node = Ok off" for n off
  proof (rule returns_walk)
    show "returns (node_len_fuel f c)" if "length c < length node" for c
      using Suc that by auto
    show "0 < off" using properties_end_OkD(1) [OF that] by simp
  qed
  then show ?case by (auto simp: child_count_def intro!: returns_and_then)
qed

lemma node_len_fuel_bound: "node_len_fuel f node = Ok l \<Longrightarrow> 8 \<le> l \<and> l \<le> length node"
proof (induction f arbitrary: node l)
  case 0
  then show ?case by simp
next
  case (Suc f)
  from Suc.prems obtain off n where off: "properties_end node = Ok off"
      and n: "child_count node = Ok n" and w: "walk (unat n) (node_len_fuel f) node off = Ok l"
    by (auto simp: res_simps)
  have off8: "8 \<le> off" using off by (rule properties_end_OkD)
  have len: "8 \<le> length node" using n by (simp add: child_count_def read_le_u32_OkD [of _ 4, simplified])
  have b: "off + 8 * unat n \<le> l \<and> (unat n = 0 \<or> l \<le> length node)"
    by (rule walk_bound [OF _ _ w]) (use Suc.IH off8 in auto)
  moreover have "off \<le> length node"
    using off len by (auto simp: properties_end_def res_simps dest!: properties_loop_OkD
        split: if_splits)
  ultimately show ?case using off8 w by (cases "unat n") auto
qed

text \<open>The functions of the source, without fuel.\<close>

lemma total_len_eq_node_len: "total_len node = node_len node"
  by (simp add: total_len_def node_len_def total_len_fuel_eq)

lemma node_len_unfold:
  "node_len node =
     and_then (properties_end node) (\<lambda>offset.
     and_then (child_count node) (\<lambda>n. walk (unat n) node_len node offset))"
proof -
  have "walk n (node_len_fuel (length node)) node off = walk n node_len node off"
    if "properties_end node = Ok off" for n off
  proof (rule walk_agree)
    show "node_len_fuel (length node) c = node_len c" if "length c < length node" for c
      unfolding node_len_def using that by (intro node_len_fuel_agree) auto
    show "0 < off" using properties_end_OkD(1) [OF that] by simp
  qed
  then show ?thesis by (simp add: node_len_def [of node] cong: and_then_cong)
qed

lemma total_len_unfold:
  "total_len node =
     and_then (properties_end node) (\<lambda>offset.
     and_then (child_count node) (\<lambda>n. total_len_loop (unat n) total_len node 0 offset))"
proof -
  have t: "total_len = node_len" by (rule ext) (rule total_len_eq_node_len)
  show ?thesis
    using total_len_loop_walk [of node _ _ 0 node_len]
    by (simp add: t node_len_unfold [of node] cong: and_then_cong)
qed

lemma returns_total_len [simp]: "returns (total_len node)"
  by (simp add: total_len_eq_node_len node_len_def returns_node_len_fuel del: node_len_fuel.simps)

lemma total_len_bound: "total_len node = Ok l \<Longrightarrow> 8 \<le> l \<and> l \<le> length node"
  by (auto simp: total_len_eq_node_len node_len_def dest: node_len_fuel_bound
      simp del: node_len_fuel.simps)

lemma child_at_walk:
  assumes "properties_end node = Ok off" "child_count node = Ok n" "k < unat n"
  shows "child_at node k =
     and_then (walk k total_len node off) (\<lambda>o'.
     and_then (ok_or (get_from node o') ()) (\<lambda>c. and_then (total_len c) (\<lambda>_. Ok c)))"
  using child_at_loop_walk [of k "unat n" total_len node 0 off] assms
  by (simp add: child_at_def child_at_with_def)

lemma child_at_loop_OkD:
  "child_at_loop n tlen node w i offset = Ok c \<Longrightarrow>
    \<exists>o'\<ge>offset. o' \<le> length node \<and> c = drop o' node"
proof (induction n arbitrary: i offset)
  case 0
  then show ?case by simp
next
  case (Suc n)
  show ?case
  proof (cases "i = w")
    case True
    with Suc.prems show ?thesis by (auto simp: res_simps slice_simps)
  next
    case False
    with Suc.prems obtain l where "child_at_loop n tlen node w (Suc i) (offset + l) = Ok c"
      by (auto simp: res_simps arith_specs)
    from Suc.IH [OF this] show ?thesis using add_leD1 by blast
  qed
qed

lemma child_at_shorter: "child_at node k = Ok c \<Longrightarrow> length c < length node"
  by (fastforce simp: child_at_def child_at_with_def res_simps
      dest!: child_at_loop_OkD properties_end_OkD(1))

lemma returns_child_at_loop:
  assumes "\<And>c. returns (t c)"
  shows "returns (child_at_loop n t node w i offset)"
  by (induction n arbitrary: i offset) (auto intro!: returns_and_then assms)

lemma returns_child_at [simp]: "returns (child_at node k)"
  by (auto simp: child_at_def child_at_with_def child_count_def returns_child_at_loop
      intro!: returns_and_then)

section \<open>Printing always comes to an end\<close>

lemma returns_dump_then:
  assumes "returns (snd (m log))" "\<And>a log'. m log = (log', Ok a) \<Longrightarrow> returns (snd (k a log'))"
  shows "returns (snd (dump_then m k log))"
  using assms by (auto split: prod.splits res.splits)

lemma dump_then_emit [simp]: "dump_then (emit f) k log = k () (f log)"
  by (simp add: emit_def)

lemma dump_then_try [simp]:
  "dump_then (try_res (Ok a)) k log = k a log"
  "dump_then (try_res (Err e)) k log = (log, Err e)"
  by (simp_all add: try_res_def)

lemma returns_try_res [simp]: "returns r \<Longrightarrow> returns (snd (try_res r log))"
  by (simp add: try_res_def)

lemma returns_emit [simp]: "returns (snd (emit f log))"
  by (simp add: emit_def)

lemma returns_dump_props: "returns (snd (dump_props n node depth offset log))"
  by (induction n arbitrary: offset log) (auto intro!: returns_dump_then simp del: dump_then.simps)

lemma returns_dump_children:
  assumes "\<And>c d log. length c < length node \<Longrightarrow> returns (snd (dn c d log))"
  shows "returns (snd (dump_children n dn node depth index log))"
proof (induction n arbitrary: index log)
  case 0
  then show ?case by simp
next
  case (Suc n)
  then show ?case
    by (cases "child_at node index")
      (use returns_child_at [of node index] in
        \<open>auto simp: assms child_at_shorter simp del: dump_then.simps returns_child_at
          intro!: returns_dump_then\<close>)
qed

lemma returns_dump_node_fuel: "length node < f \<Longrightarrow> returns (snd (dump_node_fuel f node depth log))"
proof (induction f arbitrary: node depth log)
  case 0
  then show ?case by simp
next
  case (Suc f)
  have "returns (snd (dump_children n (dump_node_fuel f) node depth i log'))" for n i log'
    by (rule returns_dump_children) (use Suc in auto)
  then show ?case
    by (auto simp: returns_dump_props property_count_def child_count_def
        simp del: dump_then.simps intro!: returns_dump_then)
qed

lemma dump_then_cong:
  assumes "m log = m' log" "\<And>a log'. m' log = (log', Ok a) \<Longrightarrow> k a log' = k' a log'"
  shows "dump_then m k log = dump_then m' k' log"
  using assms by (auto split: prod.splits res.splits)

lemma dump_children_agree:
  assumes "\<And>c d log. length c < length node \<Longrightarrow> dn c d log = dn' c d log"
  shows "dump_children n dn node depth index log = dump_children n dn' node depth index log"
proof (induction n arbitrary: index log)
  case 0
  then show ?case by simp
next
  case (Suc n)
  show ?case
    unfolding dump_children.simps
  proof (rule dump_then_cong [OF refl])
    fix c log'
    assume "try_res (child_at node index) log = (log', Ok c)"
    then have "length c < length node" by (auto simp: try_res_def intro: child_at_shorter)
    then show "dump_then (dn c (depth + 1)) (\<lambda>_. dump_children n dn node depth (Suc index)) log' =
      dump_then (dn' c (depth + 1)) (\<lambda>_. dump_children n dn' node depth (Suc index)) log'"
      by (intro dump_then_cong assms Suc.IH)
  qed
qed

lemma dump_node_fuel_agree:
  "length node < f \<Longrightarrow> length node < g \<Longrightarrow>
    dump_node_fuel f node depth log = dump_node_fuel g node depth log"
proof (induction "length node" arbitrary: node f g depth log rule: less_induct)
  case less
  from less.prems obtain f' g' where fg: "f = Suc f'" "g = Suc g'" by (cases f; cases g) auto
  have "dump_children n (dump_node_fuel f') node depth i log' =
      dump_children n (dump_node_fuel g') node depth i log'" for n i log'
  proof (rule dump_children_agree)
    show "dump_node_fuel f' c d l = dump_node_fuel g' c d l" if "length c < length node" for c d l
      by (rule less.hyps) (use less.prems that fg in simp_all)
  qed
  then have "dump_children n (dump_node_fuel f') node depth i =
      dump_children n (dump_node_fuel g') node depth i" for n i
    by (rule ext)
  then show ?case by (simp only: fg dump_node_fuel.simps)
qed

lemma dump_children_dump_node:
  "dump_children n (dump_node_fuel (length node)) node depth i =
   dump_children n dump_node node depth i"
proof (rule ext, rule dump_children_agree)
  show "dump_node_fuel (length node) c d l = dump_node c d l" if "length c < length node" for c d l
    unfolding dump_node_def using that by (intro dump_node_fuel_agree) auto
qed

lemma returns_dump_node: "returns (snd (dump_node node depth log))"
  by (simp add: dump_node_def returns_dump_node_fuel del: dump_node_fuel.simps)

text \<open>C21: the kernel survives any device tree it is handed: for every byte string \<open>dump\<close> runs to
  its end, without a panic (no index out of range, no arithmetic overflow) and without running
  forever; an input shorter than a node header is reported as malformed, and an input whose walk
  fails part way ends with the diagnostic line for a truncated tree.\<close>

theorem dump_total:
  "dump bs log =
     (if length bs < 8
      then (write_str (ascii (''xnu-rs: malformed Apple device tree'' @ [CHR 0x0A])) log, Ok ())
      else case dump_node bs 0 (write_str (ascii (''xnu-rs: Apple device tree'' @ [CHR 0x0A])) log) of
        (log', Ok _) \<Rightarrow> (log', Ok ())
      | (log', _) \<Rightarrow> (write_str (ascii (''xnu-rs: Apple device tree dump truncated/malformed''
                                         @ [CHR 0x0A])) log', Ok ()))"
proof (cases "length bs < 8")
  case True
  then show ?thesis by (simp add: dump_def AppleDeviceTree_new_def)
next
  case False
  with returns_dump_node [of bs 0] show ?thesis
    by (auto simp: dump_def AppleDeviceTree_new_def returns_iff split: prod.splits res.splits)
      (metis snd_conv)+
qed

text \<open>C33: the quadratic, mutually recursive length computation of the source (\<open>total_len\<close> asks
  \<open>child_at\<close> for every child, and \<open>child_at\<close> measures every earlier sibling again) gives the same
  result, errors included, as one pass over the children that keeps the running offset; it always
  returns, and a length it reports lies inside the slice.\<close>

theorem total_len_single_pass:
  "total_len node =
     and_then (properties_end node) (\<lambda>offset.
     and_then (child_count node) (\<lambda>n. walk (unat n) total_len node offset)) \<and>
   (case total_len node of
      Ok l \<Rightarrow> 8 \<le> l \<and> l \<le> length node
    | Err _ \<Rightarrow> True | Panic \<Rightarrow> False | Diverge \<Rightarrow> False)"
proof -
  have "total_len = node_len" by (rule ext) (rule total_len_eq_node_len)
  then have "total_len node =
     and_then (properties_end node) (\<lambda>offset.
     and_then (child_count node) (\<lambda>n. walk (unat n) total_len node offset))"
    using node_len_unfold [of node] by simp
  moreover have "case total_len node of
      Ok l \<Rightarrow> 8 \<le> l \<and> l \<le> length node | Err _ \<Rightarrow> True | Panic \<Rightarrow> False | Diverge \<Rightarrow> False"
    using returns_total_len [of node] total_len_bound [of node]
    by (cases "total_len node") (simp_all del: returns_total_len)
  ultimately show ?thesis by blast
qed

end
