(* ===== verification/Phys_Mem.thy ===== *)
theory Phys_Mem
  imports Xnu_Prelude
begin

text \<open>
  Byte-addressed physical memory, shared by the boot loader and the kernel's
  user-image loader: \<open>mem_write\<close> is \<open>core::ptr::copy_nonoverlapping\<close> into it,
  \<open>mem_fill\<close> is \<open>core::ptr::write_bytes\<close>, \<open>mem_slice\<close> is
  \<open>slice::from_raw_parts\<close>. Addresses are 64-bit words; the set \<open>region a n\<close> is
  the \<open>n\<close> addresses from \<open>a\<close> on.
\<close>

type_synonym memory = "u64 \<Rightarrow> u8"

definition mem_write :: "u64 \<Rightarrow> bytes \<Rightarrow> memory \<Rightarrow> memory" where
  "mem_write a bs m = (\<lambda>x. if unat (x - a) < length bs then bs ! unat (x - a) else m x)"

definition mem_fill :: "u64 \<Rightarrow> u8 \<Rightarrow> nat \<Rightarrow> memory \<Rightarrow> memory" where
  "mem_fill a b n m = (\<lambda>x. if unat (x - a) < n then b else m x)"

definition mem_slice :: "memory \<Rightarrow> u64 \<Rightarrow> nat \<Rightarrow> bytes" where
  "mem_slice m a n = map (\<lambda>i. m (a + word_of_nat i)) [0..<n]"

definition region :: "u64 \<Rightarrow> nat \<Rightarrow> u64 set" where
  "region a n = {x. unat (x - a) < n}"

lemma length_mem_slice [simp]: "length (mem_slice m a n) = n"
  by (simp add: mem_slice_def)

lemma nth_mem_slice [simp]: "i < n \<Longrightarrow> mem_slice m a n ! i = m (a + word_of_nat i)"
  by (simp add: mem_slice_def)

lemma unat_of_nat_u64: "i < 2 ^ 64 \<Longrightarrow> unat (word_of_nat i :: u64) = i"
  by (simp add: unat_of_nat)

lemma mem_write_out: "x \<notin> region a (length bs) \<Longrightarrow> mem_write a bs m x = m x"
  by (simp add: mem_write_def region_def)

lemma mem_fill_out: "x \<notin> region a n \<Longrightarrow> mem_fill a b n m x = m x"
  by (simp add: mem_fill_def region_def)

lemma mem_fill_in: "x \<in> region a n \<Longrightarrow> mem_fill a b n m x = b"
  by (simp add: mem_fill_def region_def)

lemma mem_write_at:
  "i < length bs \<Longrightarrow> i < 2 ^ 64 \<Longrightarrow> mem_write a bs m (a + word_of_nat i) = bs ! i"
  by (simp add: mem_write_def unat_of_nat_u64)

lemma region_offset: "i < n \<Longrightarrow> i < 2 ^ 64 \<Longrightarrow> a + word_of_nat i \<in> region a n"
  by (simp add: region_def unat_of_nat_u64)

lemma mem_slice_write:
  "length bs \<le> 2 ^ 64 \<Longrightarrow> mem_slice (mem_write a bs m) a (length bs) = bs"
  by (rule nth_equalityI) (simp_all add: mem_write_at)

text \<open>Without wrap-around a region is an interval.\<close>

lemma region_interval:
  assumes "unat a + n \<le> 2 ^ 64"
  shows "x \<in> region a n \<longleftrightarrow> unat a \<le> unat x \<and> unat x < unat a + n"
proof (cases "a \<le> x")
  case True
  then show ?thesis
    by (auto simp: region_def unat_sub_le word_le_nat_alt)
next
  case False
  then have "unat (x - a) = 2 ^ 64 + unat x - unat a"
    by (simp add: unat_sub_if' word_le_nat_alt)
  with False assms unat_bound [of a] show ?thesis
    by (auto simp: region_def word_le_nat_alt)
qed

lemma region_subset:
  assumes "unat a + n \<le> 2 ^ 64" "unat b \<le> unat a" "unat a + n \<le> unat b + k" "unat b + k \<le> 2 ^ 64"
  shows "region a n \<subseteq> region b k"
  using assms by (auto simp: region_interval)

lemma region_disjoint:
  assumes "unat a + n \<le> unat b" "unat b + k \<le> 2 ^ 64"
  shows "region a n \<inter> region b k = {}"
proof -
  have "unat a + n \<le> 2 ^ 64" using assms by simp
  with assms show ?thesis by (auto simp: region_interval)
qed

lemma region_mono: "n \<le> k \<Longrightarrow> region a n \<subseteq> region a k"
  by (auto simp: region_def)

lemma region_within:
  assumes "off + k \<le> n" "n < 2 ^ 64"
  shows "region (a + word_of_nat off) k \<subseteq> region a n"
proof
  fix x
  assume "x \<in> region (a + word_of_nat off) k"
  then have x: "unat (x - (a + word_of_nat off)) < k" by (simp add: region_def)
  have u: "unat (word_of_nat off :: u64) = off" using assms by (simp add: unat_of_nat)
  have "x - a = word_of_nat off + (x - (a + word_of_nat off))" by simp
  moreover have "unat (word_of_nat off + (x - (a + word_of_nat off))) = off + unat (x - (a + word_of_nat off))"
    using assms x u by (subst unat_add_nowrap) simp_all
  ultimately have "unat (x - a) = off + unat (x - (a + word_of_nat off))" by simp
  with x assms(1) show "x \<in> region a n" by (simp add: region_def)
qed

text \<open>Data copied over zeroed memory.\<close>

lemma slice_after_write:
  assumes "n \<le> 2 ^ 64" "length bs \<le> n"
    and "\<And>x. x \<in> region a n \<Longrightarrow> m x = mem_write a bs (\<lambda>x. 0) x"
  shows "mem_slice m a n = bs @ replicate (n - length bs) 0"
proof (rule nth_equalityI)
  show "length (mem_slice m a n) = length (bs @ replicate (n - length bs) 0)" using assms(2) by simp
next
  fix i
  assume "i < length (mem_slice m a n)"
  then have i: "i < n" by simp
  then have i64: "i < 2 ^ 64" using assms(1) by simp
  have "m (a + word_of_nat i) = mem_write a bs (\<lambda>x. 0) (a + word_of_nat i)"
    by (rule assms(3)) (rule region_offset [OF i i64])
  also have "\<dots> = (bs @ replicate (n - length bs) 0) ! i"
    using i i64 by (simp add: mem_write_def nth_append unat_of_nat_u64)
  finally show "mem_slice m a n ! i = (bs @ replicate (n - length bs) 0) ! i"
    using i by simp
qed

text \<open>A sequence of copies: \<open>addr\<close>, \<open>dat\<close> and \<open>sz\<close> give the place, the data and the reserved size of
  each item. Where the reserved regions are disjoint, each region shows its own item's copy only.\<close>

lemma fold_writes_out:
  "(\<And>y. y \<in> set ys \<Longrightarrow> p \<notin> region (addr y) (length (dat y))) \<Longrightarrow>
   fold (\<lambda>y. mem_write (addr y) (dat y)) ys m p = m p"
  by (induction ys arbitrary: m) (simp_all add: mem_write_out)

lemma fold_writes_unique:
  assumes "sorted_wrt (\<lambda>y z. region (addr y) (sz y) \<inter> region (addr z) (sz z) = {}) ys"
    and "\<forall>y \<in> set ys. length (dat y) \<le> sz y" "y \<in> set ys" "p \<in> region (addr y) (sz y)"
  shows "fold (\<lambda>y. mem_write (addr y) (dat y)) ys m p = mem_write (addr y) (dat y) m p"
  using assms
proof (induction ys arbitrary: m)
  case Nil
  then show ?case by simp
next
  case (Cons b ys)
  have sub: "region (addr c) (length (dat c)) \<subseteq> region (addr c) (sz c)" if "c \<in> set (b # ys)" for c
    using Cons.prems(2) that by (intro region_mono) blast
  show ?case
  proof (cases "y = b")
    case True
    have "p \<notin> region (addr c) (length (dat c))" if "c \<in> set ys" for c
      using that Cons.prems(1,4) True sub [of c] by auto
    with True show ?thesis by (simp add: fold_writes_out)
  next
    case False
    then have y: "y \<in> set ys" using Cons.prems(3) by simp
    have "p \<notin> region (addr b) (length (dat b))"
      using Cons.prems(1,4) y sub [of b] by auto
    then have "mem_write (addr b) (dat b) m p = m p" by (rule mem_write_out)
    with Cons.IH [of "mem_write (addr b) (dat b) m"] Cons.prems y show ?thesis
      by (simp add: mem_write_def)
  qed
qed

end
