(* ===== verification/Boot_Args.thy ===== *)
theory Boot_Args
  imports Xnu_Prelude
begin

text \<open>
  The boot arguments: \<open>loader/src/boot_args.rs\<close> fills the structure,
  \<open>kernel/src/boot_args.rs\<close> declares it a second time and reads it through a
  raw pointer. The two declarations are written down as field lists with C
  types; \<open>repr_c\<close> is the \<open>#[repr(C)]\<close> layout rule. That the layouts agree is what
  allows one record, \<open>boot_args\<close>, to stand for both.
\<close>

section \<open>The structure\<close>

definition BOOT_LINE_LENGTH :: nat where
  "BOOT_LINE_LENGTH = 1024"

definition KBOOT_ARGS_REVISION2 :: u16 where "KBOOT_ARGS_REVISION2 = 2"
definition KBOOT_ARGS_VERSION2 :: u16 where "KBOOT_ARGS_VERSION2 = 2"

record boot_video =
  v_base_addr :: u64
  v_display :: u64
  v_row_bytes :: u64
  v_width :: u64
  v_height :: u64
  v_depth :: u64

record boot_args =
  revision :: u16
  version :: u16
  virt_base :: u64
  phys_base :: u64
  mem_size :: u64
  top_of_kernel_data :: u64
  video :: boot_video
  machine_type :: u32
  device_tree_p :: u64
  device_tree_length :: u32
  command_line :: bytes
  boot_flags :: u64
  mem_size_actual :: u64

definition BootArgs_zeroed :: boot_args where
  "BootArgs_zeroed =
     \<lparr>revision = KBOOT_ARGS_REVISION2, version = KBOOT_ARGS_VERSION2, virt_base = 0,
      phys_base = 0, mem_size = 0, top_of_kernel_data = 0,
      video = \<lparr>v_base_addr = 0, v_display = 0, v_row_bytes = 0, v_width = 0, v_height = 0,
               v_depth = 0\<rparr>,
      machine_type = 0, device_tree_p = 0, device_tree_length = 0,
      command_line = replicate BOOT_LINE_LENGTH 0, boot_flags = 0, mem_size_actual = 0\<rparr>"

section \<open>Layout\<close>

text \<open>A field type: a scalar of a size, a byte array of a length, or a nested structure.\<close>

datatype ctype = Scalar nat | ByteArray nat | Struct "(string \<times> ctype) list"

fun align_of :: "ctype \<Rightarrow> nat" where
  "align_of (Scalar n) = n"
| "align_of (ByteArray n) = 1"
| "align_of (Struct fs) = fold max (map (\<lambda>f. align_of (snd f)) fs) 1"

definition round_to :: "nat \<Rightarrow> nat \<Rightarrow> nat" where
  "round_to n a = a * ((n + (a - 1)) div a)"

fun size_of :: "ctype \<Rightarrow> nat" where
  "size_of (Scalar n) = n"
| "size_of (ByteArray n) = n"
| "size_of (Struct fs) =
     round_to (fold (\<lambda>f off. round_to off (align_of (snd f)) + size_of (snd f)) fs 0)
       (align_of (Struct fs))"

text \<open>Field name, offset and size, in declaration order.\<close>

primrec repr_c_from :: "nat \<Rightarrow> (string \<times> ctype) list \<Rightarrow> (string \<times> nat \<times> nat) list" where
  "repr_c_from off [] = []"
| "repr_c_from off (f # fs) =
     (let o' = round_to off (align_of (snd f)) in
      (fst f, o', size_of (snd f)) # repr_c_from (o' + size_of (snd f)) fs)"

definition repr_c :: "(string \<times> ctype) list \<Rightarrow> (string \<times> nat \<times> nat) list" where
  "repr_c fs = repr_c_from 0 fs"

definition kernel_boot_video_fields :: "(string \<times> ctype) list" where
  "kernel_boot_video_fields =
     [(''v_base_addr'', Scalar 8), (''v_display'', Scalar 8), (''v_row_bytes'', Scalar 8),
      (''v_width'', Scalar 8), (''v_height'', Scalar 8), (''v_depth'', Scalar 8)]"

definition kernel_boot_args_fields :: "(string \<times> ctype) list" where
  "kernel_boot_args_fields =
     [(''revision'', Scalar 2), (''version'', Scalar 2), (''virt_base'', Scalar 8),
      (''phys_base'', Scalar 8), (''mem_size'', Scalar 8), (''top_of_kernel_data'', Scalar 8),
      (''video'', Struct kernel_boot_video_fields), (''machine_type'', Scalar 4),
      (''device_tree_p'', Scalar 8), (''device_tree_length'', Scalar 4),
      (''command_line'', ByteArray BOOT_LINE_LENGTH), (''boot_flags'', Scalar 8),
      (''mem_size_actual'', Scalar 8)]"

definition loader_boot_video_fields :: "(string \<times> ctype) list" where
  "loader_boot_video_fields =
     [(''v_base_addr'', Scalar 8), (''v_display'', Scalar 8), (''v_row_bytes'', Scalar 8),
      (''v_width'', Scalar 8), (''v_height'', Scalar 8), (''v_depth'', Scalar 8)]"

definition loader_boot_args_fields :: "(string \<times> ctype) list" where
  "loader_boot_args_fields =
     [(''revision'', Scalar 2), (''version'', Scalar 2), (''virt_base'', Scalar 8),
      (''phys_base'', Scalar 8), (''mem_size'', Scalar 8), (''top_of_kernel_data'', Scalar 8),
      (''video'', Struct loader_boot_video_fields), (''machine_type'', Scalar 4),
      (''device_tree_p'', Scalar 8), (''device_tree_length'', Scalar 4),
      (''command_line'', ByteArray BOOT_LINE_LENGTH), (''boot_flags'', Scalar 8),
      (''mem_size_actual'', Scalar 8)]"

section \<open>Agreement\<close>

lemma boot_video_fields_agree: "loader_boot_video_fields = kernel_boot_video_fields"
  by (simp only: loader_boot_video_fields_def kernel_boot_video_fields_def)

lemma boot_args_fields_agree: "loader_boot_args_fields = kernel_boot_args_fields"
  by (simp only: loader_boot_args_fields_def kernel_boot_args_fields_def boot_video_fields_agree)

lemma video_layout:
  "align_of (Struct kernel_boot_video_fields) = 8" "size_of (Struct kernel_boot_video_fields) = 48"
  by (simp_all add: kernel_boot_video_fields_def round_to_def)

lemma kernel_boot_args_repr:
  "repr_c kernel_boot_args_fields =
     [(''revision'', 0, 2), (''version'', 2, 2), (''virt_base'', 8, 8), (''phys_base'', 16, 8),
      (''mem_size'', 24, 8), (''top_of_kernel_data'', 32, 8), (''video'', 40, 48),
      (''machine_type'', 88, 4), (''device_tree_p'', 96, 8), (''device_tree_length'', 104, 4),
      (''command_line'', 108, 1024), (''boot_flags'', 1136, 8), (''mem_size_actual'', 1144, 8)]"
  by (simp add: repr_c_def kernel_boot_args_fields_def Let_def round_to_def video_layout
      BOOT_LINE_LENGTH_def del: align_of.simps(3) size_of.simps(3))

lemma kernel_boot_args_align: "align_of (Struct kernel_boot_args_fields) = 8"
  by (subst align_of.simps) (simp add: kernel_boot_args_fields_def video_layout
      del: align_of.simps(3))

lemma kernel_boot_args_size: "size_of (Struct kernel_boot_args_fields) = 1152"
  by (subst size_of.simps, subst kernel_boot_args_align)
    (simp add: kernel_boot_args_fields_def video_layout round_to_def BOOT_LINE_LENGTH_def
      del: align_of.simps(3) size_of.simps(3))

text \<open>Consecutive fields do not overlap and end inside \<open>n\<close> bytes.\<close>

fun laid_out :: "nat \<Rightarrow> nat \<Rightarrow> (string \<times> nat \<times> nat) list \<Rightarrow> bool" where
  "laid_out n lo [] \<longleftrightarrow> lo \<le> n"
| "laid_out n lo ((_, off, sz) # fs) \<longleftrightarrow> lo \<le> off \<and> laid_out n (off + sz) fs"

text \<open>C35: the loader and the kernel agree on the boot arguments byte for byte: the two independent
  declarations have the same field names at the same offsets and of the same sizes, the fields
  are disjoint, and the 1152-byte structure fits the single page the loader allocates for it.\<close>

theorem boot_args_layouts_agree:
  "repr_c loader_boot_args_fields = repr_c kernel_boot_args_fields \<and>
   size_of (Struct loader_boot_args_fields) = size_of (Struct kernel_boot_args_fields) \<and>
   laid_out (size_of (Struct kernel_boot_args_fields)) 0 (repr_c kernel_boot_args_fields) \<and>
   size_of (Struct loader_boot_args_fields) = 1152 \<and> 1152 \<le> (4096 :: nat) \<and>
   map_of (repr_c kernel_boot_args_fields) ''device_tree_p'' = Some (96, 8) \<and>
   map_of (repr_c kernel_boot_args_fields) ''top_of_kernel_data'' = Some (32, 8)"
  by (simp add: boot_args_fields_agree kernel_boot_args_size kernel_boot_args_repr
      del: size_of.simps)

end
