(* ===== verification/Boot_Env.thy ===== *)
theory Boot_Env
  imports Phys_Mem Boot_Args
begin

text \<open>
  What the boot loader sees of UEFI. The firmware is not part of this
  repository: its state is a type variable \<open>'fw\<close>, and the one boot service that
  changes memory ownership, \<open>boot::allocate_pages\<close>, is a function parameter
  of the definitions that call it. A boot-loader operation is a state
  transformer over \<open>bstate\<close> (firmware state, physical memory, the cache
  maintenance instructions issued so far, the boot arguments written through a
  typed pointer) that ends in a \<open>Result\<close> with a UEFI
  status.
\<close>

datatype status = LOAD_ERROR | NOT_FOUND | FIRMWARE_STATUS nat

datatype allocate_type = AnyPages | Address u64

datatype memory_type = LOADER_CODE | LOADER_DATA

definition PAGE_SIZE :: nat where
  "PAGE_SIZE = 4096"

datatype cache_op = DC_CVAU u64 | IC_IVAU u64 | DSB_ISH | ISB

record 'fw bstate =
  fw :: 'fw
  mem :: memory
  cache_ops :: "cache_op list"
  args_store :: "u64 \<rightharpoonup> boot_args"

type_synonym 'fw alloc_fn =
  "allocate_type \<Rightarrow> memory_type \<Rightarrow> nat \<Rightarrow> 'fw \<Rightarrow> (u64, status) res \<times> 'fw"

type_synonym ('a, 'fw) boot = "'fw bstate \<Rightarrow> ('a, status) res \<times> 'fw bstate"

fun boot_then :: "('a, 'fw) boot \<Rightarrow> ('a \<Rightarrow> ('b, 'fw) boot) \<Rightarrow> ('b, 'fw) boot" where
  "boot_then m k s =
     (case m s of
        (Ok a, s') \<Rightarrow> k a s'
      | (Err e, s') \<Rightarrow> (Err e, s')
      | (Panic, s') \<Rightarrow> (Panic, s')
      | (Diverge, s') \<Rightarrow> (Diverge, s'))"

definition boot_res :: "('a, status) res \<Rightarrow> ('a, 'fw) boot" where
  "boot_res r s = (r, s)"

definition boot_mem :: "(memory \<Rightarrow> memory) \<Rightarrow> (unit, 'fw) boot" where
  "boot_mem f s = (Ok (), s\<lparr>mem := f (mem s)\<rparr>)"

definition boot_cache :: "cache_op list \<Rightarrow> (unit, 'fw) boot" where
  "boot_cache ops s = (Ok (), s\<lparr>cache_ops := cache_ops s @ ops\<rparr>)"

definition boot_store :: "u64 \<Rightarrow> boot_args \<Rightarrow> (unit, 'fw) boot" where
  "boot_store ptr a s = (Ok (), s\<lparr>args_store := (args_store s)(ptr \<mapsto> a)\<rparr>)"

definition boot_fw :: "('fw \<Rightarrow> ('a, status) res \<times> 'fw) \<Rightarrow> ('a, 'fw) boot" where
  "boot_fw f s = (let (r, g) = f (fw s) in (r, s\<lparr>fw := g\<rparr>))"

definition allocate_pages ::
  "'fw alloc_fn \<Rightarrow> allocate_type \<Rightarrow> memory_type \<Rightarrow> nat \<Rightarrow> (u64, 'fw) boot" where
  "allocate_pages alloc ty mt pages = boot_fw (alloc ty mt pages)"

lemma boot_then_res [simp]:
  "boot_then (boot_res (Ok a)) k s = k a s"
  "boot_then (boot_res (Err e)) k s = (Err e, s)"
  "boot_then (boot_res Panic) k s = (Panic, s)"
  "boot_then (boot_res Diverge) k s = (Diverge, s)"
  by (simp_all add: boot_res_def)

lemma boot_then_mem [simp]: "boot_then (boot_mem f) k s = k () (s\<lparr>mem := f (mem s)\<rparr>)"
  by (simp add: boot_mem_def)

lemma boot_then_cache [simp]:
  "boot_then (boot_cache ops) k s = k () (s\<lparr>cache_ops := cache_ops s @ ops\<rparr>)"
  by (simp add: boot_cache_def)

lemma boot_then_OkD:
  "boot_then m k s = (Ok b, s') \<Longrightarrow> \<exists>a s1. m s = (Ok a, s1) \<and> k a s1 = (Ok b, s')"
  by (auto split: prod.splits res.splits)

lemma allocate_pages_mem: "allocate_pages alloc ty mt n s = (r, s') \<Longrightarrow> mem s' = mem s"
  by (auto simp: allocate_pages_def boot_fw_def split: prod.splits)

end
