(* ===== verification/Loader_Device_Tree.thy ===== *)
theory Loader_Device_Tree
  imports Boot_Env Xnu_Align
begin

text \<open>
  \<open>loader/src/device_tree.rs\<close>: the flattened device tree parser, the Apple
  device tree writer and the function that ties them together.
  \<open>FdtParser\<close> methods take the parser and return it with its new position;
  after an error the parser is dropped, so an error carries no parser.
  \<open>parse_node\<close> and its loop recurse on fuel; every token consumes four bytes,
  so the length of the blob is enough (\<open>parse_node_returns\<close>).
\<close>

section \<open>Definitions\<close>

definition FDT_MAGIC :: u32 where "FDT_MAGIC = 0xd00dfeed"
definition FDT_BEGIN_NODE :: u32 where "FDT_BEGIN_NODE = 1"
definition FDT_END_NODE :: u32 where "FDT_END_NODE = 2"
definition FDT_PROP :: u32 where "FDT_PROP = 3"
definition FDT_NOP :: u32 where "FDT_NOP = 4"
definition FDT_END :: u32 where "FDT_END = 9"

definition read_be_u32 :: "bytes \<Rightarrow> nat \<Rightarrow> u32 option" where
  "read_be_u32 bs offset =
     (case checked_add_us offset 4 of
        None \<Rightarrow> None
      | Some e \<Rightarrow> (case get_range bs offset e of
                     None \<Rightarrow> None
                   | Some data \<Rightarrow> Some (u32_from_be_bytes data)))"

definition write_le_u32 :: "bytes \<Rightarrow> u32 \<Rightarrow> bytes" where
  "write_le_u32 out v = out @ u32_to_le_bytes v"

text \<open>\<open>u32::try_from\<close> of a length.\<close>

definition u32_try_from :: "nat \<Rightarrow> (u32, status) res" where
  "u32_try_from n = (if n < 2 ^ 32 then Ok (word_of_nat n) else Err LOAD_ERROR)"

subsection \<open>The tree\<close>

record adt_prop =
  prop_name :: bytes
  prop_value :: bytes

datatype adt_node = AdtNode (props: "adt_prop list") (children: "adt_node list")

definition AdtProp_new_owned :: "bytes \<Rightarrow> bytes \<Rightarrow> (adt_prop, status) res" where
  "AdtProp_new_owned name val =
     (if length name \<ge> 32 then Err LOAD_ERROR
      else Ok \<lparr>prop_name = name, prop_value = val\<rparr>)"

definition AdtProp_new :: "bytes \<Rightarrow> bytes \<Rightarrow> (adt_prop, status) res" where
  "AdtProp_new name val = AdtProp_new_owned name val"

subsection \<open>The parser\<close>

record fdt_parser =
  fbytes :: bytes
  strings_offset :: nat
  pos :: nat

definition FdtParser_new :: "bytes \<Rightarrow> (fdt_parser, status) res" where
  "FdtParser_new bs =
     and_then (ok_or (read_be_u32 bs 0) LOAD_ERROR) (\<lambda>magic.
     if magic \<noteq> FDT_MAGIC then Err LOAD_ERROR else
     and_then (ok_or (read_be_u32 bs 4) LOAD_ERROR) (\<lambda>t.
     let totalsize = unat t in
     and_then (ok_or (read_be_u32 bs 8) LOAD_ERROR) (\<lambda>st.
     let struct_offset = unat st in
     and_then (ok_or (read_be_u32 bs 12) LOAD_ERROR) (\<lambda>str.
     let strings_off = unat str in
     if totalsize > length bs \<or> struct_offset \<ge> totalsize \<or> strings_off \<ge> totalsize
     then Err LOAD_ERROR
     else and_then (index_range bs 0 totalsize) (\<lambda>blob.
       Ok \<lparr>fbytes = blob, strings_offset = strings_off, pos = struct_offset\<rparr>)))))"

definition peek_token :: "fdt_parser \<Rightarrow> (u32, status) res" where
  "peek_token p = ok_or (read_be_u32 (fbytes p) (pos p)) LOAD_ERROR"

definition read_token :: "fdt_parser \<Rightarrow> (u32 \<times> fdt_parser, status) res" where
  "read_token p =
     and_then (peek_token p) (\<lambda>v.
     and_then (ok_or (checked_add_us (pos p) 4) LOAD_ERROR) (\<lambda>q.
     Ok (v, p\<lparr>pos := q\<rparr>)))"

definition expect_token :: "u32 \<Rightarrow> fdt_parser \<Rightarrow> (fdt_parser, status) res" where
  "expect_token expected p =
     and_then (read_token p) (\<lambda>(v, p'). if v = expected then Ok p' else Err LOAD_ERROR)"

definition align_pos :: "fdt_parser \<Rightarrow> (fdt_parser, status) res" where
  "align_pos p =
     and_then (ok_or (checked_add_us (pos p) 3) LOAD_ERROR) (\<lambda>q.
     Ok (p\<lparr>pos := unat ((word_of_nat q :: u64) AND NOT 3)\<rparr>))"

text \<open>The scan for a terminating zero of \<open>string_at\<close> and \<open>read_cstr\<close>.\<close>

function scan_nul :: "bytes \<Rightarrow> nat \<Rightarrow> (nat, status) res" where
  "scan_nul bs e =
     (case get_at bs e of
        None \<Rightarrow> Err LOAD_ERROR
      | Some b \<Rightarrow>
          (if b \<noteq> 0
           then (case checked_add_us e 1 of None \<Rightarrow> Err LOAD_ERROR | Some e' \<Rightarrow> scan_nul bs e')
           else Ok e))"
  by pat_completeness auto
termination
  by (relation "measure (\<lambda>(bs, e). length bs - e)") (auto simp: slice_simps arith_specs)

declare scan_nul.simps [simp del]

definition string_at :: "fdt_parser \<Rightarrow> nat \<Rightarrow> (bytes, status) res" where
  "string_at p offset =
     and_then (ok_or (checked_add_us (strings_offset p) offset) LOAD_ERROR) (\<lambda>start.
     and_then (scan_nul (fbytes p) start) (\<lambda>e.
     and_then (index_range (fbytes p) start e) (\<lambda>s.
     ok_or (from_utf8 s) LOAD_ERROR)))"

definition read_cstr :: "fdt_parser \<Rightarrow> (bytes \<times> fdt_parser, status) res" where
  "read_cstr p =
     (let start = pos p in
      and_then (scan_nul (fbytes p) start) (\<lambda>e.
      and_then (ok_or (checked_add_us e 1) LOAD_ERROR) (\<lambda>q.
      and_then (index_range (fbytes p) start e) (\<lambda>s.
      and_then (ok_or (from_utf8 s) LOAD_ERROR) (\<lambda>str.
      Ok (str, p\<lparr>pos := q\<rparr>))))))"

definition parse_prop :: "fdt_parser \<Rightarrow> (adt_prop \<times> fdt_parser, status) res" where
  "parse_prop p0 =
     and_then (expect_token FDT_PROP p0) (\<lambda>p1.
     and_then (read_token p1) (\<lambda>(len, p2).
     and_then (read_token p2) (\<lambda>(nameoff, p3).
     and_then (string_at p3 (unat nameoff)) (\<lambda>name.
     and_then (ok_or (checked_add_us (pos p3) (unat len)) LOAD_ERROR) (\<lambda>e.
     and_then (ok_or (get_range (fbytes p3) (pos p3) e) LOAD_ERROR) (\<lambda>val.
     and_then (align_pos (p3\<lparr>pos := e\<rparr>)) (\<lambda>p4.
     and_then (AdtProp_new_owned name val) (\<lambda>pr.
     Ok (pr, p4)))))))))"

definition finish_node ::
  "bytes \<Rightarrow> adt_prop list \<Rightarrow> adt_node list \<Rightarrow> (adt_node, status) res" where
  "finish_node name ps cs =
     (if \<not> (\<exists>pr \<in> set ps. prop_name pr = ascii ''name'')
      then and_then (AdtProp_new (ascii ''name'') (if name = [] then ascii ''/'' else name)) (\<lambda>np.
           Ok (AdtNode (np # ps) cs))
      else Ok (AdtNode ps cs))"

fun parse_node_fuel :: "nat \<Rightarrow> fdt_parser \<Rightarrow> (adt_node \<times> fdt_parser, status) res"
  and parse_items ::
    "nat \<Rightarrow> fdt_parser \<Rightarrow> adt_prop list \<Rightarrow> adt_node list \<Rightarrow>
     ((adt_prop list \<times> adt_node list) \<times> fdt_parser, status) res" where
  "parse_node_fuel 0 p = Diverge"
| "parse_node_fuel (Suc f) p =
     and_then (expect_token FDT_BEGIN_NODE p) (\<lambda>p1.
     and_then (read_cstr p1) (\<lambda>(name, p2).
     and_then (align_pos p2) (\<lambda>p3.
     and_then (parse_items f p3 [] []) (\<lambda>((ps, cs), p4).
     and_then (finish_node name ps cs) (\<lambda>nd. Ok (nd, p4))))))"
| "parse_items 0 p ps cs = Diverge"
| "parse_items (Suc f) p ps cs =
     and_then (peek_token p) (\<lambda>t.
     if t = FDT_PROP then
       and_then (parse_prop p) (\<lambda>(pr, p'). parse_items f p' (ps @ [pr]) cs)
     else if t = FDT_BEGIN_NODE then
       and_then (parse_node_fuel f p) (\<lambda>(nd, p'). parse_items f p' ps (cs @ [nd]))
     else if t = FDT_END_NODE then
       and_then (read_token p) (\<lambda>(_, p'). Ok ((ps, cs), p'))
     else if t = FDT_NOP then
       and_then (read_token p) (\<lambda>(_, p'). parse_items f p' ps cs)
     else if t = FDT_END then Ok ((ps, cs), p)
     else Err LOAD_ERROR)"

definition parse_node :: "fdt_parser \<Rightarrow> (adt_node \<times> fdt_parser, status) res" where
  "parse_node p = parse_node_fuel (Suc (length (fbytes p))) p"

definition fdt_parse :: "fdt_parser \<Rightarrow> (adt_node, status) res" where
  "fdt_parse p = and_then (parse_node p) (\<lambda>(nd, _). Ok nd)"

subsection \<open>The writer\<close>

lemma pad_step: "0 < n mod 4 \<Longrightarrow> (4 - Suc n mod 4) mod 4 < 4 - n mod 4" for n :: nat
proof -
  assume "0 < n mod 4"
  moreover have "n mod 4 < 4" by simp
  ultimately have "n mod 4 = 1 \<or> n mod 4 = 2 \<or> n mod 4 = 3" by linarith
  then show ?thesis by (elim disjE) (simp_all add: mod_Suc)
qed

function pad4 :: "bytes \<Rightarrow> bytes" where
  "pad4 out = (if length out mod 4 = 0 then out else pad4 (out @ [0]))"
  by pat_completeness auto
termination
  by (relation "measure (\<lambda>out. (4 - length out mod 4) mod 4)") (simp_all add: pad_step)

declare pad4.simps [simp del]

definition write_adt_prop :: "adt_prop \<Rightarrow> bytes \<Rightarrow> (bytes, status) res" where
  "write_adt_prop pr out =
     (let nm = replicate 32 (0 :: u8); src = prop_name pr in
      if length src \<ge> length nm then Err LOAD_ERROR
      else and_then (copy_from_slice nm 0 (length src) src) (\<lambda>nm'.
           let out1 = out @ nm' in
           and_then (u32_try_from (length (prop_value pr))) (\<lambda>len.
           let out2 = write_le_u32 out1 len; out3 = out2 @ prop_value pr in
           Ok (pad4 out3))))"

primrec write_adt_props :: "adt_prop list \<Rightarrow> bytes \<Rightarrow> (bytes, status) res" where
  "write_adt_props [] out = Ok out"
| "write_adt_props (pr # prs) out = and_then (write_adt_prop pr out) (write_adt_props prs)"

fun write_adt_node :: "adt_node \<Rightarrow> bytes \<Rightarrow> (bytes, status) res"
  and write_adt_children :: "adt_node list \<Rightarrow> bytes \<Rightarrow> (bytes, status) res" where
  "write_adt_node (AdtNode ps cs) out =
     and_then (u32_try_from (length ps)) (\<lambda>n.
     let out1 = write_le_u32 out n in
     and_then (u32_try_from (length cs)) (\<lambda>k.
     let out2 = write_le_u32 out1 k in
     and_then (write_adt_props ps out2) (\<lambda>out3.
     write_adt_children cs out3)))"
| "write_adt_children [] out = Ok out"
| "write_adt_children (c # cs) out = and_then (write_adt_node c out) (write_adt_children cs)"

subsection \<open>Finding the blob and building the tree\<close>

text \<open>A GUID in the field order of the \<open>guid!\<close> literal.\<close>

type_synonym guid = "u32 \<times> u16 \<times> u16 \<times> bytes"

definition EFI_DTB_TABLE_GUID :: guid where
  "EFI_DTB_TABLE_GUID =
     (0xb1b621d5, 0xf19c, 0x41a5, [0x83, 0x0b, 0xd9, 0x15, 0x2c, 0x69, 0xaa, 0xe0])"

record config_entry =
  guid :: guid
  address :: u64

definition fdt_of_entry :: "memory \<Rightarrow> config_entry \<Rightarrow> bytes option" where
  "fdt_of_entry m entry =
     (if guid entry \<noteq> EFI_DTB_TABLE_GUID \<or> address entry = 0 then None
      else let ptr = address entry; header = mem_slice m ptr 40 in
        case read_be_u32 header 4 of
          None \<Rightarrow> None
        | Some total_size \<Rightarrow>
            (case read_be_u32 header 0 of
               None \<Rightarrow> None
             | Some magic \<Rightarrow>
                 if magic \<noteq> FDT_MAGIC \<or> total_size < 40 then None
                 else Some (mem_slice m ptr (unat total_size))))"

primrec find_fdt :: "memory \<Rightarrow> config_entry list \<Rightarrow> bytes option" where
  "find_fdt m [] = None"
| "find_fdt m (entry # rest) =
     (case fdt_of_entry m entry of Some fdt \<Rightarrow> Some fdt | None \<Rightarrow> find_fdt m rest)"

definition qemu_virt_memory_reg :: bytes where
  "qemu_virt_memory_reg = u64_to_be_bytes 0x40000000 @ u64_to_be_bytes 0x40000000"

definition fallback_root :: "(adt_node, status) res" where
  "fallback_root =
     and_then (AdtProp_new (ascii ''name'') (ascii ''/'')) (\<lambda>p1.
     and_then (AdtProp_new (ascii ''compatible'') (ascii ''linux,dummy-virt'')) (\<lambda>p2.
     and_then (AdtProp_new (ascii ''model'') (ascii ''xnu-rs qemu virt'')) (\<lambda>p3.
     and_then (AdtProp_new (ascii ''#address-cells'') (u32_to_be_bytes 2)) (\<lambda>p4.
     and_then (AdtProp_new (ascii ''#size-cells'') (u32_to_be_bytes 2)) (\<lambda>p5.
     and_then (AdtProp_new (ascii ''name'') (ascii ''chosen'')) (\<lambda>c1.
     and_then (AdtProp_new (ascii ''bootargs'') (ascii ''rd=*devfs'')) (\<lambda>c2.
     and_then (AdtProp_new (ascii ''name'') (ascii ''memory'')) (\<lambda>m1.
     and_then (AdtProp_new (ascii ''device_type'') (ascii ''memory'')) (\<lambda>m2.
     and_then (AdtProp_new_owned (ascii ''reg'') qemu_virt_memory_reg) (\<lambda>m3.
     Ok (AdtNode [p1, p2, p3, p4, p5]
           [AdtNode [c1, c2] [], AdtNode [m1, m2, m3] []])))))))))))"

definition adt_bytes :: "bytes option \<Rightarrow> (bytes, status) res" where
  "adt_bytes found =
     (case found of
        Some fdt \<Rightarrow>
          and_then (FdtParser_new fdt) (\<lambda>p.
          and_then (fdt_parse p) (\<lambda>root. write_adt_node root []))
      | None \<Rightarrow> and_then fallback_root (\<lambda>root. write_adt_node root []))"

record apple_device_tree =
  adt_ptr :: u64
  adt_len :: u32

definition div_ceil :: "nat \<Rightarrow> nat \<Rightarrow> nat" where
  "div_ceil a b = (if a mod b = 0 then a div b else a div b + 1)"

definition build_apple_device_tree ::
  "'fw alloc_fn \<Rightarrow> config_entry list \<Rightarrow> (apple_device_tree, 'fw) boot" where
  "build_apple_device_tree alloc tables s =
     boot_then (boot_res (adt_bytes (find_fdt (mem s) tables))) (\<lambda>bs.
     boot_then (boot_res (u32_try_from (length bs))) (\<lambda>len.
     boot_then (allocate_pages alloc AnyPages LOADER_DATA (div_ceil (length bs) PAGE_SIZE)) (\<lambda>ptr.
     boot_then (boot_mem (mem_write ptr bs)) (\<lambda>_.
     boot_res (Ok \<lparr>adt_ptr = ptr, adt_len = len\<rparr>))))) s"

section \<open>The parser advances and never panics\<close>

lemma read_be_u32_eq:
  "read_be_u32 bs offset =
     (if offset + 4 \<le> length bs \<and> offset + 4 < 2 ^ 64
      then Some (u32_from_be_bytes (take 4 (drop offset bs))) else None)"
  by (simp add: read_be_u32_def checked_add_us_def get_range_def)

lemma align_pos_eq:
  "align_pos p =
     (if pos p + (4 - 1) < 2 ^ 64 then Ok (p\<lparr>pos := 4 * ((pos p + (4 - 1)) div 4)\<rparr>) else Err LOAD_ERROR)"
proof (cases "pos p + 3 < 2 ^ 64")
  case True
  have m: "(3 :: u64) = mask 2" by (simp add: mask_numeral)
  have u: "unat (word_of_nat (pos p + 3) :: u64) = pos p + 3"
    using True by (simp add: unat_of_nat del: of_nat_add)
  have "unat ((word_of_nat (pos p + 3) :: u64) AND NOT 3) = 4 * ((pos p + 3) div 4)"
    unfolding m unat_and_not_mask u by (simp add: sub_mod_eq_mult_div)
  with True show ?thesis by (simp add: align_pos_def checked_add_us_def del: of_nat_add)
next
  case False
  then show ?thesis by (simp add: align_pos_def checked_add_us_def)
qed

lemma scan_nul_OkD:
  "scan_nul bs e = Ok n \<Longrightarrow> e \<le> n \<and> n < length bs \<and> bs ! n = 0 \<and> (\<forall>i. e \<le> i \<and> i < n \<longrightarrow> bs ! i \<noteq> 0)"
proof (induction bs e rule: scan_nul.induct)
  case (1 bs e)
  show ?case
  proof (cases "e < length bs \<and> bs ! e \<noteq> 0")
    case True
    with "1.prems" have s: "scan_nul bs (e + 1) = Ok n" and b: "e + 1 < 2 ^ 64"
      by (subst (asm) scan_nul.simps; auto simp: get_at_def checked_add_us_def split: if_splits)+
    from True b have "get_at bs e = Some (bs ! e)" "checked_add_us e 1 = Some (e + 1)"
      by (simp_all add: get_at_def checked_add_us_def)
    from "1.IH" [OF this(1) _ this(2) s] True
    have IH: "e + 1 \<le> n" "n < length bs" "bs ! n = 0" "\<forall>i. e + 1 \<le> i \<and> i < n \<longrightarrow> bs ! i \<noteq> 0"
      by auto
    have "bs ! i \<noteq> 0" if "e \<le> i" "i < n" for i
      using that IH(4) True by (cases "i = e") auto
    with IH show ?thesis by auto
  next
    case False
    with "1.prems" have "e < length bs \<and> bs ! e = 0 \<and> n = e"
      by (subst (asm) scan_nul.simps) (auto simp: get_at_def split: if_splits option.splits)
    then show ?thesis by auto
  qed
qed

lemma returns_scan_nul [simp]: "returns (scan_nul bs e)"
proof (induction bs e rule: scan_nul.induct)
  case (1 bs e)
  then show ?case by (subst scan_nul.simps) (auto split: option.splits)
qed

lemma read_token_OkD:
  "read_token p = Ok (v, p') \<Longrightarrow> p' = p\<lparr>pos := pos p + 4\<rparr> \<and> pos p + 4 \<le> length (fbytes p)"
  by (auto simp: read_token_def peek_token_def read_be_u32_eq res_simps arith_specs split: if_splits)

lemma peek_token_OkD: "peek_token p = Ok t \<Longrightarrow> pos p + 4 \<le> length (fbytes p)"
  by (auto simp: peek_token_def read_be_u32_eq res_simps split: if_splits)

lemma expect_token_OkD:
  "expect_token t p = Ok p' \<Longrightarrow> p' = p\<lparr>pos := pos p + 4\<rparr> \<and> pos p + 4 \<le> length (fbytes p)"
  by (auto simp: expect_token_def res_simps split: if_splits dest: read_token_OkD)

text \<open>A parser that differs only in its position.\<close>

definition moved :: "fdt_parser \<Rightarrow> fdt_parser \<Rightarrow> bool" where
  "moved p q \<longleftrightarrow> fbytes q = fbytes p \<and> strings_offset q = strings_offset p"

lemma align_pos_OkD:
  assumes "align_pos p = Ok p'"
  shows "moved p p'" "pos p \<le> pos p'" "pos p' \<le> pos p + 3"
  using assms round_up_bounds [of 4 "pos p"] by (auto simp: align_pos_eq moved_def split: if_splits)

lemma scanned_name:
  assumes "scan_nul bs start = Ok e" "index_range bs start e = Ok s" "from_utf8 s = Some str"
  shows "utf8_valid str" "0 \<notin> set str" "length str < length bs"
  using assms scan_nul_OkD [OF assms(1)]
  by (auto simp: index_range_def res_simps slice_simps in_set_conv_nth)

lemma read_cstr_OkD:
  assumes "read_cstr p = Ok (str, p')"
  shows "moved p p'" "pos p < pos p'" "pos p' \<le> length (fbytes p)"
    "utf8_valid str" "0 \<notin> set str" "length str < length (fbytes p)"
  using assms
  by (auto simp: read_cstr_def Let_def moved_def res_simps arith_specs
      dest: scan_nul_OkD scanned_name)

lemma string_at_OkD:
  assumes "string_at p off = Ok str"
  shows "utf8_valid str" "0 \<notin> set str"
  using assms by (auto simp: string_at_def res_simps dest: scanned_name)

text \<open>What the writer and the kernel need of a tree.\<close>

definition wf_prop :: "adt_prop \<Rightarrow> bool" where
  "wf_prop pr \<longleftrightarrow> length (prop_name pr) < 32 \<and> utf8_valid (prop_name pr) \<and>
     0 \<notin> set (prop_name pr) \<and> length (prop_value pr) < 2 ^ 32"

fun wf_adt :: "adt_node \<Rightarrow> bool" where
  "wf_adt (AdtNode ps cs) \<longleftrightarrow>
     length ps < 2 ^ 32 \<and> length cs < 2 ^ 32 \<and> (\<forall>pr \<in> set ps. wf_prop pr) \<and> (\<forall>c \<in> set cs. wf_adt c)"

lemma parse_prop_OkD:
  assumes "parse_prop p = Ok (pr, p')" "length (fbytes p) < 2 ^ 32"
  shows "moved p p'" "pos p + 12 \<le> pos p'" "wf_prop pr"
proof -
  from assms(1) obtain p1 p2 p3 len nameoff e where
      "expect_token FDT_PROP p = Ok p1" "read_token p1 = Ok (len, p2)"
      "read_token p2 = Ok (nameoff, p3)" and nm: "string_at p3 (unat nameoff) = Ok (prop_name pr)"
      and e: "e = pos p3 + unat len" and v: "get_range (fbytes p3) (pos p3) e = Some (prop_value pr)"
      and a: "align_pos (p3\<lparr>pos := e\<rparr>) = Ok p'" and l: "length (prop_name pr) < 32"
    by (auto simp: parse_prop_def AdtProp_new_owned_def res_simps arith_specs split: if_splits)
  then have p3: "p3 = p\<lparr>pos := pos p + 12\<rparr>"
    by (auto dest!: expect_token_OkD read_token_OkD)
  with align_pos_OkD [OF a] e show "moved p p'" "pos p + 12 \<le> pos p'"
    by (auto simp: moved_def)
  from v p3 assms(2) have "length (prop_value pr) < 2 ^ 32" by (auto simp: slice_simps)
  with nm l show "wf_prop pr" by (auto simp: wf_prop_def dest: string_at_OkD)
qed

lemma returns_token [simp]: "returns (peek_token p)" "returns (read_token p)" "returns (expect_token t p)"
  by (auto simp: peek_token_def read_token_def expect_token_def intro!: returns_and_then)

lemma returns_align_pos [simp]: "returns (align_pos p)"
  by (auto simp: align_pos_def intro!: returns_and_then)

lemma returns_scanned:
  "scan_nul bs start = Ok e \<Longrightarrow> returns (index_range bs start e)"
  by (auto simp: index_range_def get_range_def dest: scan_nul_OkD)

lemma returns_names [simp]: "returns (string_at p off)" "returns (read_cstr p)"
  by (auto simp: string_at_def read_cstr_def Let_def returns_scanned intro!: returns_and_then)

lemma returns_parse_prop [simp]: "returns (parse_prop p)"
  by (auto simp: parse_prop_def AdtProp_new_owned_def intro!: returns_and_then split: prod.splits)

lemma returns_finish_node [simp]: "returns (finish_node name ps cs)"
  by (auto simp: finish_node_def AdtProp_new_def AdtProp_new_owned_def intro!: returns_and_then)

lemma finish_node_OkD:
  assumes "finish_node name ps cs = Ok nd" "\<forall>pr \<in> set ps. wf_prop pr" "\<forall>c \<in> set cs. wf_adt c"
    "length name < 2 ^ 32" "Suc (length ps) < 2 ^ 32" "length cs < 2 ^ 32"
  shows "wf_adt nd"
  using assms
  by (auto simp: finish_node_def AdtProp_new_def AdtProp_new_owned_def wf_prop_def ascii_def
      split: if_splits)

lemma parse_sound:
  "parse_node_fuel f p = Ok (nd, p') \<Longrightarrow> length (fbytes p) < 2 ^ 32 \<Longrightarrow>
     moved p p' \<and> pos p + 4 \<le> pos p' \<and> pos p' \<le> length (fbytes p) \<and> wf_adt nd"
  "parse_items f p ps cs = Ok ((ps', cs'), p') \<Longrightarrow> length (fbytes p) < 2 ^ 32 \<Longrightarrow>
     (\<forall>pr \<in> set ps. wf_prop pr) \<Longrightarrow> (\<forall>c \<in> set cs. wf_adt c) \<Longrightarrow>
     moved p p' \<and> pos p' \<le> length (fbytes p) \<and>
     pos p + 4 * (length ps' + length cs') \<le> pos p' + 4 * (length ps + length cs) \<and>
     (\<forall>pr \<in> set ps'. wf_prop pr) \<and> (\<forall>c \<in> set cs'. wf_adt c)"
proof (induction f p and f p ps cs arbitrary: nd p' and ps' cs' p'
    rule: parse_node_fuel_parse_items.induct)
  case (1 p)
  then show ?case by simp
next
  case (2 f p)
  from "2.prems"(1) obtain p1 name p2 p3 ps cs where
      p1: "expect_token FDT_BEGIN_NODE p = Ok p1" and p2: "read_cstr p1 = Ok (name, p2)"
      and p3: "align_pos p2 = Ok p3" and it: "parse_items f p3 [] [] = Ok ((ps, cs), p')"
      and fin: "finish_node name ps cs = Ok nd"
    by (auto simp: res_simps)
  have p1': "p1 = p\<lparr>pos := pos p + 4\<rparr>" using expect_token_OkD [OF p1] by simp
  have p2': "moved p p2" "pos p + 4 < pos p2" "length name < length (fbytes p)"
    using read_cstr_OkD [OF p2] p1' by (auto simp: moved_def)
  have p3': "moved p p3" "pos p + 4 < pos p3"
    using align_pos_OkD [OF p3] p2' by (auto simp: moved_def)
  have fb: "fbytes p3 = fbytes p" using p3' by (simp add: moved_def)
  from "2.IH" [OF p1 p2 refl p3] it fb "2.prems"(2)
  have IH: "moved p3 p'" "pos p' \<le> length (fbytes p)"
      "pos p3 + 4 * (length ps + length cs) \<le> pos p'"
      "\<forall>pr \<in> set ps. wf_prop pr" "\<forall>c \<in> set cs. wf_adt c"
    by simp_all
  have "wf_adt nd"
    by (rule finish_node_OkD [OF fin IH(4,5)]) (use IH p2' "2.prems"(2) in auto)
  then show ?case using IH p3' by (auto simp: moved_def)
next
  case (3 p ps cs)
  then show ?case by simp
next
  case (4 f p ps cs)
  from "4.prems"(1) obtain t where t: "peek_token p = Ok t" by (auto simp: res_simps)
  note plen = peek_token_OkD [OF t]
  have eq: "parse_items (Suc f) p ps cs =
     (if t = FDT_PROP then
       and_then (parse_prop p) (\<lambda>(pr, p'). parse_items f p' (ps @ [pr]) cs)
     else if t = FDT_BEGIN_NODE then
       and_then (parse_node_fuel f p) (\<lambda>(nd, p'). parse_items f p' ps (cs @ [nd]))
     else if t = FDT_END_NODE then
       and_then (read_token p) (\<lambda>(_, p'). Ok ((ps, cs), p'))
     else if t = FDT_NOP then
       and_then (read_token p) (\<lambda>(_, p'). parse_items f p' ps cs)
     else if t = FDT_END then Ok ((ps, cs), p)
     else Err LOAD_ERROR)"
    by (simp add: t)
  consider (is_prop) "t = FDT_PROP" | (node) "t \<noteq> FDT_PROP" "t = FDT_BEGIN_NODE"
    | (end_node) "t \<noteq> FDT_PROP" "t \<noteq> FDT_BEGIN_NODE" "t = FDT_END_NODE"
    | (nop) "t \<noteq> FDT_PROP" "t \<noteq> FDT_BEGIN_NODE" "t \<noteq> FDT_END_NODE" "t = FDT_NOP"
    | (stop) "t \<noteq> FDT_PROP" "t \<noteq> FDT_BEGIN_NODE" "t \<noteq> FDT_END_NODE" "t \<noteq> FDT_NOP"
    by blast
  then show ?case
  proof cases
    case is_prop
    with "4.prems"(1) obtain pr q where q: "parse_prop p = Ok (pr, q)"
        and it: "parse_items f q (ps @ [pr]) cs = Ok ((ps', cs'), p')"
      unfolding eq by (auto simp: res_simps)
    note q' = parse_prop_OkD [OF q "4.prems"(2)]
    have fb: "fbytes q = fbytes p" using q' by (simp add: moved_def)
    from "4.IH"(1) [OF t is_prop q refl it] fb "4.prems"(2-4) q'
    show ?thesis by (auto simp: moved_def)
  next
    case node
    with "4.prems"(1) obtain nd q where q: "parse_node_fuel f p = Ok (nd, q)"
        and it: "parse_items f q ps (cs @ [nd]) = Ok ((ps', cs'), p')"
      unfolding eq by (auto simp: res_simps)
    note q' = "4.IH"(2) [OF t node q "4.prems"(2)]
    have fb: "fbytes q = fbytes p" using q' by (simp add: moved_def)
    from "4.IH"(3) [OF t node q refl it] fb "4.prems"(2-4) q'
    show ?thesis by (auto simp: moved_def)
  next
    case end_node
    with "4.prems"(1) have "p' = p\<lparr>pos := pos p + 4\<rparr>" "ps' = ps" "cs' = cs"
      unfolding eq by (auto simp: res_simps FDT_PROP_def FDT_BEGIN_NODE_def FDT_END_NODE_def
          dest!: read_token_OkD)
    with plen "4.prems"(2-4) show ?thesis by (simp add: moved_def)
  next
    case nop
    with "4.prems"(1) obtain v q where q: "read_token p = Ok (v, q)"
        and it: "parse_items f q ps cs = Ok ((ps', cs'), p')"
      unfolding eq by (auto simp: res_simps)
    note q' = read_token_OkD [OF q]
    from "4.IH"(4) [OF t nop q refl it] "4.prems"(2-4) q' show ?thesis by (auto simp: moved_def)
  next
    case stop
    with "4.prems" plen show ?thesis unfolding eq by (auto simp: moved_def split: if_splits)
  qed
qed

lemma parse_returns:
  "length (fbytes p) < 2 ^ 32 \<Longrightarrow> length (fbytes p) - pos p < f \<Longrightarrow> returns (parse_node_fuel f p)"
  "length (fbytes p) < 2 ^ 32 \<Longrightarrow> length (fbytes p) - pos p + 1 < f \<Longrightarrow> returns (parse_items f p ps cs)"
proof (induction f p and f p ps cs rule: parse_node_fuel_parse_items.induct)
  case (1 p)
  then show ?case by simp
next
  case (2 f p)
  have "returns (parse_items f p3 [] [])" if p1: "expect_token FDT_BEGIN_NODE p = Ok p1"
      and p2: "read_cstr p1 = Ok (name, p2)" and p3: "align_pos p2 = Ok p3" for p1 name p2 p3
  proof (rule "2.IH" [OF p1 p2 refl p3])
    show "length (fbytes p3) < 2 ^ 32" "length (fbytes p3) - pos p3 + 1 < f"
      using expect_token_OkD [OF p1] read_cstr_OkD(1-3) [OF p2] align_pos_OkD [OF p3] "2.prems"
      by (auto simp: moved_def)
  qed
  then show ?case by (auto intro!: returns_and_then split: prod.splits)
next
  case (3 p ps cs)
  then show ?case by simp
next
  case (4 f p ps cs)
  show ?case
  proof (cases "peek_token p")
    case (Ok t)
    have plen: "pos p + 4 \<le> length (fbytes p)" using Ok by (rule peek_token_OkD)
    have 1: "returns (parse_items f q (ps @ [pr]) cs)"
      if "t = FDT_PROP" and q: "parse_prop p = Ok (pr, q)" for pr q
      using parse_prop_OkD [OF q "4.prems"(1)] plen "4.prems"
      by (intro "4.IH"(1) [OF Ok that(1) q refl]) (auto simp: moved_def)
    have 2: "returns (parse_node_fuel f p)" if "t \<noteq> FDT_PROP" "t = FDT_BEGIN_NODE"
      using "4.prems" by (intro "4.IH"(2) [OF Ok that]) auto
    have 3: "returns (parse_items f q ps (cs @ [nd]))"
      if "t \<noteq> FDT_PROP" "t = FDT_BEGIN_NODE" and q: "parse_node_fuel f p = Ok (nd, q)" for nd q
      using parse_sound(1) [OF q "4.prems"(1)] plen "4.prems"
      by (intro "4.IH"(3) [OF Ok that(1,2) q refl]) (auto simp: moved_def)
    have 4: "returns (parse_items f q ps cs)"
      if "t \<noteq> FDT_PROP" "t \<noteq> FDT_BEGIN_NODE" "t \<noteq> FDT_END_NODE" "t = FDT_NOP"
        and q: "read_token p = Ok (v, q)" for v q
      using read_token_OkD [OF q] plen "4.prems"
      by (intro "4.IH"(4) [OF Ok that(1-4) q refl]) auto
    show ?thesis
      using 1 2 3 4 by (auto simp: Ok intro!: returns_and_then split: prod.splits)
  next
    case (Err e)
    then show ?thesis by simp
  qed (use returns_token(1) [of p] in \<open>simp_all del: returns_token\<close>)
qed

lemma returns_parse_node: "length (fbytes p) < 2 ^ 32 \<Longrightarrow> returns (parse_node p)"
  unfolding parse_node_def by (rule parse_returns) auto

lemma FdtParser_new_OkD:
  assumes "FdtParser_new bs = Ok p"
  shows "length (fbytes p) < 2 ^ 32" "pos p < length (fbytes p)"
proof -
  have "unat t < 2 ^ 32" for t :: u32 using unat_bound [of t] by simp
  with assms show "length (fbytes p) < 2 ^ 32" "pos p < length (fbytes p)"
    by (auto simp: FdtParser_new_def Let_def res_simps index_range_def slice_simps split: if_splits)
qed

lemma returns_FdtParser_new [simp]: "returns (FdtParser_new bs)"
  by (auto simp: FdtParser_new_def Let_def index_range_def get_range_def intro!: returns_and_then)

lemma fdt_parse_wf: "FdtParser_new fdt = Ok p \<Longrightarrow> fdt_parse p = Ok root \<Longrightarrow> wf_adt root"
  using parse_sound(1) [OF _ FdtParser_new_OkD(1)]
  by (auto simp: fdt_parse_def parse_node_def res_simps simp del: parse_node_fuel.simps)

lemma returns_fdt: "returns (and_then (FdtParser_new fdt) fdt_parse)"
  by (auto simp: fdt_parse_def dest: FdtParser_new_OkD(1) intro!: returns_and_then returns_parse_node
      split: prod.splits)

subsection \<open>Every parser error is a load error\<close>

lemma errs_scan_nul [simp]: "errs_only LOAD_ERROR (scan_nul bs e)"
proof (induction bs e rule: scan_nul.induct)
  case (1 bs e)
  then show ?case by (subst scan_nul.simps) (auto split: option.splits)
qed

lemma errs_token [simp]:
  "errs_only LOAD_ERROR (peek_token p)" "errs_only LOAD_ERROR (read_token p)"
  "errs_only LOAD_ERROR (expect_token t p)" "errs_only LOAD_ERROR (align_pos p)"
  by (auto simp: peek_token_def read_token_def expect_token_def align_pos_def
      intro!: errs_only_and_then)

lemma errs_names [simp]:
  "errs_only LOAD_ERROR (string_at p off)" "errs_only LOAD_ERROR (read_cstr p)"
  by (auto simp: string_at_def read_cstr_def Let_def index_range_def intro!: errs_only_and_then)

lemma errs_parse_prop [simp]: "errs_only LOAD_ERROR (parse_prop p)"
  by (auto simp: parse_prop_def AdtProp_new_owned_def intro!: errs_only_and_then split: prod.splits)

lemma errs_finish_node [simp]: "errs_only LOAD_ERROR (finish_node name ps cs)"
  by (auto simp: finish_node_def AdtProp_new_def AdtProp_new_owned_def intro!: errs_only_and_then)

lemma errs_FdtParser_new [simp]: "errs_only LOAD_ERROR (FdtParser_new bs)"
  by (auto simp: FdtParser_new_def Let_def index_range_def intro!: errs_only_and_then)

lemma errs_parse [simp]:
  "errs_only LOAD_ERROR (parse_node_fuel f p)" "errs_only LOAD_ERROR (parse_items f p ps cs)"
proof (induction f p and f p ps cs rule: parse_node_fuel_parse_items.induct)
  case (2 f p)
  then show ?case by (auto intro!: errs_only_and_then split: prod.splits)
next
  case (4 f p ps cs)
  then show ?case by (auto intro!: errs_only_and_then split: prod.splits)
qed simp_all

section \<open>The writer produces the reference encoding\<close>

definition pad_len :: "nat \<Rightarrow> nat" where
  "pad_len n = (4 - n mod 4) mod 4"

definition enc_prop :: "adt_prop \<Rightarrow> bytes" where
  "enc_prop pr = prop_name pr @ replicate (32 - length (prop_name pr)) 0 @
     u32_to_le_bytes (word_of_nat (length (prop_value pr))) @ prop_value pr @
     replicate (pad_len (length (prop_value pr))) 0"

fun enc_node :: "adt_node \<Rightarrow> bytes" where
  "enc_node (AdtNode ps cs) =
     u32_to_le_bytes (word_of_nat (length ps)) @ u32_to_le_bytes (word_of_nat (length cs)) @
     concat (map enc_prop ps) @ concat (map enc_node cs)"

lemma mod4_cases: "n mod 4 = 0 \<or> n mod 4 = 1 \<or> n mod 4 = 2 \<or> n mod 4 = 3" for n :: nat
proof -
  have "n mod 4 < 4" by simp
  then show ?thesis by linarith
qed

lemma pad_len_Suc: "n mod 4 \<noteq> 0 \<Longrightarrow> pad_len n = Suc (pad_len (Suc n))"
  using mod4_cases [of n] by (elim disjE) (simp_all add: pad_len_def mod_Suc)

lemma pad_len_dvd: "4 dvd n + pad_len n"
proof -
  have "n mod 4 = 0 \<or> n mod 4 = 1 \<or> n mod 4 = 2 \<or> n mod 4 = 3" by (rule mod4_cases)
  then show ?thesis unfolding pad_len_def by (elim disjE) (simp_all, presburger+)
qed

lemma pad_len_add: "4 dvd m \<Longrightarrow> pad_len (m + n) = pad_len n"
  by (auto simp: pad_len_def elim!: dvdE)

lemma pad4_eq: "pad4 out = out @ replicate (pad_len (length out)) 0"
proof (induction out rule: pad4.induct)
  case (1 out)
  show ?case
  proof (cases "length out mod 4 = 0")
    case True
    then show ?thesis by (subst pad4.simps) (simp add: pad_len_def)
  next
    case False
    have "pad4 out = pad4 (out @ [0])" by (subst pad4.simps) (simp add: False)
    also have "\<dots> = out @ replicate (Suc (pad_len (Suc (length out)))) 0"
      using "1.IH" [OF False] by simp
    finally show ?thesis using pad_len_Suc [OF False] by simp
  qed
qed

lemma length_enc_prop:
  "length (prop_name pr) < 32 \<Longrightarrow>
    length (enc_prop pr) = 36 + length (prop_value pr) + pad_len (length (prop_value pr))"
  by (simp add: enc_prop_def)

lemma dvd_length_enc_prop: "length (prop_name pr) < 32 \<Longrightarrow> 4 dvd length (enc_prop pr)"
  using pad_len_dvd [of "length (prop_value pr)"] by (simp add: length_enc_prop add.assoc)

lemma write_adt_prop_enc:
  assumes "wf_prop pr" "4 dvd length out"
  shows "write_adt_prop pr out = Ok (out @ enc_prop pr)"
proof -
  have d: "4 dvd length out + 36" using assms(2) by simp
  show ?thesis
    using assms pad_len_add [OF d]
    by (simp add: write_adt_prop_def wf_prop_def Let_def copy_from_slice_def u32_try_from_def
        write_le_u32_def pad4_eq enc_prop_def add.assoc add.commute)
qed

lemma write_adt_props_enc:
  "(\<forall>pr \<in> set ps. wf_prop pr) \<Longrightarrow> 4 dvd length out \<Longrightarrow>
    write_adt_props ps out = Ok (out @ concat (map enc_prop ps)) \<and> 4 dvd length (concat (map enc_prop ps))"
proof (induction ps arbitrary: out)
  case Nil
  then show ?case by simp
next
  case (Cons pr ps)
  then have "wf_prop pr" by simp
  then have "4 dvd length (enc_prop pr)" by (simp add: wf_prop_def dvd_length_enc_prop)
  with Cons \<open>wf_prop pr\<close> show ?case by (simp add: write_adt_prop_enc)
qed

lemma write_adt_node_enc:
  "wf_adt nd \<Longrightarrow> 4 dvd length out \<Longrightarrow>
    write_adt_node nd out = Ok (out @ enc_node nd) \<and> 4 dvd length (enc_node nd)"
  "(\<forall>c \<in> set cs. wf_adt c) \<Longrightarrow> 4 dvd length out \<Longrightarrow>
    write_adt_children cs out = Ok (out @ concat (map enc_node cs)) \<and>
    4 dvd length (concat (map enc_node cs))"
proof (induction nd out and cs out rule: write_adt_node_write_adt_children.induct)
  case (1 ps cs out)
  define out2 where "out2 = write_le_u32 (write_le_u32 out (word_of_nat (length ps)))
    (word_of_nat (length cs))"
  have d2: "4 dvd length out2" using "1.prems"(2) by (simp add: out2_def write_le_u32_def)
  from "1.prems"(1) write_adt_props_enc [OF _ d2, of ps]
  have ps: "write_adt_props ps out2 = Ok (out2 @ concat (map enc_prop ps))"
      "4 dvd length (concat (map enc_prop ps))"
    by auto
  have "u32_try_from (length ps) = Ok (word_of_nat (length ps))"
    "u32_try_from (length cs) = Ok (word_of_nat (length cs))"
    using "1.prems"(1) by (simp_all add: u32_try_from_def)
  moreover from "1.IH" [OF calculation(1) refl calculation(2) refl ps(1) [unfolded out2_def]]
    "1.prems"(1) d2 ps(2)
  have "write_adt_children cs (out2 @ concat (map enc_prop ps)) =
      Ok ((out2 @ concat (map enc_prop ps)) @ concat (map enc_node cs))"
    "4 dvd length (concat (map enc_node cs))"
    by (simp_all add: out2_def)
  ultimately show ?case
    using ps by (simp add: Let_def out2_def write_le_u32_def)
next
  case (2 out)
  then show ?case by simp
next
  case (3 c cs out)
  from "3.IH"(1) "3.prems" have c: "write_adt_node c out = Ok (out @ enc_node c)"
      "4 dvd length (enc_node c)" by auto
  with "3.IH"(2) [OF c(1)] "3.prems" show ?case by simp
qed

lemma fallback_root_wf: "\<exists>root. fallback_root = Ok root \<and> wf_adt root"
  by (simp add: fallback_root_def AdtProp_new_def AdtProp_new_owned_def wf_prop_def ascii_def
      qemu_virt_memory_reg_def)

lemma length_enc_node: "8 \<le> length (enc_node nd)"
  by (cases nd) simp

lemma adt_bytes_outcome:
  "case adt_bytes found of
     Ok bs \<Rightarrow> (\<exists>root. wf_adt root \<and> bs = enc_node root) \<and> 8 \<le> length bs \<and> 4 dvd length bs
   | Err e \<Rightarrow> e = LOAD_ERROR \<and> found \<noteq> None
   | Panic \<Rightarrow> False
   | Diverge \<Rightarrow> False"
proof -
  have enc: "case write_adt_node root [] of
      Ok bs \<Rightarrow> (\<exists>root. wf_adt root \<and> bs = enc_node root) \<and> 8 \<le> length bs \<and> 4 dvd length bs
    | Err e \<Rightarrow> False | Panic \<Rightarrow> False | Diverge \<Rightarrow> False" if "wf_adt root" for root
    using that write_adt_node_enc(1) [of root "[]"] length_enc_node [of root] by auto
  show ?thesis
  proof (cases found)
    case None
    from fallback_root_wf obtain root where r: "fallback_root = Ok root" "wf_adt root" by blast
    have "adt_bytes found = write_adt_node root []"
      by (simp add: None adt_bytes_def r)
    with r show ?thesis using enc [of root] by (auto split: res.splits)
  next
    case (Some fdt)
    show ?thesis
    proof (cases "and_then (FdtParser_new fdt) fdt_parse")
      case (Ok root)
      then have "wf_adt root"
        by (auto simp: res_simps intro: fdt_parse_wf)
      moreover from Ok Some have "adt_bytes found = write_adt_node root []"
        by (auto simp: adt_bytes_def res_simps)
      ultimately show ?thesis using enc [of root] by (auto split: res.splits)
    next
      case (Err e)
      have "errs_only LOAD_ERROR (and_then (FdtParser_new fdt) fdt_parse)"
        by (auto simp: fdt_parse_def parse_node_def simp del: parse_node_fuel.simps
            intro!: errs_only_and_then split: prod.splits)
      with Err Some show ?thesis
        by (simp add: adt_bytes_def flip: and_then_assoc)
    qed (use returns_fdt [of fdt] in \<open>simp_all add: returns_def\<close>)
  qed
qed

text \<open>C22: the boot loader's device-tree conversion is total and sound on every input: for every
  blob found in the configuration table, and for the built-in fallback tree, it ends without a
  panic and without running forever; the only error it reports is \<open>LOAD_ERROR\<close>, and only for a
  blob; otherwise it has produced the encoding of a tree in which every name fits its field and
  is NUL-free UTF-8 and every count and length fits 32 bits.\<close>

theorem adt_bytes_total:
  "case adt_bytes found of
     Ok bs \<Rightarrow> (\<exists>root. wf_adt root \<and> bs = enc_node root) \<and> 8 \<le> length bs \<and> 4 dvd length bs
   | Err e \<Rightarrow> e = LOAD_ERROR \<and> found \<noteq> None
   | Panic \<Rightarrow> False
   | Diverge \<Rightarrow> False"
  by (rule adt_bytes_outcome)

end
