(* ===== verification/Adt_Roundtrip.thy ===== *)
theory Adt_Roundtrip
  imports Kernel_Device_Tree Loader_Device_Tree
begin

text \<open>
  The two sides of the device-tree handoff meet: what
  \<open>loader/src/device_tree.rs\<close> writes is what \<open>kernel/src/device_tree.rs\<close>
  reads. The reader finds every property, every child and the exact length of
  an encoded node, whatever bytes follow it, and the kernel's dump of an
  encoded tree is the reference rendering \<open>render\<close> of that tree.
\<close>

section \<open>Reading an encoded property\<close>

lemma read_le_u32_mid:
  assumes "length pre = offset" "offset + 4 < 2 ^ 64"
  shows "read_le_u32 (pre @ u32_to_le_bytes w @ post) offset = Ok w"
  using assms by (simp add: read_le_u32_eq)

lemma position_zero_padded:
  assumes "0 \<notin> set nm" "0 < k"
  shows "position_zero (nm @ replicate k 0) = Some (length nm)"
proof -
  have "takeWhile (\<lambda>b. b \<noteq> 0) (nm @ replicate k 0) = nm"
    using assms by (subst takeWhile_append2) (auto simp: takeWhile_replicate)
  with assms show ?thesis by (simp add: position_zero_def)
qed

lemma Property_parse_enc:
  assumes wf: "wf_prop pr" and off: "length pre = offset" "4 dvd offset"
    and fits: "length (pre @ enc_prop pr @ post) < 2 ^ 63"
  shows "Property_parse (pre @ enc_prop pr @ post) offset =
    Ok \<lparr>pname = prop_name pr, pvalue = prop_value pr, pend = offset + length (enc_prop pr)\<rparr>"
proof -
  let ?nm = "prop_name pr" and ?v = "prop_value pr"
  let ?nf = "?nm @ replicate (32 - length ?nm) 0"
  let ?lf = "u32_to_le_bytes (word_of_nat (length ?v))"
  let ?pad = "replicate (pad_len (length ?v)) (0 :: u8)"
  let ?bs = "pre @ enc_prop pr @ post"
  from wf have nm: "length ?nm < 32" "utf8_valid ?nm" "0 \<notin> set ?nm" and v: "length ?v < 2 ^ 32"
    by (simp_all add: wf_prop_def)
  have len: "length ?bs = offset + (36 + length ?v + pad_len (length ?v)) + length post"
    using nm off by (simp add: length_enc_prop)
  have split1: "?bs = pre @ ?nf @ (?lf @ ?v @ ?pad @ post)" by (simp add: enc_prop_def)
  have split2: "?bs = (pre @ ?nf) @ ?lf @ (?v @ ?pad @ post)" by (simp add: enc_prop_def)
  have split3: "?bs = (pre @ ?nf @ ?lf) @ ?v @ (?pad @ post)" by (simp add: enc_prop_def)
  have nf: "length ?nf = 32" using nm by simp
  have 1: "get_range ?bs offset (offset + 32) = Some ?nf"
    unfolding split1 by (rule get_range_mid) (use off nf in simp_all)
  have 2: "position_zero ?nf = Some (length ?nm)"
    by (rule position_zero_padded) (use nm in simp_all)
  have 3: "read_le_u32 ?bs (offset + 32) = Ok (word_of_nat (length ?v))"
    unfolding split2 by (rule read_le_u32_mid) (use off nf len fits in simp_all)
  have 4: "get_range ?bs (36 + offset) (36 + offset + length ?v) = Some ?v"
    unfolding split3 by (rule get_range_mid) (use off nf in simp_all)
  have "4 dvd (offset + 36) + (length ?v + pad_len (length ?v))"
    by (rule dvd_add [OF _ pad_len_dvd]) (use off(2) in simp)
  then have d: "4 dvd offset + (36 + length ?v + pad_len (length ?v))" by (simp add: add.assoc)
  have 5: "align_up_4 (36 + offset + length ?v) =
      Some (offset + (36 + length ?v + pad_len (length ?v)))"
    using d fits len by (intro up4.up_unique) (simp_all add: pad_len_def)
  have 6: "unat (word_of_nat (length ?v) :: u32) = length ?v" using v by (simp add: unat_of_nat)
  show ?thesis
    using fits len nm 1 2 3 4 5 6
    by (simp add: Property_parse_def Let_def checked_add_us_def PROPERTY_NAME_LEN_def
        index_range_def get_range_def [of "_ @ _" 0] from_utf8_def length_enc_prop)
qed

lemma properties_loop_enc:
  "(\<forall>pr \<in> set ps. wf_prop pr) \<Longrightarrow> length pre = offset \<Longrightarrow> 4 dvd offset \<Longrightarrow>
   length (pre @ concat (map enc_prop ps) @ post) < 2 ^ 63 \<Longrightarrow>
   properties_loop (length ps) (pre @ concat (map enc_prop ps) @ post) offset =
     Ok (offset + length (concat (map enc_prop ps)))"
proof (induction ps arbitrary: pre offset)
  case Nil
  then show ?case by simp
next
  case (Cons pr ps)
  let ?bs = "pre @ concat (map enc_prop (pr # ps)) @ post"
  have 1: "Property_parse ?bs offset =
      Ok \<lparr>pname = prop_name pr, pvalue = prop_value pr, pend = offset + length (enc_prop pr)\<rparr>"
    using Property_parse_enc [of pr pre offset "concat (map enc_prop ps) @ post"] Cons.prems by simp
  have "4 dvd length (enc_prop pr)" using Cons.prems by (simp add: wf_prop_def dvd_length_enc_prop)
  then have 2: "properties_loop (length ps) ?bs (offset + length (enc_prop pr)) =
      Ok (offset + length (enc_prop pr) + length (concat (map enc_prop ps)))"
    using Cons.IH [of "pre @ enc_prop pr" "offset + length (enc_prop pr)"] Cons.prems by simp
  from 1 2 show ?case by simp
qed

section \<open>Reading an encoded node\<close>

lemma enc_node_counts:
  assumes "wf_adt nd" "length (enc_node nd @ rest) < 2 ^ 63"
  shows "property_count (enc_node nd @ rest) = Ok (word_of_nat (length (props nd)))"
    "child_count (enc_node nd @ rest) = Ok (word_of_nat (length (children nd)))"
    "unat (word_of_nat (length (props nd)) :: u32) = length (props nd)"
    "unat (word_of_nat (length (children nd)) :: u32) = length (children nd)"
proof -
  obtain ps cs where nd: "nd = AdtNode ps cs" by (cases nd)
  let ?n = "u32_to_le_bytes (word_of_nat (length ps))"
  let ?body = "concat (map enc_prop ps) @ concat (map enc_node cs) @ rest"
  have e: "enc_node nd @ rest = [] @ ?n @ (u32_to_le_bytes (word_of_nat (length cs)) @ ?body)"
    by (simp add: nd)
  show "property_count (enc_node nd @ rest) = Ok (word_of_nat (length (props nd)))"
    unfolding property_count_def e by (subst read_le_u32_mid) (simp_all add: nd)
  have e2: "enc_node nd @ rest = ?n @ u32_to_le_bytes (word_of_nat (length cs)) @ ?body"
    by (simp add: nd)
  show "child_count (enc_node nd @ rest) = Ok (word_of_nat (length (children nd)))"
    unfolding child_count_def e2 by (subst read_le_u32_mid) (simp_all add: nd)
  show "unat (word_of_nat (length (props nd)) :: u32) = length (props nd)"
    "unat (word_of_nat (length (children nd)) :: u32) = length (children nd)"
    using assms(1) by (simp_all add: nd unat_of_nat)
qed

text \<open>The node split at the place where its children start.\<close>

definition enc_head :: "adt_node \<Rightarrow> bytes" where
  "enc_head nd = u32_to_le_bytes (word_of_nat (length (props nd))) @
     u32_to_le_bytes (word_of_nat (length (children nd))) @ concat (map enc_prop (props nd))"

lemma enc_node_split: "enc_node nd = enc_head nd @ concat (map enc_node (children nd))"
  by (cases nd) (simp add: enc_head_def)

lemma properties_end_enc:
  assumes "wf_adt nd" "length (enc_node nd @ rest) < 2 ^ 63"
  shows "properties_end (enc_node nd @ rest) = Ok (length (enc_head nd))"
proof -
  obtain ps cs where nd: "nd = AdtNode ps cs" by (cases nd)
  let ?pre = "u32_to_le_bytes (word_of_nat (length ps)) @ u32_to_le_bytes (word_of_nat (length cs))"
  have "enc_node nd @ rest = ?pre @ concat (map enc_prop ps) @ (concat (map enc_node cs) @ rest)"
    by (simp add: nd)
  then have "properties_loop (length ps) (enc_node nd @ rest) 8 =
      Ok (8 + length (concat (map enc_prop ps)))"
    using properties_loop_enc [of ps ?pre 8 "concat (map enc_node cs) @ rest"] assms
    by (simp add: nd)
  then show ?thesis
    using enc_node_counts [OF assms] by (simp add: properties_end_def nd enc_head_def)
qed

lemma walk_enc:
  assumes "\<And>c r. c \<in> set cs \<Longrightarrow> length (enc_node c @ r) < 2 ^ 63 \<Longrightarrow>
      tlen (enc_node c @ r) = Ok (length (enc_node c))"
  shows "length pre = offset \<Longrightarrow> length (pre @ concat (map enc_node cs) @ post) < 2 ^ 63 \<Longrightarrow>
   walk (length cs) tlen (pre @ concat (map enc_node cs) @ post) offset =
     Ok (offset + length (concat (map enc_node cs)))"
  using assms
proof (induction cs arbitrary: pre offset)
  case Nil
  then show ?case by simp
next
  case (Cons c cs)
  let ?bs = "pre @ concat (map enc_node (c # cs)) @ post"
  have g: "get_from ?bs offset = Some (enc_node c @ concat (map enc_node cs) @ post)"
    using Cons.prems(1) by (simp add: get_from_def)
  have t: "tlen (enc_node c @ concat (map enc_node cs) @ post) = Ok (length (enc_node c))"
    using Cons.prems by simp
  have "walk (length cs) tlen ?bs (offset + length (enc_node c)) =
      Ok (offset + length (enc_node c) + length (concat (map enc_node cs)))"
    using Cons.IH [of "pre @ enc_node c" "offset + length (enc_node c)"] Cons.prems by simp
  with g t Cons.prems(1,2) show ?case by (simp add: checked_add_us_def)
qed

lemma total_len_enc:
  "wf_adt nd \<Longrightarrow> length (enc_node nd @ rest) < 2 ^ 63 \<Longrightarrow>
    total_len (enc_node nd @ rest) = Ok (length (enc_node nd))"
proof (induction nd arbitrary: rest)
  case (AdtNode ps cs)
  let ?nd = "AdtNode ps cs"
  have w: "walk (length cs) total_len (enc_head ?nd @ concat (map enc_node cs) @ rest)
      (length (enc_head ?nd)) = Ok (length (enc_head ?nd) + length (concat (map enc_node cs)))"
  proof (rule walk_enc)
    show "length (enc_head ?nd @ concat (map enc_node cs) @ rest) < 2 ^ 63"
      using AdtNode.prems(2) by (simp add: enc_node_split [of ?nd] del: enc_node.simps)
  qed (use AdtNode in auto)
  have "total_len (enc_node ?nd @ rest) =
      walk (length cs) total_len (enc_node ?nd @ rest) (length (enc_head ?nd))"
    using total_len_single_pass enc_node_counts [OF AdtNode.prems]
      properties_end_enc [OF AdtNode.prems] by simp
  with w show ?case by (simp add: enc_node_split [of ?nd] del: enc_node.simps)
qed

lemma concat_map_take_drop:
  "k < length cs \<Longrightarrow>
    concat (map f cs) = concat (map f (take k cs)) @ f (cs ! k) @ concat (map f (drop (Suc k) cs))"
  by (subst id_take_nth_drop [of k cs]) simp_all

lemma child_at_enc:
  assumes wf: "wf_adt nd" and fits: "length (enc_node nd @ rest) < 2 ^ 63"
    and k: "k < length (children nd)"
  shows "child_at (enc_node nd @ rest) k =
    Ok (enc_node (children nd ! k) @ concat (map enc_node (drop (Suc k) (children nd))) @ rest)"
proof -
  let ?cs = "children nd" and ?node = "enc_node nd @ rest"
  let ?before = "concat (map enc_node (take k ?cs))"
  let ?c = "enc_node (?cs ! k) @ concat (map enc_node (drop (Suc k) ?cs)) @ rest"
  have node: "?node = enc_head nd @ ?before @ ?c"
    using concat_map_take_drop [OF k, of enc_node] by (simp add: enc_node_split)
  have wfc: "wf_adt c" if "c \<in> set ?cs" for c using wf that by (cases nd) auto
  have "walk (length (take k ?cs)) total_len (enc_head nd @ ?before @ ?c) (length (enc_head nd)) =
      Ok (length (enc_head nd) + length ?before)"
    by (rule walk_enc) (use fits node wfc in \<open>auto intro!: total_len_enc dest: in_set_takeD\<close>)
  then have w: "walk k total_len ?node (length (enc_head nd)) =
      Ok (length (enc_head nd) + length ?before)"
    using k by (simp add: node)
  have t: "total_len ?c = Ok (length (enc_node (?cs ! k)))"
    by (rule total_len_enc) (use fits node wfc k in auto)
  have g: "get_from ?node (length (enc_head nd) + length ?before) = Some ?c"
    by (simp add: node get_from_def)
  show ?thesis
    using child_at_walk [OF properties_end_enc [OF wf fits] enc_node_counts(2) [OF wf fits], of k]
      enc_node_counts(4) [OF wf fits] k w t g
    by simp
qed

section \<open>The dump is the reference rendering\<close>

definition indent :: "nat \<Rightarrow> bytes" where
  "indent d = concat (replicate d (ascii ''  ''))"

definition render_prop :: "nat \<Rightarrow> adt_prop \<Rightarrow> bytes" where
  "render_prop d pr = indent (d + 1) @ prop_name pr @ ascii '' len='' @
     hex_text (word_of_nat (length (prop_value pr))) @
     (if is_printable (prop_value pr)
      then ascii ('' value='' @ [CHR 0x22]) @ filter (\<lambda>b. b \<noteq> 0) (prop_value pr) @ ascii [CHR 0x22]
      else []) @ ascii [CHR 0x0A]"

fun render :: "nat \<Rightarrow> adt_node \<Rightarrow> bytes" where
  "render d (AdtNode ps cs) =
     indent d @ ascii ''node props='' @ hex_text (word_of_nat (length ps)) @
     ascii '' children='' @ hex_text (word_of_nat (length cs)) @ ascii [CHR 0x0A] @
     concat (map (render_prop d) ps) @ concat (map (render (d + 1)) cs)"

lemma text_write_indent [simp]: "uart_text (write_indent d log) = uart_text log @ indent d"
  by (induction d arbitrary: log) (simp_all add: indent_def)

lemma text_write_ascii:
  assumes "is_printable bs"
  shows "uart_text (write_ascii bs log) = uart_text log @ filter (\<lambda>b. b \<noteq> 0) bs"
proof -
  have "from_utf8 [b] = Some [b]" if "b \<in> set bs" for b
  proof -
    from assms that have "b \<le> 0x7e" by (auto simp: is_printable_def)
    then have "b < 0x80" by (simp add: word_le_nat_alt word_less_nat_alt)
    then show ?thesis by (simp add: from_utf8_def)
  qed
  then have "\<forall>b \<in> set bs. from_utf8 [b] = Some [b]" by blast
  then show ?thesis
    unfolding write_ascii_def by (induction bs arbitrary: log) simp_all
qed

lemma text_dump_property:
  "uart_text (dump_property d \<lparr>pname = prop_name pr, pvalue = prop_value pr, pend = e\<rparr> log) =
   uart_text log @ render_prop d pr"
  by (simp add: dump_property_def render_prop_def Let_def text_write_ascii del: write_indent.simps)

lemma dump_props_enc:
  "(\<forall>pr \<in> set ps. wf_prop pr) \<Longrightarrow> length pre = offset \<Longrightarrow> 4 dvd offset \<Longrightarrow>
   length (pre @ concat (map enc_prop ps) @ post) < 2 ^ 63 \<Longrightarrow>
   \<exists>log'. dump_props (length ps) (pre @ concat (map enc_prop ps) @ post) d offset log = (log', Ok ()) \<and>
     uart_text log' = uart_text log @ concat (map (render_prop d) ps)"
proof (induction ps arbitrary: pre offset log)
  case Nil
  then show ?case by (simp add: emit_def)
next
  case (Cons pr ps)
  let ?bs = "pre @ concat (map enc_prop (pr # ps)) @ post"
  let ?p = "\<lparr>pname = prop_name pr, pvalue = prop_value pr, pend = offset + length (enc_prop pr)\<rparr>"
  have 1: "Property_parse ?bs offset = Ok ?p"
    using Property_parse_enc [of pr pre offset "concat (map enc_prop ps) @ post"] Cons.prems by simp
  have "4 dvd length (enc_prop pr)" using Cons.prems by (simp add: wf_prop_def dvd_length_enc_prop)
  then have "\<exists>log'. dump_props (length ps) ?bs d (offset + length (enc_prop pr)) (dump_property d ?p log)
        = (log', Ok ()) \<and>
      uart_text log' = uart_text (dump_property d ?p log) @ concat (map (render_prop d) ps)"
    using Cons.IH [of "pre @ enc_prop pr" "offset + length (enc_prop pr)"] Cons.prems by simp
  with 1 show ?case by (simp add: text_dump_property del: dump_then.simps)
qed

lemma hex_text_count: "n < 2 ^ 32 \<Longrightarrow> hex_text (ucast (word_of_nat n :: u32)) = hex_text (word_of_nat n)"
proof -
  assume "n < 2 ^ 32"
  then have "unat (ucast (word_of_nat n :: u32) :: u64) = n"
    by (simp add: unat_ucast unat_of_nat)
  moreover from \<open>n < 2 ^ 32\<close> have "unat (word_of_nat n :: u64) = n"
    by (simp add: unat_of_nat)
  ultimately have "(ucast (word_of_nat n :: u32) :: u64) = word_of_nat n"
    by (simp add: word_unat_eq_iff)
  then show ?thesis by simp
qed

lemma dump_children_enc:
  assumes wf: "wf_adt nd" and fits: "length (enc_node nd @ rest) < 2 ^ 63"
    and dn: "\<And>c r log. c \<in> set (children nd) \<Longrightarrow> length (enc_node c @ r) < 2 ^ 63 \<Longrightarrow>
      \<exists>log'. dn (enc_node c @ r) (d + 1) log = (log', Ok ()) \<and>
        uart_text log' = uart_text log @ render (d + 1) c"
  shows "i + n = length (children nd) \<Longrightarrow>
    \<exists>log'. dump_children n dn (enc_node nd @ rest) d i log = (log', Ok ()) \<and>
      uart_text log' = uart_text log @ concat (map (render (d + 1)) (drop i (children nd)))"
proof (induction n arbitrary: i log)
  case 0
  then show ?case by (simp add: emit_def)
next
  case (Suc n)
  let ?cs = "children nd"
  let ?r = "concat (map enc_node (drop (Suc i) ?cs)) @ rest"
  have i: "i < length ?cs" using Suc.prems by simp
  have c: "child_at (enc_node nd @ rest) i = Ok (enc_node (?cs ! i) @ ?r)"
    by (rule child_at_enc [OF wf fits i])
  have "length (enc_node (?cs ! i) @ ?r) < 2 ^ 63"
    using child_at_shorter [OF c] fits by simp
  then obtain log1 where l1: "dn (enc_node (?cs ! i) @ ?r) (d + 1) log = (log1, Ok ())"
      "uart_text log1 = uart_text log @ render (d + 1) (?cs ! i)"
    using dn [of "?cs ! i" ?r log] i by auto
  from Suc.IH [of "Suc i" log1] Suc.prems obtain log2 where
      l2: "dump_children n dn (enc_node nd @ rest) d (Suc i) log1 = (log2, Ok ())"
      "uart_text log2 = uart_text log1 @ concat (map (render (d + 1)) (drop (Suc i) ?cs))"
    by auto
  have "drop i ?cs = ?cs ! i # drop (Suc i) ?cs" using i by (simp add: Cons_nth_drop_Suc)
  with l1 l2 c show ?case by (simp add: try_res_def)
qed

lemma dump_node_enc:
  "wf_adt nd \<Longrightarrow> length (enc_node nd @ rest) < 2 ^ 63 \<Longrightarrow>
    \<exists>log'. dump_node (enc_node nd @ rest) d log = (log', Ok ()) \<and>
      uart_text log' = uart_text log @ render d nd"
proof (induction nd arbitrary: rest d log)
  case (AdtNode ps cs)
  let ?nd = "AdtNode ps cs" and ?node = "enc_node (AdtNode ps cs) @ rest"
  note cnt = enc_node_counts [OF AdtNode.prems]
  let ?pre = "u32_to_le_bytes (word_of_nat (length ps)) @ u32_to_le_bytes (word_of_nat (length cs))"
  let ?log = "write_str (ascii [CHR 0x0A]) (write_hex_u64 (ucast (word_of_nat (length cs) :: u32))
    (write_str (ascii '' children='') (write_hex_u64 (ucast (word_of_nat (length ps) :: u32))
    (write_str (ascii ''node props='') (write_indent d log)))))"
  obtain log1 where l1: "dump_props (length ps) ?node d 8 ?log = (log1, Ok ())"
      "uart_text log1 = uart_text ?log @ concat (map (render_prop d) ps)"
    using dump_props_enc [of ps ?pre 8 "concat (map enc_node cs) @ rest" d ?log] AdtNode.prems
    by auto
  have "\<exists>log'. dump_children (length cs) dump_node ?node d 0 log1 = (log', Ok ()) \<and>
      uart_text log' = uart_text log1 @ concat (map (render (d + 1)) (drop 0 (children ?nd)))"
    by (rule dump_children_enc [OF AdtNode.prems]) (use AdtNode in auto)
  then obtain log2 where l2: "dump_children (length cs) dump_node ?node d 0 log1 = (log2, Ok ())"
      "uart_text log2 = uart_text log1 @ concat (map (render (d + 1)) cs)"
    by auto
  have "dump_node ?node d log = dump_children (length cs) dump_node ?node d 0 log1"
    unfolding dump_node_def [of ?node] dump_node_fuel.simps dump_children_dump_node
    using cnt l1(1) by (simp add: try_res_def emit_def del: enc_node.simps)
  with l1 l2 AdtNode.prems(1) show ?case by (simp add: hex_text_count del: enc_node.simps)
qed

section \<open>Properties of the handoff\<close>

text \<open>C19: the kernel's reader inverts the loader's writer. For every well-formed tree, followed by
  any bytes, the kernel measures exactly the bytes the loader wrote for the node and, for every
  child index, finds exactly the slice that starts at that child.\<close>

theorem reader_inverts_writer:
  assumes "wf_adt nd" and "length (enc_node nd @ rest) < 2 ^ 63"
  shows "write_adt_node nd [] = Ok (enc_node nd) \<and>
    total_len (enc_node nd @ rest) = Ok (length (enc_node nd)) \<and>
    (\<forall>k < length (children nd). child_at (enc_node nd @ rest) k =
       Ok (enc_node (children nd ! k) @ concat (map enc_node (drop (Suc k) (children nd))) @ rest))"
  using write_adt_node_enc(1) [OF assms(1), of "[]"] total_len_enc [OF assms] child_at_enc [OF assms]
  by simp

theorem reader_inverts_writer_witness:
  "let nd = AdtNode [] [AdtNode [\<lparr>prop_name = [97], prop_value = [1, 2, 3]\<rparr>] []] in
   write_adt_node nd [] = Ok (enc_node nd) \<and>
   total_len (enc_node nd @ [7]) = Ok 56 \<and>
   child_at (enc_node nd @ [7]) 0 = Ok (enc_node (children nd ! 0) @ [7])"
proof -
  let ?nd = "AdtNode [] [AdtNode [\<lparr>prop_name = [97], prop_value = [1, 2, 3]\<rparr>] []]"
  have w: "wf_adt ?nd" by (simp add: wf_prop_def)
  have l: "length (enc_node ?nd @ [7]) < 2 ^ 63"
    by (simp add: enc_prop_def pad_len_def)
  from reader_inverts_writer [OF w l] show ?thesis
    by (simp add: Let_def enc_prop_def pad_len_def)
qed

text \<open>The kernel's dump of an encoded tree is complete and is its rendering.\<close>

lemma dump_enc:
  assumes "wf_adt root" "length (enc_node root) < 2 ^ 32"
  shows "snd (dump (enc_node root) log) = Ok () \<and>
    uart_text (fst (dump (enc_node root) log)) =
      uart_text log @ ascii (''xnu-rs: Apple device tree'' @ [CHR 0x0A]) @ render 0 root"
proof -
  let ?log = "write_str (ascii (''xnu-rs: Apple device tree'' @ [CHR 0x0A])) log"
  obtain log' where d: "dump_node (enc_node root @ []) 0 ?log = (log', Ok ())"
      "uart_text log' = uart_text ?log @ render 0 root"
    using dump_node_enc [OF assms(1), of "[]" 0 ?log] assms(2) by auto
  have "\<not> length (enc_node root) < 8" using length_enc_node [of root] by simp
  then have "dump (enc_node root) log = (log', Ok ())"
    using d(1) by (simp add: dump_def AppleDeviceTree_new_def)
  with d(2) show ?thesis by simp
qed

text \<open>C5: end to end, the device tree the kernel prints is the one the firmware described: when
  the loader's parser turns a flattened device tree into a tree, the bytes it then writes for it
  (within the 32-bit length the boot arguments can express) are dumped by the kernel completely,
  without an error line, as the reference rendering of exactly that tree.\<close>

theorem device_tree_handoff:
  assumes "FdtParser_new fdt = Ok p" and "fdt_parse p = Ok root"
    and "adt_bytes (Some fdt) = Ok bs" and "length bs < 2 ^ 32"
  shows "snd (dump bs log) = Ok () \<and>
    uart_text (fst (dump bs log)) =
      uart_text log @ ascii (''xnu-rs: Apple device tree'' @ [CHR 0x0A]) @ render 0 root"
proof -
  have wf: "wf_adt root" using assms(1,2) by (rule fdt_parse_wf)
  have bs: "bs = enc_node root"
    using assms(1-3) write_adt_node_enc(1) [OF wf, of "[]"] by (simp add: adt_bytes_def)
  from dump_enc [OF wf] assms(4) show ?thesis by (simp add: bs)
qed

text \<open>A small blob: one node without a name, one property \<open>reg\<close> of two bytes.\<close>

definition fdt_sample :: bytes where
  "fdt_sample =
     [0xd0, 0x0d, 0xfe, 0xed, 0, 0, 0, 60, 0, 0, 0, 16, 0, 0, 0, 56,
      0, 0, 0, 1, 0, 0, 0, 0,
      0, 0, 0, 3, 0, 0, 0, 2, 0, 0, 0, 0, 0x68, 0x69, 0, 0,
      0, 0, 0, 4, 0, 0, 0, 2, 0, 0, 0, 9, 0, 0, 0, 0,
      0x72, 0x65, 0x67, 0]"

definition sample_root :: adt_node where
  "sample_root = AdtNode [\<lparr>prop_name = ascii ''name'', prop_value = ascii ''/''\<rparr>,
     \<lparr>prop_name = ascii ''reg'', prop_value = [0x68, 0x69]\<rparr>] []"

lemma parse_fuel_numeral:
  "parse_node_fuel (numeral k) p = parse_node_fuel (Suc (pred_numeral k)) p"
  "parse_items (numeral k) p ps cs = parse_items (Suc (pred_numeral k)) p ps cs"
  by (simp_all add: numeral_eq_Suc)

lemmas fdt_eval =
  FdtParser_new_def fdt_parse_def parse_node_def parse_fuel_numeral read_be_u32_eq
  u32_from_be_bytes_def expect_token_def read_token_def peek_token_def FDT_MAGIC_def
  FDT_BEGIN_NODE_def FDT_END_NODE_def FDT_PROP_def FDT_NOP_def FDT_END_def read_cstr_def
  string_at_def scan_nul.simps get_at_def align_pos_eq parse_prop_def finish_node_def
  AdtProp_new_def AdtProp_new_owned_def checked_add_us_def index_range_def get_range_def
  from_utf8_def ascii_def Let_def

lemma sample_parser: "FdtParser_new fdt_sample = Ok \<lparr>fbytes = fdt_sample, strings_offset = 56, pos = 16\<rparr>"
  by (simp add: fdt_sample_def fdt_eval)

lemma sample_parsed: "fdt_parse \<lparr>fbytes = fdt_sample, strings_offset = 56, pos = 16\<rparr> = Ok sample_root"
  by (simp add: fdt_sample_def sample_root_def fdt_eval)

theorem device_tree_handoff_witness:
  "adt_bytes (Some fdt_sample) = Ok (enc_node sample_root) \<and>
   snd (dump (enc_node sample_root) []) = Ok () \<and>
   uart_text (fst (dump (enc_node sample_root) [])) =
     ascii (''xnu-rs: Apple device tree'' @ [CHR 0x0A]) @ render 0 sample_root"
proof -
  have wf: "wf_adt sample_root" using sample_parser sample_parsed by (rule fdt_parse_wf)
  have b: "adt_bytes (Some fdt_sample) = Ok (enc_node sample_root)"
    using write_adt_node_enc(1) [OF wf, of "[]"]
    by (simp add: adt_bytes_def sample_parser sample_parsed)
  have l: "length (enc_node sample_root) < 2 ^ 32"
    by (simp add: sample_root_def enc_prop_def pad_len_def)
  from device_tree_handoff [OF sample_parser sample_parsed b l, of "[]"] b show ?thesis
    by (simp add: uart_text_def)
qed

end
