(* ===== verification/Goblin.thy ===== *)
theory Goblin
  imports Xnu_Prelude
begin

text \<open>
  The values the sources take from the \<open>goblin\<close> crate: the parts of a parsed
  Mach-O and ELF image they read. The parsers themselves
  (\<open>MachO::parse\<close>, \<open>Elf::parse\<close>) are not part of the repository and are
  function parameters of the definitions that call them.
  \<open>seg_name\<close> is the result of \<open>segment.name().ok()\<close>.
\<close>

record mach_segment =
  seg_name :: "bytes option"
  vmaddr :: u64
  vmsize :: u64
  fileoff :: u64
  filesize :: u64
  seg_data :: bytes

datatype command_variant = MainCommand (entryoff: u64) | OtherCommand

record load_command =
  lc_cmd :: u32
  lc_variant :: command_variant

record mach_o =
  segments :: "mach_segment list"
  load_commands :: "load_command list"
  entry :: u64

type_synonym macho_parser = "bytes \<Rightarrow> (mach_o, unit) res"

definition LC_MAIN :: u32 where
  "LC_MAIN = 0x80000028"

definition LC_SEGMENT_64 :: u32 where
  "LC_SEGMENT_64 = 0x19"

record program_header =
  p_type :: u32
  p_flags :: u32
  p_offset :: u64
  p_vaddr :: u64
  p_filesz :: u64
  p_memsz :: u64

record elf =
  elf_entry :: u64
  program_headers :: "program_header list"

type_synonym elf_parser = "bytes \<Rightarrow> (elf, unit) res"

definition PT_LOAD :: u32 where
  "PT_LOAD = 1"

end
