(* ===== verification/Loader_Image.thy ===== *)
theory Loader_Image
  imports Boot_Env Xnu_Align Goblin "HOL-Library.Multiset"
begin

text \<open>
  The image-loading half of \<open>loader/src/main.rs\<close>: page ranges of the kernel's
  segments, their merging and allocation, the copy of the segment data, cache
  maintenance and the end address of the image. The image is a value of the
  Mach-O parser's type; \<open>boot::allocate_pages\<close> is a parameter.
  \<open>sort_unstable_by_key\<close> does not fix the order of equal keys, so the sort is a
  parameter too, with the contract in locale \<open>range_sort\<close>.
\<close>

section \<open>Definitions\<close>

definition PAGE_SIZE_u64 :: u64 where
  "PAGE_SIZE_u64 = 4096"

definition align_down :: "u64 \<Rightarrow> u64 \<Rightarrow> u64" where
  "align_down v al = v AND NOT (al - 1)"

definition align_up :: "u64 \<Rightarrow> u64 \<Rightarrow> (u64, status) res" where
  "align_up v al =
     ok_or (map_option (\<lambda>v'. align_down v' al) (checked_add v (al - 1))) LOAD_ERROR"

record load_range =
  range_start :: u64
  range_end :: u64

primrec load_ranges :: "mach_segment list \<Rightarrow> (load_range list, status) res" where
  "load_ranges [] = Ok []"
| "load_ranges (sg # sgs) =
     (if vmsize sg = 0 then load_ranges sgs
      else let st = align_down (vmaddr sg) PAGE_SIZE_u64 in
        and_then (ok_or (checked_add (vmaddr sg) (vmsize sg)) LOAD_ERROR) (\<lambda>e0.
        and_then (align_up e0 PAGE_SIZE_u64) (\<lambda>e.
        and_then (load_ranges sgs) (\<lambda>rest.
        Ok (\<lparr>range_start = st, range_end = e\<rparr> # rest)))))"

text \<open>One iteration of the merge loop: extend the last range or push a new one.\<close>

definition merge_step :: "load_range list \<Rightarrow> load_range \<Rightarrow> load_range list" where
  "merge_step merged r =
     (if merged \<noteq> [] \<and> range_start r \<le> range_end (last merged)
      then butlast merged @
           [(last merged)\<lparr>range_end := max (range_end (last merged)) (range_end r)\<rparr>]
      else merged @ [r])"

definition merge_ranges :: "load_range list \<Rightarrow> load_range list" where
  "merge_ranges rs = foldl merge_step [] rs"

definition div_ceil_u64 :: "u64 \<Rightarrow> u64 \<Rightarrow> u64" where
  "div_ceil_u64 a b = (if a mod b = 0 then a div b else a div b + 1)"

definition allocate_range :: "'fw alloc_fn \<Rightarrow> load_range \<Rightarrow> (unit, 'fw) boot" where
  "allocate_range alloc r =
     boot_then (boot_res (ok_or (checked_sub (range_end r) (range_start r)) LOAD_ERROR)) (\<lambda>size.
     boot_then (allocate_pages alloc (Address (range_start r)) LOADER_CODE
                  (unat (div_ceil_u64 size PAGE_SIZE_u64))) (\<lambda>_.
     boot_mem (mem_fill (range_start r) 0 (unat size))))"

primrec allocate_ranges :: "'fw alloc_fn \<Rightarrow> load_range list \<Rightarrow> (unit, 'fw) boot" where
  "allocate_ranges alloc [] = boot_res (Ok ())"
| "allocate_ranges alloc (r # rs) =
     boot_then (allocate_range alloc r) (\<lambda>_. allocate_ranges alloc rs)"

definition allocate_load_ranges ::
  "(load_range list \<Rightarrow> load_range list) \<Rightarrow> 'fw alloc_fn \<Rightarrow> mach_o \<Rightarrow> (unit, 'fw) boot" where
  "allocate_load_ranges srt alloc macho =
     boot_then (boot_res (load_ranges (segments macho))) (\<lambda>ranges.
     allocate_ranges alloc (merge_ranges (srt ranges)))"

primrec load_segments :: "mach_segment list \<Rightarrow> (unit, 'fw) boot" where
  "load_segments [] = boot_res (Ok ())"
| "load_segments (sg # sgs) =
     (if filesize sg = 0 then load_segments sgs
      else boot_then (boot_mem (mem_write (vmaddr sg) (seg_data sg))) (\<lambda>_. load_segments sgs))"

definition CACHE_LINE :: u64 where
  "CACHE_LINE = 64"

text \<open>The addresses of one maintenance loop, \<open>addr = addr.saturating_add(CACHE_LINE)\<close>.\<close>

function cache_lines :: "u64 \<Rightarrow> u64 \<Rightarrow> u64 list" where
  "cache_lines addr e =
     (if addr < e then addr # cache_lines (saturating_add addr CACHE_LINE) e else [])"
  by pat_completeness auto
termination
proof (relation "measure (\<lambda>(addr, e). unat e - unat addr)")
  fix addr e :: u64
  assume "addr < e"
  then have "unat addr < unat e" by (simp add: word_less_nat_alt)
  moreover have "unat e < 2 ^ 64" using unat_bound [of e] by simp
  ultimately have "unat addr < unat (saturating_add addr CACHE_LINE)"
    by (simp add: unat_saturating_add CACHE_LINE_def min_def)
  with \<open>unat addr < unat e\<close>
  show "((saturating_add addr CACHE_LINE, e), addr, e) \<in> measure (\<lambda>(addr, e). unat e - unat addr)"
    by simp
qed simp

declare cache_lines.simps [simp del]

definition clean_dcache_invalidate_icache :: "u64 \<Rightarrow> nat \<Rightarrow> cache_op list" where
  "clean_dcache_invalidate_icache st len =
     (let e = saturating_add st (word_of_nat len);
          addr = st AND NOT (CACHE_LINE - 1)
      in map DC_CVAU (cache_lines addr e) @ [DSB_ISH] @
         map IC_IVAU (cache_lines addr e) @ [DSB_ISH, ISB])"

primrec sync_loaded_image :: "mach_segment list \<Rightarrow> (unit, 'fw) boot" where
  "sync_loaded_image [] = boot_res (Ok ())"
| "sync_loaded_image (sg # sgs) =
     (if vmsize sg = 0 then sync_loaded_image sgs
      else boot_then (boot_cache (clean_dcache_invalidate_icache (vmaddr sg) (unat (vmsize sg))))
             (\<lambda>_. sync_loaded_image sgs))"

primrec kernel_top_loop :: "mach_segment list \<Rightarrow> u64 \<Rightarrow> (u64, status) res" where
  "kernel_top_loop [] tp = Ok tp"
| "kernel_top_loop (sg # sgs) tp =
     and_then (ok_or (checked_add (vmaddr sg) (vmsize sg)) LOAD_ERROR) (\<lambda>e.
     kernel_top_loop sgs (if e > tp then e else tp))"

definition kernel_top :: "mach_o \<Rightarrow> (u64, status) res" where
  "kernel_top macho = kernel_top_loop (segments macho) 0"

section \<open>Alignment\<close>

lemma align_down_mask: "align_down v (2 ^ k) = v AND NOT (mask k)"
  by (simp add: align_down_def power_two_minus_one_mask)

lemma page_power: "PAGE_SIZE_u64 = 2 ^ 12"
  by (simp add: PAGE_SIZE_u64_def)

lemma unat_align_down_page: "unat (align_down v PAGE_SIZE_u64) = unat v - unat v mod 4096"
  by (simp only: page_power align_down_mask unat_and_not_mask) simp

lemma align_up_page:
  "res_ok (align_up v PAGE_SIZE_u64) =
     (if unat v + (2 ^ 12 - 1) < 2 ^ 64 then Some ((v + (2 ^ 12 - 1)) AND NOT (2 ^ 12 - 1))
      else None)"
proof -
  have "unat (PAGE_SIZE_u64 - 1) = 2 ^ 12 - 1" by (simp add: PAGE_SIZE_u64_def)
  then show ?thesis
    by (simp add: align_up_def checked_add_def align_down_def) (simp add: PAGE_SIZE_u64_def)
qed

interpretation page_up: aligner "on_u64 (\<lambda>v. res_ok (align_up v PAGE_SIZE_u64))" "2 ^ 12" "2 ^ 64"
  by (rule u64_aligner) (rule align_up_page | simp)+

lemma align_up_Ok:
  "align_up v PAGE_SIZE_u64 = Ok r \<Longrightarrow>
   4096 dvd unat r \<and> unat v \<le> unat r \<and> unat r < unat v + 4096"
  using page_up.up_sound [of "unat v" "unat r"] by (simp add: on_u64_unat)

lemma align_up_not_Ok:
  "align_up v PAGE_SIZE_u64 = Ok r \<or>
   align_up v PAGE_SIZE_u64 = Err LOAD_ERROR \<and> 2 ^ 64 \<le> unat v + 4095" if "r = (v + 4095) AND NOT 4095"
  using that by (simp add: align_up_def checked_add_def align_down_def PAGE_SIZE_u64_def)

section \<open>Page ranges of the segments\<close>

text \<open>\<open>page_hull sg r\<close>: \<open>r\<close> is the smallest page-aligned range around the segment.\<close>

definition page_hull :: "mach_segment \<Rightarrow> load_range \<Rightarrow> bool" where
  "page_hull sg r \<longleftrightarrow>
     4096 dvd unat (range_start r) \<and> 4096 dvd unat (range_end r) \<and>
     unat (range_start r) \<le> unat (vmaddr sg) \<and> unat (vmaddr sg) < unat (range_start r) + 4096 \<and>
     unat (vmaddr sg) + unat (vmsize sg) \<le> unat (range_end r) \<and>
     unat (range_end r) < unat (vmaddr sg) + unat (vmsize sg) + 4096"

definition present :: "mach_segment list \<Rightarrow> mach_segment list" where
  "present sgs = filter (\<lambda>sg. vmsize sg \<noteq> 0) sgs"

lemma load_ranges_Ok:
  "load_ranges sgs = Ok rs \<Longrightarrow> list_all2 page_hull (present sgs) rs"
proof (induction sgs arbitrary: rs)
  case Nil
  then show ?case by (simp add: present_def)
next
  case (Cons sg sgs)
  show ?case
  proof (cases "vmsize sg = 0")
    case True
    with Cons show ?thesis by (simp add: present_def)
  next
    case False
    with Cons.prems obtain e0 e rest where
      e0: "unat e0 = unat (vmaddr sg) + unat (vmsize sg)" and
      e: "align_up e0 PAGE_SIZE_u64 = Ok e" and rest: "load_ranges sgs = Ok rest" and
      rs: "rs = \<lparr>range_start = align_down (vmaddr sg) PAGE_SIZE_u64, range_end = e\<rparr> # rest"
      by (auto simp: Let_def res_simps arith_specs)
    have "page_hull sg \<lparr>range_start = align_down (vmaddr sg) PAGE_SIZE_u64, range_end = e\<rparr>"
      using align_up_Ok [OF e] e0
      by (simp add: page_hull_def unat_align_down_page dvd_minus_mod)
    with False Cons.IH [OF rest] rs show ?thesis by (simp add: present_def)
  qed
qed

lemma load_ranges_returns:
  "(\<exists>rs. load_ranges sgs = Ok rs) \<or>
   load_ranges sgs = Err LOAD_ERROR \<and>
     (\<exists>sg \<in> set sgs. 2 ^ 64 \<le> unat (vmaddr sg) + unat (vmsize sg) + 4095)"
proof (induction sgs)
  case Nil
  then show ?case by simp
next
  case (Cons sg sgs)
  show ?case
  proof (cases "checked_add (vmaddr sg) (vmsize sg)")
    case None
    then have "2 ^ 64 \<le> unat (vmaddr sg) + unat (vmsize sg)" by (simp add: arith_specs)
    with None Cons show ?thesis by (auto simp: Let_def)
  next
    case (Some e0)
    then have "unat e0 = unat (vmaddr sg) + unat (vmsize sg)" by (simp add: arith_specs)
    with Some Cons align_up_not_Ok [OF refl, of e0] show ?thesis
      by (auto simp: Let_def)
  qed
qed

section \<open>Merging\<close>

definition covered :: "load_range list \<Rightarrow> u64 set" where
  "covered rs = (\<Union>r \<in> set rs. {x. range_start r \<le> x \<and> x < range_end r})"

definition separated :: "load_range list \<Rightarrow> bool" where
  "separated rs \<longleftrightarrow> sorted_wrt (\<lambda>a b. range_end a < range_start b) rs"

definition proper :: "load_range \<Rightarrow> bool" where
  "proper r \<longleftrightarrow> range_start r < range_end r"

definition page_aligned :: "load_range \<Rightarrow> bool" where
  "page_aligned r \<longleftrightarrow> 4096 dvd unat (range_start r) \<and> 4096 dvd unat (range_end r)"

lemma covered_simps [simp]:
  "covered [] = {}"
  "covered (r # rs) = {x. range_start r \<le> x \<and> x < range_end r} \<union> covered rs"
  "covered (xs @ ys) = covered xs \<union> covered ys"
  by (auto simp: covered_def)

lemma covered_mset: "mset xs = mset ys \<Longrightarrow> covered xs = covered ys"
  using mset_eq_setD [of xs ys] by (simp only: covered_def)

text \<open>One step keeps the invariant, provided the new range starts no earlier than the last.\<close>

lemma merge_step_inv:
  assumes sep: "separated acc" and pr: "\<forall>a \<in> set acc. proper a" and r: "proper r"
    and first: "\<forall>a \<in> set acc. range_start a \<le> range_start r"
  shows "separated (merge_step acc r)" "\<forall>a \<in> set (merge_step acc r). proper a"
    "\<forall>a \<in> set (merge_step acc r). range_start a \<le> range_start r"
    "covered (merge_step acc r) = covered acc \<union> covered [r]"
proof -
  have "separated (merge_step acc r) \<and> (\<forall>a \<in> set (merge_step acc r). proper a) \<and>
    (\<forall>a \<in> set (merge_step acc r). range_start a \<le> range_start r) \<and>
    covered (merge_step acc r) = covered acc \<union> covered [r]"
  proof (cases acc rule: rev_cases)
    case Nil
    with r show ?thesis by (simp add: merge_step_def separated_def)
  next
    case (snoc bs l)
    have l: "range_start l < range_end l" "range_start l \<le> range_start r"
      using pr first snoc by (auto simp: proper_def)
    have bs: "\<And>b. b \<in> set bs \<Longrightarrow> range_end b < range_start l" "separated bs"
      using sep snoc by (auto simp: separated_def sorted_wrt_append)
    show ?thesis
    proof (cases "range_start r \<le> range_end l")
      case True
      have "{x. range_start l \<le> x \<and> x < max (range_end l) (range_end r)} =
        {x. range_start l \<le> x \<and> x < range_end l} \<union> {x. range_start r \<le> x \<and> x < range_end r}"
        using True l by (auto simp: less_max_iff_disj)
      with True snoc l bs pr first show ?thesis
        by (auto simp: merge_step_def separated_def sorted_wrt_append proper_def less_max_iff_disj)
    next
      case False
      have "\<And>b. b \<in> set bs \<Longrightarrow> range_end b < range_start r"
        using bs(1) l by (meson order_less_le_trans)
      with False snoc sep pr r first show ?thesis
        by (auto simp: merge_step_def separated_def sorted_wrt_append)
    qed
  qed
  then show "separated (merge_step acc r)" "\<forall>a \<in> set (merge_step acc r). proper a"
    "\<forall>a \<in> set (merge_step acc r). range_start a \<le> range_start r"
    "covered (merge_step acc r) = covered acc \<union> covered [r]" by blast+
qed

lemma merge_fold:
  assumes "separated acc" "\<forall>a \<in> set acc. proper a" "\<forall>r \<in> set rs. proper r"
    and "\<forall>a \<in> set acc. \<forall>r \<in> set rs. range_start a \<le> range_start r"
    and "sorted (map range_start rs)"
  shows "separated (foldl merge_step acc rs) \<and> (\<forall>a \<in> set (foldl merge_step acc rs). proper a) \<and>
    covered (foldl merge_step acc rs) = covered acc \<union> covered rs"
  using assms
proof (induction rs arbitrary: acc)
  case Nil
  then show ?case by simp
next
  case (Cons r rs)
  have r: "proper r" and ord: "\<forall>a \<in> set acc. range_start a \<le> range_start r"
    and rs: "\<forall>r \<in> set rs. proper r" and srt: "sorted (map range_start rs)"
    and le: "\<And>r'. r' \<in> set rs \<Longrightarrow> range_start r \<le> range_start r'"
    using Cons.prems by auto
  note st = merge_step_inv [OF Cons.prems(1,2) r ord]
  have "\<forall>a \<in> set (merge_step acc r). \<forall>r' \<in> set rs. range_start a \<le> range_start r'"
    using st(3) le by (meson order_trans)
  from Cons.IH [OF st(1,2) rs this srt] show ?case
    by (simp only: foldl.simps st(4) covered_simps Un_empty_right Un_assoc) simp
qed

lemma merge_step_aligned:
  "\<forall>a \<in> set acc. page_aligned a \<Longrightarrow> page_aligned r \<Longrightarrow> \<forall>a \<in> set (merge_step acc r). page_aligned a"
  by (cases acc rule: rev_cases) (auto simp: merge_step_def page_aligned_def max_def)

lemma merge_fold_aligned:
  "\<forall>a \<in> set acc. page_aligned a \<Longrightarrow> \<forall>r \<in> set rs. page_aligned r \<Longrightarrow>
   \<forall>r \<in> set (foldl merge_step acc rs). page_aligned r"
proof (induction rs arbitrary: acc)
  case Nil
  then show ?case by simp
next
  case (Cons r rs)
  have "\<forall>a \<in> set (merge_step acc r). page_aligned a"
    by (rule merge_step_aligned) (use Cons.prems in auto)
  with Cons.IH [of "merge_step acc r"] Cons.prems(2) show ?case by simp
qed

text \<open>The contract of \<open>sort_unstable_by_key(|range| range.start)\<close>: a permutation, ordered by
  start. What \<open>allocate_load_ranges\<close> obtains from it is proved once here.\<close>

locale range_sort =
  fixes srt :: "load_range list \<Rightarrow> load_range list"
  assumes srt_mset: "mset (srt rs) = mset rs"
    and srt_sorted: "sorted (map range_start (srt rs))"
begin

lemma srt_set: "set (srt rs) = set rs"
  by (rule mset_eq_setD) (rule srt_mset)

lemma merged:
  assumes "\<forall>r \<in> set rs. proper r"
  shows "separated (merge_ranges (srt rs))" "\<forall>r \<in> set (merge_ranges (srt rs)). proper r"
    "covered (merge_ranges (srt rs)) = covered rs"
proof -
  have "separated [] \<and> (\<forall>a \<in> set ([] :: load_range list). proper a)"
    by (simp add: separated_def)
  with merge_fold [of "[]" "srt rs"] assms srt_sorted [of rs]
  have *: "separated (merge_ranges (srt rs)) \<and> (\<forall>r \<in> set (merge_ranges (srt rs)). proper r) \<and>
    covered (merge_ranges (srt rs)) = covered (srt rs)"
    by (simp add: merge_ranges_def srt_set)
  have "covered (srt rs) = covered rs"
    by (rule covered_mset) (rule srt_mset)
  with * show "separated (merge_ranges (srt rs))" "\<forall>r \<in> set (merge_ranges (srt rs)). proper r"
    "covered (merge_ranges (srt rs)) = covered rs" by simp_all
qed

lemma merged_aligned:
  "\<forall>r \<in> set rs. page_aligned r \<Longrightarrow> \<forall>r \<in> set (merge_ranges (srt rs)). page_aligned r"
  using merge_fold_aligned [of "[]" "srt rs"] by (simp add: merge_ranges_def srt_set)

end

interpretation start_sort: range_sort "sort_key range_start"
  by unfold_locales simp_all

section \<open>What the ranges cover\<close>

lemma page_hull_proper: "page_hull sg r \<Longrightarrow> vmsize sg \<noteq> 0 \<Longrightarrow> proper r"
  by (auto simp: page_hull_def proper_def word_less_nat_alt unat_gt_0 [symmetric])

lemma page_hull_aligned: "page_hull sg r \<Longrightarrow> page_aligned r"
  by (simp add: page_hull_def page_aligned_def)

lemma load_ranges_proper:
  assumes "load_ranges sgs = Ok rs"
  shows "\<forall>r \<in> set rs. proper r \<and> page_aligned r"
proof
  fix r
  assume "r \<in> set rs"
  with load_ranges_Ok [OF assms] obtain sg where "sg \<in> set (present sgs)" "page_hull sg r"
    by (auto simp: list_all2_conv_all_nth in_set_conv_nth) (metis nth_mem)
  then show "proper r \<and> page_aligned r"
    using page_hull_proper page_hull_aligned by (auto simp: present_def)
qed

text \<open>A loaded segment does not wrap around and lies in the pages of its range.\<close>

lemma load_ranges_segment:
  assumes "load_ranges sgs = Ok rs" "sg \<in> set sgs" "vmsize sg \<noteq> 0"
  shows "unat (vmaddr sg) + unat (vmsize sg) < 2 ^ 64"
    "region (vmaddr sg) (unat (vmsize sg)) \<subseteq> covered rs"
proof -
  from assms have "sg \<in> set (present sgs)" by (simp add: present_def)
  with load_ranges_Ok [OF assms(1)] obtain r where r: "r \<in> set rs" and h: "page_hull sg r"
    by (auto simp: list_all2_conv_all_nth in_set_conv_nth) blast
  from h unat_bound [of "range_end r"] show nw: "unat (vmaddr sg) + unat (vmsize sg) < 2 ^ 64"
    by (simp add: page_hull_def)
  show "region (vmaddr sg) (unat (vmsize sg)) \<subseteq> covered rs"
  proof
    fix x
    assume "x \<in> region (vmaddr sg) (unat (vmsize sg))"
    with nw h have "range_start r \<le> x" "x < range_end r"
      by (auto simp: region_interval page_hull_def word_le_nat_alt word_less_nat_alt)
    with r show "x \<in> covered rs" by (auto simp: covered_def)
  qed
qed

text \<open>C20: the page ranges the loader asks the firmware for are what the image needs and no more:
  after sorting and merging they are page-aligned, non-empty, ascending with a gap between
  neighbours (so no page is requested twice), together they cover exactly the union of the
  segments' page hulls, and every byte of every non-empty segment is in them. A layout whose
  rounded end passes the top of the address space is rejected with \<open>LOAD_ERROR\<close>.\<close>

theorem merged_ranges_cover:
  assumes "range_sort srt"
  shows "case load_ranges sgs of
      Ok rs \<Rightarrow> separated (merge_ranges (srt rs)) \<and>
        list_all (\<lambda>r. proper r \<and> page_aligned r) (merge_ranges (srt rs)) \<and>
        covered (merge_ranges (srt rs)) = covered rs \<and>
        list_all2 page_hull (present sgs) rs \<and>
        (\<Union>sg \<in> set sgs. region (vmaddr sg) (unat (vmsize sg))) \<subseteq> covered (merge_ranges (srt rs))
    | Err e \<Rightarrow> e = LOAD_ERROR \<and>
        (\<exists>sg \<in> set sgs. 2 ^ 64 \<le> unat (vmaddr sg) + unat (vmsize sg) + 4095)
    | Panic \<Rightarrow> False
    | Diverge \<Rightarrow> False"
proof (cases "load_ranges sgs")
  case (Ok rs)
  note p = load_ranges_proper [OF Ok]
  from p have pr: "\<forall>r \<in> set rs. proper r" and al: "\<forall>r \<in> set rs. page_aligned r" by auto
  note m = range_sort.merged [OF assms pr] range_sort.merged_aligned [OF assms al]
  have "(\<Union>sg \<in> set sgs. region (vmaddr sg) (unat (vmsize sg))) \<subseteq> covered rs"
  proof
    fix x
    assume "x \<in> (\<Union>sg \<in> set sgs. region (vmaddr sg) (unat (vmsize sg)))"
    then obtain sg where sg: "sg \<in> set sgs" "x \<in> region (vmaddr sg) (unat (vmsize sg))" by blast
    then have "vmsize sg \<noteq> 0" by (auto simp: region_def)
    with load_ranges_segment(2) [OF Ok sg(1)] sg(2) show "x \<in> covered rs" by blast
  qed
  with m load_ranges_Ok [OF Ok] show ?thesis by (simp add: Ok list_all_iff)
qed (use load_ranges_returns [of sgs] in auto)

definition sample_segment :: "u64 \<Rightarrow> u64 \<Rightarrow> bytes \<Rightarrow> mach_segment" where
  "sample_segment a n d = \<lparr>seg_name = None, vmaddr = a, vmsize = n, fileoff = 0,
     filesize = word_of_nat (length d), seg_data = d\<rparr>"

definition sample_kernel :: "mach_segment list" where
  "sample_kernel = [sample_segment 0x3000 0x20 [7], sample_segment 0x1000 0x10 [1, 2],
     sample_segment 0x1800 0x810 [3]]"

lemma sample_kernel_ranges:
  "load_ranges sample_kernel =
     Ok [\<lparr>range_start = 0x3000, range_end = 0x4000\<rparr>, \<lparr>range_start = 0x1000, range_end = 0x2000\<rparr>,
         \<lparr>range_start = 0x1000, range_end = 0x3000\<rparr>]"
  by (simp add: sample_kernel_def sample_segment_def align_down_def align_up_def PAGE_SIZE_u64_def
      checked_add_def)

lemma sample_kernel_merged:
  "merge_ranges (sort_key range_start [\<lparr>range_start = 0x3000, range_end = 0x4000\<rparr>,
     \<lparr>range_start = 0x1000, range_end = 0x2000\<rparr>, \<lparr>range_start = 0x1000, range_end = 0x3000\<rparr>]) =
   [\<lparr>range_start = 0x1000, range_end = 0x4000\<rparr>]"
  by (simp add: merge_ranges_def merge_step_def)

theorem merged_ranges_cover_witness:
  "range_sort (sort_key range_start) \<and>
   (\<Union>sg \<in> set sample_kernel. region (vmaddr sg) (unat (vmsize sg))) \<subseteq>
     covered [\<lparr>range_start = 0x1000, range_end = 0x4000\<rparr>]"
  using merged_ranges_cover [OF start_sort.range_sort_axioms, of sample_kernel]
    start_sort.range_sort_axioms
  unfolding sample_kernel_ranges res.case sample_kernel_merged by blast

section \<open>Allocation and copy\<close>

text \<open>Firmware that keeps a record of every page request and its answer; the loader code is the
  same for every firmware, so what holds here holds of the real one.\<close>

type_synonym grant = "allocate_type \<times> memory_type \<times> nat \<times> (u64, status) res"

definition logged :: "'fw alloc_fn \<Rightarrow> ('fw \<times> grant list) alloc_fn" where
  "logged alloc ty mt n = (\<lambda>(f, lg).
     let (r, f') = alloc ty mt n f in (r, (f', lg @ [(ty, mt, n, r)])))"

definition granted :: "grant list \<Rightarrow> u64 set" where
  "granted lg = {x. \<exists>st n p. (Address st, LOADER_CODE, n, Ok p) \<in> set lg \<and>
     x \<in> region st (n * PAGE_SIZE)}"

lemma granted_append: "granted lg \<subseteq> granted (lg @ lg')"
  by (auto simp: granted_def)

lemma unat_div_ceil_page: "unat sz \<le> unat (div_ceil_u64 sz PAGE_SIZE_u64) * 4096"
proof -
  have d: "unat (sz div PAGE_SIZE_u64) = unat sz div 4096"
    "unat (sz mod PAGE_SIZE_u64) = unat sz mod 4096"
    by (simp_all add: PAGE_SIZE_u64_def unat_div_distrib unat_mod_distrib)
  have "unat (sz div PAGE_SIZE_u64) + unat (1 :: u64) < 2 ^ 64"
    using unat_bound [of sz] by (simp add: d)
  then have up: "unat (sz div PAGE_SIZE_u64 + 1) = unat sz div 4096 + 1"
    using unat_add_nowrap [of "sz div PAGE_SIZE_u64" 1] by (simp add: d)
  have zero: "sz mod PAGE_SIZE_u64 = 0 \<longleftrightarrow> unat sz mod 4096 = 0"
    by (simp only: word_unat_eq_iff d unat_0)
  have e: "unat sz div 4096 * 4096 + unat sz mod 4096 = unat sz" and l: "unat sz mod 4096 < 4096"
    by (rule div_mult_mod_eq) simp
  show ?thesis
  proof (cases "sz mod PAGE_SIZE_u64 = 0")
    case True
    then have "unat (div_ceil_u64 sz PAGE_SIZE_u64) = unat sz div 4096"
      by (simp only: div_ceil_u64_def if_True d refl)
    with True zero e show ?thesis by linarith
  next
    case False
    then have "unat (div_ceil_u64 sz PAGE_SIZE_u64) = unat sz div 4096 + 1"
      by (simp only: div_ceil_u64_def if_False up)
    with e l show ?thesis by linarith
  qed
qed

lemma region_range:
  "proper r \<Longrightarrow> region (range_start r) (unat (range_end r - range_start r)) = covered [r]"
proof -
  assume "proper r"
  then have le: "range_start r \<le> range_end r" by (simp add: proper_def)
  then have "unat (range_start r) + unat (range_end r - range_start r) = unat (range_end r)"
    by (simp add: unat_sub_le word_le_nat_alt)
  with unat_bound [of "range_end r"] show ?thesis
    by (auto simp: region_interval covered_def word_le_nat_alt word_less_nat_alt)
qed

text \<open>What one range does: its pages are requested at its own address; only a positive answer is
  followed by the zero fill of exactly the range.\<close>

lemma allocate_range_run:
  assumes "proper r"
  shows "allocate_range alloc r s =
    (let n = unat (div_ceil_u64 (range_end r - range_start r) PAGE_SIZE_u64);
         (res, g) = alloc (Address (range_start r)) LOADER_CODE n (fw s)
     in case res of
          Ok _ \<Rightarrow> (Ok (), s\<lparr>fw := g, mem := (\<lambda>x. if x \<in> covered [r] then 0 else mem s x)\<rparr>)
        | Err e \<Rightarrow> (Err e, s\<lparr>fw := g\<rparr>)
        | Panic \<Rightarrow> (Panic, s\<lparr>fw := g\<rparr>)
        | Diverge \<Rightarrow> (Diverge, s\<lparr>fw := g\<rparr>))"
proof -
  have "checked_sub (range_end r) (range_start r) = Some (range_end r - range_start r)"
    using assms by (simp add: checked_sub_def proper_def)
  moreover have "mem_fill (range_start r) 0 (unat (range_end r - range_start r)) m =
      (\<lambda>x. if x \<in> covered [r] then 0 else m x)" for m
    unfolding region_range [OF assms, symmetric] mem_fill_def region_def by simp
  ultimately show ?thesis
    by (simp add: allocate_range_def allocate_pages_def boot_fw_def boot_mem_def boot_res_def
        Let_def split: prod.splits res.splits del: covered_simps)
qed

lemma allocate_range_granted:
  assumes pr: "proper r" and run: "allocate_range (logged alloc) r s = (res, s')"
  shows "\<exists>lg. snd (fw s') = snd (fw s) @ lg"
    "\<And>x. mem s' x \<noteq> mem s x \<Longrightarrow> x \<in> granted (snd (fw s'))"
    "res = Ok u \<Longrightarrow> covered [r] \<subseteq> granted (snd (fw s')) \<and>
       mem s' = (\<lambda>x. if x \<in> covered [r] then 0 else mem s x)"
proof -
  obtain f lg where fw: "fw s = (f, lg)" by (cases "fw s")
  define n where "n = unat (div_ceil_u64 (range_end r - range_start r) PAGE_SIZE_u64)"
  obtain a f' where a: "alloc (Address (range_start r)) LOADER_CODE n f = (a, f')"
    by (cases "alloc (Address (range_start r)) LOADER_CODE n f")
  define lg' where "lg' = lg @ [(Address (range_start r), LOADER_CODE, n, a)]"
  have log: "logged alloc (Address (range_start r)) LOADER_CODE n (f, lg) = (a, (f', lg'))"
    by (simp add: logged_def a lg'_def)
  have cov: "covered [r] \<subseteq> region (range_start r) (n * PAGE_SIZE)"
    unfolding region_range [OF pr, symmetric] PAGE_SIZE_def
    by (rule region_mono) (simp add: n_def unat_div_ceil_page)
  have gr: "covered [r] \<subseteq> granted lg'" if "a = Ok p" for p
    using cov that by (auto simp: granted_def lg'_def simp del: covered_simps)
  from run have run': "(res, s') = (case a of
          Ok _ \<Rightarrow> (Ok (), s\<lparr>fw := (f', lg'), mem := (\<lambda>x. if x \<in> covered [r] then 0 else mem s x)\<rparr>)
        | Err e \<Rightarrow> (Err e, s\<lparr>fw := (f', lg')\<rparr>)
        | Panic \<Rightarrow> (Panic, s\<lparr>fw := (f', lg')\<rparr>)
        | Diverge \<Rightarrow> (Diverge, s\<lparr>fw := (f', lg')\<rparr>))"
    by (simp only: allocate_range_run [OF pr] Let_def n_def [symmetric] fw log prod.case)
  show "\<exists>lg. snd (fw s') = snd (fw s) @ lg"
    using run' by (cases a) (simp_all add: fw lg'_def)
  show "\<And>x. mem s' x \<noteq> mem s x \<Longrightarrow> x \<in> granted (snd (fw s'))"
    using run' gr by (cases a) (auto split: if_splits simp del: covered_simps)
  show "res = Ok u \<Longrightarrow> covered [r] \<subseteq> granted (snd (fw s')) \<and>
       mem s' = (\<lambda>x. if x \<in> covered [r] then 0 else mem s x)"
    using run' gr by (cases a) (auto simp del: covered_simps)
qed

lemma allocate_ranges_granted:
  assumes "\<forall>r \<in> set rs. proper r" "allocate_ranges (logged alloc) rs s = (res, s')"
  shows "(\<exists>lg. snd (fw s') = snd (fw s) @ lg) \<and>
    (\<forall>x. mem s' x \<noteq> mem s x \<longrightarrow> x \<in> granted (snd (fw s'))) \<and>
    (res = Ok () \<longrightarrow> covered rs \<subseteq> granted (snd (fw s')) \<and>
       mem s' = (\<lambda>x. if x \<in> covered rs then 0 else mem s x))"
  using assms
proof (induction rs arbitrary: s)
  case Nil
  then show ?case by (auto simp: boot_res_def)
next
  case (Cons r rs)
  obtain a s1 where a: "allocate_range (logged alloc) r s = (a, s1)"
    by (cases "allocate_range (logged alloc) r s")
  have pr: "proper r" and prs: "\<forall>r \<in> set rs. proper r" using Cons.prems(1) by auto
  note one = allocate_range_granted [OF pr a]
  show ?case
  proof (cases a)
    case (Ok u)
    with Cons.prems(2) a have "allocate_ranges (logged alloc) rs s1 = (res, s')" by simp
    note ih = Cons.IH [OF prs this]
    from one(1) ih obtain l1 l2 where
      l: "snd (fw s1) = snd (fw s) @ l1" "snd (fw s') = snd (fw s1) @ l2" by blast
    with granted_append have g: "granted (snd (fw s1)) \<subseteq> granted (snd (fw s'))" by metis
    have c: "covered (r # rs) = covered [r] \<union> covered rs" by simp
    have "mem s' x \<noteq> mem s x \<longrightarrow> x \<in> granted (snd (fw s'))" for x
    proof (cases "mem s1 x = mem s x")
      case True
      then show ?thesis using ih by simp
    next
      case False
      from one(2) [OF this] g show ?thesis by blast
    qed
    moreover have "res = Ok () \<longrightarrow> covered (r # rs) \<subseteq> granted (snd (fw s')) \<and>
       mem s' = (\<lambda>x. if x \<in> covered (r # rs) then 0 else mem s x)"
    proof
      assume "res = Ok ()"
      with ih have i: "covered rs \<subseteq> granted (snd (fw s'))"
        "mem s' = (\<lambda>x. if x \<in> covered rs then 0 else mem s1 x)" by simp_all
      have o: "covered [r] \<subseteq> granted (snd (fw s1))"
        "mem s1 = (\<lambda>x. if x \<in> covered [r] then 0 else mem s x)" using one(3) [OF Ok] by simp_all
      have "covered (r # rs) \<subseteq> granted (snd (fw s'))" unfolding c using i(1) o(1) g by blast
      moreover have "mem s' = (\<lambda>x. if x \<in> covered (r # rs) then 0 else mem s x)"
      proof
        fix x
        show "mem s' x = (if x \<in> covered (r # rs) then 0 else mem s x)"
          unfolding c i(2) o(2) by (cases "x \<in> covered rs"; cases "x \<in> covered [r]") simp_all
      qed
      ultimately show "covered (r # rs) \<subseteq> granted (snd (fw s')) \<and>
        mem s' = (\<lambda>x. if x \<in> covered (r # rs) then 0 else mem s x)" ..
    qed
    moreover have "\<exists>lg. snd (fw s') = snd (fw s) @ lg" using l by simp
    ultimately show ?thesis by blast
  next
    case (Err e)
    with Cons.prems(2) a have "res = Err e" "s' = s1" by auto
    with one show ?thesis by auto
  next
    case Panic
    with Cons.prems(2) a have "res = Panic" "s' = s1" by auto
    with one show ?thesis by auto
  next
    case Diverge
    with Cons.prems(2) a have "res = Diverge" "s' = s1" by auto
    with one show ?thesis by auto
  qed
qed

text \<open>The bytes a segment's copy writes.\<close>

definition seg_bytes :: "mach_segment \<Rightarrow> bytes" where
  "seg_bytes sg = (if filesize sg = 0 then [] else seg_data sg)"

lemma load_segments_run:
  "load_segments sgs s =
     (Ok (), s\<lparr>mem := fold (\<lambda>sg. mem_write (vmaddr sg) (seg_bytes sg)) sgs (mem s)\<rparr>)"
proof (induction sgs arbitrary: s)
  case Nil
  then show ?case by (simp add: boot_res_def)
next
  case (Cons sg sgs)
  then show ?case by (simp add: seg_bytes_def boot_mem_def) (simp add: mem_write_def)
qed

text \<open>The linker's promise about a kernel image: no segment has more file bytes than memory, and
  no two segments overlap.\<close>

definition fits :: "mach_segment \<Rightarrow> bool" where
  "fits sg \<longleftrightarrow> length (seg_bytes sg) \<le> unat (vmsize sg)"

definition seg_region :: "mach_segment \<Rightarrow> u64 set" where
  "seg_region sg = region (vmaddr sg) (unat (vmsize sg))"

definition apart :: "mach_segment list \<Rightarrow> bool" where
  "apart sgs \<longleftrightarrow> sorted_wrt (\<lambda>a b. seg_region a \<inter> seg_region b = {}) sgs"

lemma written_in_segment:
  "fits sg \<Longrightarrow> region (vmaddr sg) (length (seg_bytes sg)) \<subseteq> seg_region sg"
  unfolding fits_def seg_region_def by (rule region_mono)

lemma fold_writes_segment:
  assumes "apart sgs" "\<forall>sg \<in> set sgs. fits sg" "sg \<in> set sgs" "x \<in> seg_region sg"
  shows "fold (\<lambda>sg. mem_write (vmaddr sg) (seg_bytes sg)) sgs m x =
    mem_write (vmaddr sg) (seg_bytes sg) m x"
  using assms fold_writes_unique [of vmaddr "\<lambda>sg. unat (vmsize sg)" sgs seg_bytes sg x m]
  by (simp add: apart_def fits_def seg_region_def)

text \<open>The calls of \<open>load_and_jump_to_kernel\<close> that put the image into memory.\<close>

definition place_image ::
  "(load_range list \<Rightarrow> load_range list) \<Rightarrow> 'fw alloc_fn \<Rightarrow> mach_o \<Rightarrow> (unit, 'fw) boot" where
  "place_image srt alloc macho =
     boot_then (allocate_load_ranges srt alloc macho) (\<lambda>_. load_segments (segments macho))"

lemma allocate_ranges_mem:
  assumes "\<forall>r \<in> set rs. proper r" "allocate_ranges alloc rs s = (Ok (), s')"
  shows "mem s' = (\<lambda>x. if x \<in> covered rs then 0 else mem s x)"
  using assms
proof (induction rs arbitrary: s)
  case Nil
  then show ?case by (auto simp: boot_res_def)
next
  case (Cons r rs)
  from Cons.prems(2) obtain u s1 where
    one: "allocate_range alloc r s = (Ok u, s1)" and rest: "allocate_ranges alloc rs s1 = (Ok (), s')"
    by (auto dest!: boot_then_OkD simp del: boot_then.simps)
  have pr: "proper r" "\<forall>r \<in> set rs. proper r" using Cons.prems(1) by auto
  have m1: "mem s1 = (\<lambda>x. if x \<in> covered [r] then 0 else mem s x)"
    using one unfolding allocate_range_run [OF pr(1)] Let_def
    by (auto split: prod.splits res.splits simp del: covered_simps)
  have c: "covered (r # rs) = covered [r] \<union> covered rs" by simp
  show ?case
  proof
    fix x
    show "mem s' x = (if x \<in> covered (r # rs) then 0 else mem s x)"
      unfolding Cons.IH [OF pr(2) rest] m1 c
      by (cases "x \<in> covered rs"; cases "x \<in> covered [r]") simp_all
  qed
qed

lemma place_image_cases:
  assumes "place_image srt alloc macho s = (res, s')"
  obtains (rejected) "s' = s" "res \<noteq> Ok ()"
  | (stopped) rs where "load_ranges (segments macho) = Ok rs"
      "allocate_ranges alloc (merge_ranges (srt rs)) s = (res, s')" "res \<noteq> Ok ()"
  | (placed) rs s1 where "load_ranges (segments macho) = Ok rs"
      "allocate_ranges alloc (merge_ranges (srt rs)) s = (Ok (), s1)"
      "s' = s1\<lparr>mem := fold (\<lambda>sg. mem_write (vmaddr sg) (seg_bytes sg)) (segments macho) (mem s1)\<rparr>"
      "res = Ok ()"
proof (cases "load_ranges (segments macho)")
  case (Ok rs)
  obtain r1 s1 where a: "allocate_ranges alloc (merge_ranges (srt rs)) s = (r1, s1)"
    by (cases "allocate_ranges alloc (merge_ranges (srt rs)) s")
  show ?thesis
  proof (cases "r1 = Ok ()")
    case True
    then have "res = Ok ()"
      "s' = s1\<lparr>mem := fold (\<lambda>sg. mem_write (vmaddr sg) (seg_bytes sg)) (segments macho) (mem s1)\<rparr>"
      using assms by (simp_all add: place_image_def allocate_load_ranges_def Ok a boot_res_def
          load_segments_run)
    with placed [OF Ok] a True show ?thesis by blast
  next
    case False
    then have "res = r1 \<and> s' = s1"
      using assms by (cases r1) (simp_all add: place_image_def allocate_load_ranges_def Ok a
          boot_res_def)
    with stopped [OF Ok] a False show ?thesis by blast
  qed
qed (use assms rejected in \<open>auto simp: place_image_def allocate_load_ranges_def boot_res_def\<close>)

text \<open>C11: the loader writes only to memory the firmware granted it. Whatever the firmware answers,
  and however the load ends, every byte of physical memory that placing the kernel image changed
  lies in pages that a successful \<open>allocate_pages\<close> at that very address returned, provided no
  segment has more file data than memory size.\<close>

theorem place_image_granted:
  assumes "range_sort srt" "list_all fits (segments macho)"
    and "place_image srt (logged alloc) macho s = (res, s')"
  shows "{x. mem s' x \<noteq> mem s x} \<subseteq> granted (snd (fw s'))"
  using assms(3)
proof (cases rule: place_image_cases)
  case rejected
  then show ?thesis by simp
next
  case (stopped rs)
  have "\<forall>r \<in> set (merge_ranges (srt rs)). proper r"
    using range_sort.merged(2) [OF assms(1)] load_ranges_proper [OF stopped(1)] by blast
  from allocate_ranges_granted [OF this stopped(2)] show ?thesis by blast
next
  case (placed rs s1)
  have pr: "\<forall>r \<in> set rs. proper r" using load_ranges_proper [OF placed(1)] by blast
  note m = range_sort.merged [OF assms(1) pr]
  note a = allocate_ranges_granted [OF m(2) placed(2)]
  show ?thesis
  proof
    fix x
    assume "x \<in> {x. mem s' x \<noteq> mem s x}"
    then have x: "mem s' x \<noteq> mem s x" by simp
    have fw: "fw s' = fw s1" by (simp add: placed(3))
    show "x \<in> granted (snd (fw s'))"
    proof (cases "mem s1 x = mem s x")
      case False
      with a fw show ?thesis by simp
    next
      case True
      with x obtain sg where sg: "sg \<in> set (segments macho)"
        "x \<in> region (vmaddr sg) (length (seg_bytes sg))"
        using fold_writes_out [of "segments macho" x vmaddr seg_bytes "mem s1"] placed(3) by auto
      then have "x \<in> seg_region sg"
        using written_in_segment [of sg] assms(2) by (auto simp: list_all_iff)
      moreover from this have "vmsize sg \<noteq> 0" by (auto simp: seg_region_def region_def)
      ultimately have "x \<in> covered rs"
        using load_ranges_segment(2) [OF placed(1) sg(1)] by (auto simp: seg_region_def)
      with a m(3) fw show ?thesis by auto
    qed
  qed
qed

lemma placed_image_contents:
  assumes "range_sort srt" "list_all fits (segments macho)" "apart (segments macho)"
    and "place_image srt alloc macho s = (Ok (), s')"
  shows "(\<forall>sg \<in> set (segments macho). mem_slice (mem s') (vmaddr sg) (unat (vmsize sg)) =
      seg_bytes sg @ replicate (unat (vmsize sg) - length (seg_bytes sg)) 0) \<and>
    (\<exists>rs. load_ranges (segments macho) = Ok rs \<and> {x. mem s' x \<noteq> mem s x} \<subseteq> covered rs)"
  using assms(4)
proof (cases rule: place_image_cases)
  case (placed rs s1)
  have pr: "\<forall>r \<in> set rs. proper r" using load_ranges_proper [OF placed(1)] by blast
  note m = range_sort.merged [OF assms(1) pr]
  have m1: "mem s1 = (\<lambda>x. if x \<in> covered rs then 0 else mem s x)"
    using allocate_ranges_mem [OF m(2) placed(2)] by (simp only: m(3))
  have fits: "\<forall>sg \<in> set (segments macho). fits sg" using assms(2) by (simp add: list_all_iff)
  have "mem_slice (mem s') (vmaddr sg) (unat (vmsize sg)) =
      seg_bytes sg @ replicate (unat (vmsize sg) - length (seg_bytes sg)) 0"
    if sg: "sg \<in> set (segments macho)" for sg
  proof (rule slice_after_write)
    show "unat (vmsize sg) \<le> 2 ^ 64" using unat_bound [of "vmsize sg"] by simp
    show "length (seg_bytes sg) \<le> unat (vmsize sg)" using fits sg by (simp add: fits_def)
    fix x
    assume x: "x \<in> region (vmaddr sg) (unat (vmsize sg))"
    then have "mem s' x = mem_write (vmaddr sg) (seg_bytes sg) (mem s1) x"
      using fold_writes_segment [OF assms(3) fits sg, of x] by (simp add: placed(3) seg_region_def)
    moreover have "x \<in> covered rs"
      using load_ranges_segment(2) [OF placed(1) sg] x
      by (cases "vmsize sg = 0") (auto simp: region_def)
    ultimately show "mem s' x = mem_write (vmaddr sg) (seg_bytes sg) (\<lambda>x. 0) x"
      by (simp add: m1 mem_write_def)
  qed
  moreover have "x \<in> covered rs" if "mem s' x \<noteq> mem s x" for x
  proof (rule ccontr)
    assume x: "x \<notin> covered rs"
    have "x \<notin> region (vmaddr sg) (length (seg_bytes sg))" if sg: "sg \<in> set (segments macho)" for sg
      using x load_ranges_segment(2) [OF placed(1) sg] fits sg written_in_segment [of sg]
      by (cases "vmsize sg = 0") (auto simp: seg_region_def region_def)
    with x that show False by (simp add: placed(3) fold_writes_out m1)
  qed
  ultimately show ?thesis using placed(1) by blast
qed (use assms(4) in simp_all)


text \<open>Firmware that grants every request at the address asked for.\<close>

definition grant_all :: "unit alloc_fn" where
  "grant_all ty mt n f = (case ty of Address a \<Rightarrow> (Ok a, f) | AnyPages \<Rightarrow> (Ok 0x100000, f))"

definition sample_macho :: mach_o where
  "sample_macho = \<lparr>segments = sample_kernel, load_commands = [], entry = 0x1000\<rparr>"

definition sample_boot :: "'fw \<Rightarrow> 'fw bstate" where
  "sample_boot f = \<lparr>fw = f, mem = (\<lambda>_. 0xFF), cache_ops = [], args_store = Map.empty\<rparr>"

lemma sample_apart: "apart (segments sample_macho)"
proof -
  have "region 0x3000 32 \<inter> region 0x1000 16 = {}" "region 0x3000 32 \<inter> region 0x1800 2064 = {}"
    "region 0x1000 16 \<inter> region 0x1800 2064 = {}"
    by (simp_all add: Int_commute [of "region 0x3000 32"] region_disjoint)
  then show ?thesis
    by (simp add: apart_def sample_macho_def sample_kernel_def sample_segment_def seg_region_def)
qed

lemma sample_fits: "list_all fits (segments sample_macho)"
  by (simp add: sample_macho_def sample_kernel_def sample_segment_def fits_def seg_bytes_def)

lemma sample_range_proper: "proper \<lparr>range_start = 0x1000, range_end = 0x4000\<rparr>"
  by (simp add: proper_def)

lemma sample_placed:
  "fst (place_image (sort_key range_start) grant_all sample_macho (sample_boot ())) = Ok ()"
  "fst (place_image (sort_key range_start) (logged grant_all) sample_macho (sample_boot ((), []))) = Ok ()"
  by (simp_all add: place_image_def allocate_load_ranges_def sample_macho_def sample_kernel_ranges
      boot_res_def merge_ranges_def merge_step_def allocate_range_run [OF sample_range_proper] grant_all_def
      logged_def load_segments_run Let_def sample_boot_def)


theorem place_image_granted_witness:
  "{x. mem (snd (place_image (sort_key range_start) (logged grant_all) sample_macho
       (sample_boot ((), [])))) x \<noteq> 0xFF} \<subseteq> region 0x1000 (3 * PAGE_SIZE)"
proof -
  let ?run = "place_image (sort_key range_start) (logged grant_all) sample_macho (sample_boot ((), []))"
  have "granted (snd (fw (snd ?run))) = region 0x1000 (3 * PAGE_SIZE)"
    by (simp add: place_image_def allocate_load_ranges_def sample_macho_def sample_kernel_ranges
      boot_res_def merge_ranges_def merge_step_def allocate_range_run [OF sample_range_proper] grant_all_def
      logged_def load_segments_run Let_def sample_boot_def granted_def div_ceil_u64_def
      PAGE_SIZE_u64_def)
  with place_image_granted [OF start_sort.range_sort_axioms sample_fits,
      of grant_all "sample_boot ((), [])" "fst ?run" "snd ?run"]
  show ?thesis by (simp add: sample_boot_def)
qed

text \<open>A segment of memory size zero has no part in the page requests, wherever it stands in the image.\<close>

lemma load_ranges_skip: "vmsize sg = 0 \<Longrightarrow> load_ranges (xs @ sg # ys) = load_ranges (xs @ ys)"
  by (induction xs) simp_all

lemma allocate_skip:
  assumes "segments macho = xs @ sg # ys" "vmsize sg = 0"
  shows "allocate_load_ranges srt alloc macho = allocate_load_ranges srt alloc (macho\<lparr>segments := xs @ ys\<rparr>)"
  by (simp add: allocate_load_ranges_def assms load_ranges_skip)

lemma place_image_OkD:
  assumes "place_image srt alloc macho s = (Ok (), s')"
  obtains s1 where "allocate_load_ranges srt alloc macho s = (Ok (), s1)"
    "s' = s1\<lparr>mem := fold (\<lambda>sg. mem_write (vmaddr sg) (seg_bytes sg)) (segments macho) (mem s1)\<rparr>"
proof -
  from assms obtain s1 where "allocate_load_ranges srt alloc macho s = (Ok (), s1)"
    "load_segments (segments macho) s1 = (Ok (), s')"
    unfolding place_image_def by (auto dest!: boot_then_OkD simp del: boot_then.simps)
  then show thesis by (intro that) (auto simp: load_segments_run)
qed

lemma last_write_stays:
  assumes "\<forall>t \<in> set ys. region (vmaddr t) (length (seg_bytes t)) \<inter> region a (length bs) = {}" "length bs \<le> 2 ^ 64"
  shows "mem_slice (fold (\<lambda>sg. mem_write (vmaddr sg) (seg_bytes sg)) ys (mem_write a bs m)) a (length bs) = bs"
proof (rule nth_equalityI)
  fix i
  assume "i < length (mem_slice (fold (\<lambda>sg. mem_write (vmaddr sg) (seg_bytes sg)) ys (mem_write a bs m)) a (length bs))"
  then have i: "i < length bs" by simp
  with assms(2) have "a + word_of_nat i \<in> region a (length bs)" by (intro region_offset) simp_all
  with assms(1) have "\<And>t. t \<in> set ys \<Longrightarrow> a + word_of_nat i \<notin> region (vmaddr t) (length (seg_bytes t))" by blast
  then show "mem_slice (fold (\<lambda>sg. mem_write (vmaddr sg) (seg_bytes sg)) ys (mem_write a bs m)) a (length bs) ! i = bs ! i"
    using i assms(2) by (simp add: fold_writes_out mem_write_at)
qed simp

text \<open>C40: the copy step trusts the image's size fields. Take any image with a segment that has file data but memory
  size zero, its data not overwritten by a later segment. Loading asks the firmware for exactly the pages it
  would ask for if the segment were not there, and the firmware is left as by those requests alone; yet after a
  successful load memory at the segment's address holds the segment's data.\<close>

theorem unallocated_segment_written:
  assumes "segments macho = xs @ sg # ys" "vmsize sg = 0" "filesize sg \<noteq> 0" "length (seg_data sg) \<le> 2 ^ 64"
    and "\<forall>t \<in> set ys. region (vmaddr t) (length (seg_bytes t)) \<inter> region (vmaddr sg) (length (seg_data sg)) = {}"
    and "place_image srt alloc macho s = (Ok (), s')"
  shows "\<exists>s1. allocate_load_ranges srt alloc (macho\<lparr>segments := xs @ ys\<rparr>) s = (Ok (), s1) \<and> fw s' = fw s1 \<and>
    mem_slice (mem s') (vmaddr sg) (length (seg_data sg)) = seg_data sg"
proof -
  obtain s1 where s1: "allocate_load_ranges srt alloc macho s = (Ok (), s1)"
    "s' = s1\<lparr>mem := fold (\<lambda>sg. mem_write (vmaddr sg) (seg_bytes sg)) (segments macho) (mem s1)\<rparr>"
    by (rule place_image_OkD [OF assms(6)])
  have "seg_bytes sg = seg_data sg" using assms(3) by (simp add: seg_bytes_def)
  with last_write_stays [OF assms(5,4)] have "mem_slice (mem s') (vmaddr sg) (length (seg_data sg)) = seg_data sg"
    by (simp add: s1(2) assms(1))
  with s1 show ?thesis by (simp add: allocate_skip [OF assms(1,2)])
qed

text \<open>An image with such a segment only: the load succeeds without one page request, and the byte at 0x5000 changes.\<close>

definition unbacked_macho :: mach_o where
  "unbacked_macho = \<lparr>segments = [] @ sample_segment 0x5000 0 [9] # [], load_commands = [], entry = 0x5000\<rparr>"

theorem unallocated_segment_written_witness:
  "let s' = snd (place_image (sort_key range_start) (logged grant_all) unbacked_macho (sample_boot ((), [])))
   in granted (snd (fw s')) = {} \<and> mem (sample_boot ((), [])) 0x5000 = 0xFF \<and> mem_slice (mem s') 0x5000 1 = [9]"
proof -
  let ?run = "place_image (sort_key range_start) (logged grant_all) unbacked_macho (sample_boot ((), []))"
  have ok: "fst ?run = Ok ()"
    by (simp add: place_image_def allocate_load_ranges_def unbacked_macho_def boot_res_def sample_segment_def
      merge_ranges_def boot_mem_def)
  then have run: "place_image (sort_key range_start) (logged grant_all) unbacked_macho (sample_boot ((), [])) = (Ok (), snd ?run)"
    by (metis prod.collapse)
  have "segments unbacked_macho = [] @ sample_segment 0x5000 0 [9] # []" by (simp add: unbacked_macho_def)
  from unallocated_segment_written [OF this _ _ _ _ run]
  have "allocate_load_ranges (sort_key range_start) (logged grant_all) (unbacked_macho\<lparr>segments := []\<rparr>) (sample_boot ((), [])) =
      (Ok (), sample_boot ((), [])) \<Longrightarrow> fw (snd ?run) = fw (sample_boot ((), [])) \<and> mem_slice (mem (snd ?run)) 0x5000 1 = [9]"
    by (auto simp: sample_segment_def)
  moreover have "allocate_load_ranges (sort_key range_start) (logged grant_all) (unbacked_macho\<lparr>segments := []\<rparr>) (sample_boot ((), [])) =
      (Ok (), sample_boot ((), []))"
    by (simp add: allocate_load_ranges_def boot_res_def merge_ranges_def)
  ultimately show ?thesis by (simp add: sample_boot_def granted_def)
qed

section \<open>Cache maintenance\<close>

lemma cache_lines_sat: "cache_lines (- 1) e = []"
  by (subst cache_lines.simps) simp

lemma unat_cache_step:
  "unat addr + 64 < 2 ^ 64 \<Longrightarrow> unat (saturating_add addr CACHE_LINE) = unat addr + 64"
  by (simp add: unat_saturating_add CACHE_LINE_def)

lemma cache_step_sat: "2 ^ 64 \<le> unat addr + 64 \<Longrightarrow> saturating_add addr CACHE_LINE = - 1"
  by (simp add: saturating_add_def CACHE_LINE_def)

lemma multiple_gap:
  fixes a b k :: nat
  assumes "k dvd a" "k dvd b" "a < b"
  shows "a + k \<le> b"
  using dvd_imp_le [of k "b - a"] assms by (simp add: dvd_diff_nat)

lemma line_after:
  assumes "unat addr + 64 < 2 ^ 64" "64 dvd unat addr" "64 dvd unat (a :: u64)"
  shows "addr < a \<longleftrightarrow> saturating_add addr CACHE_LINE \<le> a"
  unfolding word_less_nat_alt word_le_nat_alt unat_cache_step [OF assms(1)]
  using multiple_gap [OF assms(2,3)] by linarith

lemma last_line:
  assumes "2 ^ 64 \<le> unat addr + 64" "64 dvd unat addr" "64 dvd unat (a :: u64)" "addr \<le> a"
  shows "a = addr"
proof -
  have "\<not> unat addr < unat a"
    using multiple_gap [OF assms(2,3)] assms(1) unat_bound [of a] by auto
  with assms(4) show ?thesis by (simp add: word_le_nat_alt word_unat_eq_iff)
qed

lemma cache_lines_spec:
  assumes "64 dvd unat addr"
  shows "set (cache_lines addr e) = {a. 64 dvd unat a \<and> addr \<le> a \<and> a < e} \<and>
   sorted_wrt (<) (cache_lines addr e)"
  using assms
proof (induction addr e rule: cache_lines.induct)
  case (1 addr e)
  define nx where "nx = saturating_add addr CACHE_LINE"
  consider "\<not> addr < e" | "addr < e" "unat addr + 64 < 2 ^ 64" | "addr < e" "2 ^ 64 \<le> unat addr + 64"
    by linarith
  then show ?case
  proof cases
    case 1
    then have "cache_lines addr e = []" by (subst cache_lines.simps) simp
    with 1 show ?thesis by auto
  next
    case 2
    have un: "cache_lines addr e = addr # cache_lines nx e"
      using 2(1) by (subst cache_lines.simps) (simp add: nx_def)
    have u: "unat nx = unat addr + 64" unfolding nx_def by (rule unat_cache_step [OF 2(2)])
    then have "64 dvd unat nx" using "1.prems" by simp
    with "1.IH" [OF 2(1)] have ih: "set (cache_lines nx e) = {a. 64 dvd unat a \<and> nx \<le> a \<and> a < e}"
      "sorted_wrt (<) (cache_lines nx e)" by (simp_all add: nx_def)
    have lt: "\<And>a. 64 dvd unat a \<Longrightarrow> addr < a \<longleftrightarrow> nx \<le> a"
      unfolding nx_def using line_after [OF 2(2) "1.prems"] by blast
    then have "{a. 64 dvd unat a \<and> addr \<le> a \<and> a < e} =
        insert addr {a. 64 dvd unat a \<and> nx \<le> a \<and> a < e}"
      unfolding order_le_less [of addr] using 2(1) "1.prems" by blast
    moreover have "\<forall>a \<in> set (cache_lines nx e). addr < a" using lt ih(1) by blast
    ultimately show ?thesis using ih by (simp add: un)
  next
    case 3
    have "nx = - 1" unfolding nx_def by (rule cache_step_sat [OF 3(2)])
    then have un: "cache_lines addr e = [addr]"
      using 3(1) by (subst cache_lines.simps) (simp add: nx_def cache_lines_sat)
    have "{a. 64 dvd unat a \<and> addr \<le> a \<and> a < e} = {addr}"
      using last_line [OF 3(2) "1.prems"] 3(1) "1.prems" by blast
    then show ?thesis by (simp add: un)
  qed
qed

lemma unat_line: "unat (y AND NOT 63 :: u64) = 64 * (unat y div 64)"
proof -
  have "(63 :: u64) = mask 6" by (simp add: mask_numeral)
  then show ?thesis by (simp only: unat_and_not_mask sub_mod_eq_mult_div) simp
qed

text \<open>The lines from the line of \<open>st\<close> on include the line of every byte of the range.\<close>

lemma cache_lines_cover:
  fixes st x len :: u64
  assumes x: "unat st \<le> unat x" "unat x < unat st + unat len"
  shows "x AND NOT 63 \<in> set (cache_lines (st AND NOT 63) (saturating_add st len))"
proof -
  let ?e = "saturating_add st len" and ?a = "st AND NOT 63"
  note l = unat_line
  have "?a \<le> x AND NOT 63"
    using div_le_mono [OF x(1), of 64] by (simp only: word_le_nat_alt l)
  moreover have "x AND NOT 63 < ?e"
  proof -
    have "64 * (unat x div 64) \<le> unat x" by simp
    moreover have "unat x div 64 < 2 ^ 58" using unat_bound [of x] by (simp add: less_mult_imp_div_less)
    ultimately have "64 * (unat x div 64) < min (unat st + unat len) (2 ^ 64 - 1)"
      using x(2) by simp
    then show ?thesis unfolding word_less_nat_alt l unat_saturating_add by simp
  qed
  ultimately have "x AND NOT 63 \<in> {a. 64 dvd unat a \<and> ?a \<le> a \<and> a < ?e}"
    by (simp only: mem_Collect_eq l dvd_triv_left simp_thms)
  moreover have "64 dvd unat ?a" by (simp only: l dvd_triv_left)
  ultimately show ?thesis using cache_lines_spec [of ?a ?e] by blast
qed

lemma cache_lines_sorted: "sorted_wrt (<) (cache_lines (st AND NOT 63) e)"
proof -
  have "64 dvd unat (st AND NOT 63)" by (simp only: unat_line dvd_triv_left)
  then show ?thesis using cache_lines_spec by blast
qed

text \<open>C29: cache maintenance after the copy covers the whole image in the right order: the
  operations are a clean of each line, a barrier, an invalidation of the same lines, and the final
  barriers; the 64-byte lines are distinct and ascending and include the line of every byte of
  the range, also for a range that ends at the top of the address space (where the loop
  counter saturates). Every loop ends.\<close>

theorem cache_maintenance_covers:
  "\<exists>lines. clean_dcache_invalidate_icache st (unat (len :: u64)) =
       map DC_CVAU lines @ [DSB_ISH] @ map IC_IVAU lines @ [DSB_ISH, ISB] \<and>
     sorted_wrt (<) lines \<and>
     (\<lambda>x. x AND NOT 63) ` {x. unat st \<le> unat x \<and> unat x < unat st + unat len} \<subseteq> set lines"
proof -
  let ?ls = "cache_lines (st AND NOT 63) (saturating_add st len)"
  have "clean_dcache_invalidate_icache st (unat len) =
      map DC_CVAU ?ls @ [DSB_ISH] @ map IC_IVAU ?ls @ [DSB_ISH, ISB]"
    unfolding clean_dcache_invalidate_icache_def Let_def CACHE_LINE_def by simp
  then show ?thesis
    using cache_lines_sorted [of st] cache_lines_cover [of st _ len]
    by (intro exI [of _ ?ls]) blast
qed

section \<open>The end of the image\<close>

lemma kernel_top_loop_Ok:
  "kernel_top_loop sgs tp = Ok t \<Longrightarrow>
   unat t = fold max (map (\<lambda>sg. unat (vmaddr sg) + unat (vmsize sg)) sgs) (unat tp)"
proof (induction sgs arbitrary: tp)
  case Nil
  then show ?case by simp
next
  case (Cons sg sgs)
  then obtain e where e: "unat e = unat (vmaddr sg) + unat (vmsize sg)"
    "kernel_top_loop sgs (if e > tp then e else tp) = Ok t"
    by (auto simp: res_simps arith_specs)
  have "unat (if e > tp then e else tp) = max (unat (vmaddr sg) + unat (vmsize sg)) (unat tp)"
    using e(1) by (auto simp: max_def word_less_nat_alt)
  with Cons.IH [OF e(2)] show ?case by simp
qed

lemma kernel_top_loop_returns:
  "(\<exists>t. kernel_top_loop sgs tp = Ok t) \<or>
   kernel_top_loop sgs tp = Err LOAD_ERROR \<and>
     (\<exists>sg \<in> set sgs. 2 ^ 64 \<le> unat (vmaddr sg) + unat (vmsize sg))"
proof (induction sgs arbitrary: tp)
  case Nil
  then show ?case by simp
next
  case (Cons sg sgs)
  show ?case
  proof (cases "checked_add (vmaddr sg) (vmsize sg)")
    case None
    then have "2 ^ 64 \<le> unat (vmaddr sg) + unat (vmsize sg)" by (simp add: arith_specs)
    with None show ?thesis by simp
  next
    case (Some e)
    with Cons [of "if e > tp then e else tp"] show ?thesis by auto
  qed
qed

lemma fold_max_eq: "fold max xs (m :: nat) = Max (insert m (set xs))"
  by (simp add: Max.set_eq_fold [symmetric])

text \<open>C31: \<open>top_of_kernel_data\<close> is the largest end address of any segment, and the only failure is an
  end address that does not fit in 64 bits.\<close>

theorem kernel_top_is_max:
  "case kernel_top macho of
     Ok t \<Rightarrow> unat t = Max (insert 0 ((\<lambda>sg. unat (vmaddr sg) + unat (vmsize sg)) ` set (segments macho)))
   | Err e \<Rightarrow> e = LOAD_ERROR \<and>
       (\<exists>sg \<in> set (segments macho). 2 ^ 64 \<le> unat (vmaddr sg) + unat (vmsize sg))
   | Panic \<Rightarrow> False
   | Diverge \<Rightarrow> False"
proof (cases "kernel_top macho")
  case (Ok t)
  then have "unat t = fold max (map (\<lambda>sg. unat (vmaddr sg) + unat (vmsize sg)) (segments macho)) 0"
    using kernel_top_loop_Ok [of "segments macho" 0 t] by (simp add: kernel_top_def)
  with Ok show ?thesis by (simp add: fold_max_eq)
qed (use kernel_top_loop_returns [of "segments macho" 0] in \<open>auto simp: kernel_top_def\<close>)

end
