(* ===== verification/Loader_Lib.thy ===== *)
theory Loader_Lib
  imports Goblin
begin

text \<open>
  \<open>loader/src/lib.rs\<close>: the two image wrappers and the format tests. Both
  parsers belong to the \<open>goblin\<close> crate and are parameters.
\<close>

record MachOImage =
  macho_bytes :: bytes

definition MachOImage_new :: "bytes \<Rightarrow> MachOImage" where
  "MachOImage_new bs = \<lparr>macho_bytes = bs\<rparr>"

definition MachOImage_parse :: "macho_parser \<Rightarrow> MachOImage \<Rightarrow> (mach_o, unit) res" where
  "MachOImage_parse macho_parse img = macho_parse (macho_bytes img)"

record ElfImage =
  elf_bytes :: bytes

definition ElfImage_new :: "bytes \<Rightarrow> ElfImage" where
  "ElfImage_new bs = \<lparr>elf_bytes = bs\<rparr>"

definition ElfImage_parse :: "elf_parser \<Rightarrow> ElfImage \<Rightarrow> (elf, unit) res" where
  "ElfImage_parse elf_parse img = elf_parse (elf_bytes img)"

text \<open>The format tests: an error of the parser is the answer no; a parser that panics or does not return
  gives no answer.\<close>

fun is_ok :: "('a, unit) res \<Rightarrow> (bool, unit) res" where
  "is_ok (Ok _) = Ok True"
| "is_ok (Err _) = Ok False"
| "is_ok Panic = Panic"
| "is_ok Diverge = Diverge"

definition is_macho :: "macho_parser \<Rightarrow> bytes \<Rightarrow> (bool, unit) res" where
  "is_macho macho_parse bs = is_ok (macho_parse bs)"

definition is_elf :: "elf_parser \<Rightarrow> bytes \<Rightarrow> (bool, unit) res" where
  "is_elf elf_parse bs = is_ok (elf_parse bs)"

lemma MachOImage_parse_new [simp]: "MachOImage_parse mp (MachOImage_new bs) = mp bs"
  by (simp add: MachOImage_parse_def MachOImage_new_def)

end
