(* ===== verification/Loader_Main.thy ===== *)
theory Loader_Main
  imports Loader_Device_Tree Loader_Image Loader_Lib
begin

text \<open>
  The second half of \<open>loader/src/main.rs\<close>: stack and boot-argument pages, the
  memory extent, the boot arguments, the hand-over of control and the order of
  all steps in \<open>load_and_jump_to_kernel\<close>. UEFI services are parameters
  (\<open>allocate_pages\<close>, the configuration tables, the file read, the exit from
  boot services).
\<close>

section \<open>Definitions\<close>

definition STACK_PAGES :: nat where
  "STACK_PAGES = 16"

definition allocate_kernel_stack :: "'fw alloc_fn \<Rightarrow> (u64, 'fw) boot" where
  "allocate_kernel_stack alloc =
     boot_then (allocate_pages alloc AnyPages LOADER_DATA STACK_PAGES) (\<lambda>ptr.
     boot_res (ok_or (checked_add ptr (word_of_nat (STACK_PAGES * PAGE_SIZE))) LOAD_ERROR))"

definition allocate_boot_args_page :: "'fw alloc_fn \<Rightarrow> (u64, 'fw) boot" where
  "allocate_boot_args_page alloc = allocate_pages alloc AnyPages LOADER_DATA 1"

record memory_descriptor =
  phys_start :: u64
  page_count :: u64

primrec memory_extent_loop ::
  "memory_descriptor list \<Rightarrow> u64 \<Rightarrow> u64 \<Rightarrow> (u64 \<times> u64, status) res" where
  "memory_extent_loop [] mn mx = Ok (mn, mx)"
| "memory_extent_loop (d # ds) mn mx =
     and_then (ok_or (checked_mul (page_count d) PAGE_SIZE_u64) LOAD_ERROR) (\<lambda>size.
     and_then (ok_or (checked_add (phys_start d) size) LOAD_ERROR) (\<lambda>e.
     memory_extent_loop ds (if phys_start d < mn then phys_start d else mn)
       (if e > mx then e else mx)))"

definition memory_extent :: "memory_descriptor list \<Rightarrow> (u64 \<times> u64, status) res" where
  "memory_extent ds =
     and_then (memory_extent_loop ds (- 1) 0) (\<lambda>(mn, mx).
     if mn = - 1 \<or> mx \<le> mn then Err LOAD_ERROR else Ok (mn, mx - mn))"

definition fill_boot_args ::
  "u64 \<Rightarrow> memory_descriptor list \<Rightarrow> u64 \<Rightarrow> apple_device_tree \<Rightarrow> (unit, 'fw) boot" where
  "fill_boot_args ptr memory_map tp apple_dt =
     boot_then (boot_res (memory_extent memory_map)) (\<lambda>(base, size).
     boot_store ptr (BootArgs_zeroed
       \<lparr>phys_base := base, mem_size := size, mem_size_actual := size,
        top_of_kernel_data := tp, device_tree_p := adt_ptr apple_dt,
        device_tree_length := adt_len apple_dt\<rparr>))"

record kernel_hand_off =
  ho_entry :: u64
  ho_boot_args :: u64
  ho_stack_top :: u64

text \<open>The registers \<open>jump_to_entry\<close> sets before it branches.\<close>

record entry_regs =
  reg_sp :: u64
  reg_x0 :: u64
  reg_pc :: u64

definition jump_to_entry :: "kernel_hand_off \<Rightarrow> entry_regs" where
  "jump_to_entry h = \<lparr>reg_sp = ho_stack_top h, reg_x0 = ho_boot_args h, reg_pc = ho_entry h\<rparr>"

text \<open>The firmware services the loader calls.\<close>

record 'fw services =
  svc_init :: "'fw \<Rightarrow> (unit, status) res \<times> 'fw"
  svc_image_fs :: "'fw \<Rightarrow> (unit, status) res \<times> 'fw"
  svc_read_kernel :: "'fw \<Rightarrow> (bytes, status) res \<times> 'fw"
  svc_alloc :: "'fw alloc_fn"
  svc_config :: "'fw \<Rightarrow> config_entry list"
  svc_exit :: "'fw \<Rightarrow> (memory_descriptor list, status) res \<times> 'fw"

definition read_kernel :: "'fw services \<Rightarrow> (bytes, 'fw) boot" where
  "read_kernel svc s =
     (let (r, s') = boot_fw (svc_read_kernel svc) s in (map_err (\<lambda>_. NOT_FOUND) r, s'))"

definition load_and_jump_to_kernel ::
  "macho_parser \<Rightarrow> (load_range list \<Rightarrow> load_range list) \<Rightarrow> 'fw services \<Rightarrow>
   (entry_regs, 'fw) boot" where
  "load_and_jump_to_kernel macho_parse srt svc =
     boot_then (boot_fw (svc_init svc)) (\<lambda>_.
     boot_then (boot_fw (svc_image_fs svc)) (\<lambda>_.
     boot_then (read_kernel svc) (\<lambda>kernel_bytes.
     boot_then (boot_res (map_err (\<lambda>_. LOAD_ERROR)
       (MachOImage_parse macho_parse (MachOImage_new kernel_bytes)))) (\<lambda>macho.
     boot_then (allocate_load_ranges srt (svc_alloc svc) macho) (\<lambda>_.
     boot_then (load_segments (segments macho)) (\<lambda>_.
     boot_then (sync_loaded_image (segments macho)) (\<lambda>_.
     boot_then (boot_res (kernel_top macho)) (\<lambda>tp.
     boot_then (\<lambda>s. build_apple_device_tree (svc_alloc svc) (svc_config svc (fw s)) s) (\<lambda>apple_dt.
     boot_then (allocate_boot_args_page (svc_alloc svc)) (\<lambda>boot_args_ptr.
     boot_then (allocate_kernel_stack (svc_alloc svc)) (\<lambda>stack_top.
     boot_then (boot_fw (svc_exit svc)) (\<lambda>memory_map.
     boot_then (fill_boot_args boot_args_ptr memory_map tp apple_dt) (\<lambda>_.
     boot_res (Ok (jump_to_entry
       \<lparr>ho_entry = entry macho, ho_boot_args = boot_args_ptr, ho_stack_top = stack_top\<rparr>)))))))))))))))"

definition loader_main ::
  "macho_parser \<Rightarrow> (load_range list \<Rightarrow> load_range list) \<Rightarrow> 'fw services \<Rightarrow> 'fw bstate \<Rightarrow>
   (entry_regs + status) option \<times> 'fw bstate" where
  "loader_main macho_parse srt svc s =
     (case load_and_jump_to_kernel macho_parse srt svc s of
        (Ok regs, s') \<Rightarrow> (Some (Inl regs), s')
      | (Err st, s') \<Rightarrow> (Some (Inr st), s')
      | (_, s') \<Rightarrow> (None, s'))"

section \<open>The memory extent\<close>

abbreviation desc_end :: "memory_descriptor \<Rightarrow> nat" where
  "desc_end d \<equiv> unat (phys_start d) + unat (page_count d) * 4096"

lemma unat_page_size: "unat PAGE_SIZE_u64 = 4096"
  by (simp add: PAGE_SIZE_u64_def)

lemma memory_extent_loop_Ok:
  "memory_extent_loop ds mn mx = Ok (mn', mx') \<Longrightarrow>
   unat mn' = fold min (map (\<lambda>d. unat (phys_start d)) ds) (unat mn) \<and>
   unat mx' = fold max (map desc_end ds) (unat mx)"
proof (induction ds arbitrary: mn mx)
  case Nil
  then show ?case by simp
next
  case (Cons d ds)
  then obtain z e :: u64 where z: "unat z = unat (page_count d) * 4096" "unat e = unat (phys_start d) + unat z"
    and r: "memory_extent_loop ds (if phys_start d < mn then phys_start d else mn)
      (if e > mx then e else mx) = Ok (mn', mx')"
    by (auto simp: res_simps arith_specs unat_page_size)
  have "unat (if phys_start d < mn then phys_start d else mn) = min (unat (phys_start d)) (unat mn)"
    "unat (if e > mx then e else mx) = max (desc_end d) (unat mx)"
    using z by (auto simp: word_less_nat_alt min_def max_def)
  with Cons.IH [OF r] show ?case by simp
qed

lemma memory_extent_loop_returns:
  "(\<exists>r. memory_extent_loop ds mn mx = Ok r) \<or>
   memory_extent_loop ds mn mx = Err LOAD_ERROR \<and> (\<exists>d \<in> set ds. 2 ^ 64 \<le> desc_end d)"
proof (induction ds arbitrary: mn mx)
  case Nil
  then show ?case by simp
next
  case (Cons d ds)
  show ?case
  proof (cases "checked_mul (page_count d) PAGE_SIZE_u64")
    case None
    then have "2 ^ 64 \<le> unat (page_count d) * 4096"
      by (auto simp: checked_mul_def unat_page_size split: if_splits)
    then have "2 ^ 64 \<le> desc_end d" by linarith
    with None show ?thesis by simp
  next
    case z: (Some z)
    then have "unat z = unat (page_count d) * 4096" by (simp add: arith_specs unat_page_size)
    show ?thesis
    proof (cases "checked_add (phys_start d) z")
      case None
      then have "2 ^ 64 \<le> desc_end d"
        using \<open>unat z = _\<close> by (simp add: arith_specs)
      with z None show ?thesis by simp
    next
      case (Some e)
      with z Cons [of "if phys_start d < mn then phys_start d else mn" "if e > mx then e else mx"]
      show ?thesis by auto
    qed
  qed
qed

lemma fold_min_eq: "fold min xs (m :: nat) = Min (insert m (set xs))"
  by (simp add: Min.set_eq_fold [symmetric])

text \<open>C28: the memory range handed to the kernel is the exact hull of the firmware's memory map: it
  starts at the lowest descriptor, ends at the highest descriptor end, and is never empty. The
  loader refuses a map with a descriptor that passes \<open>2^64\<close> and a map without memory.\<close>

theorem memory_extent_is_hull:
  "case memory_extent ds of
     Ok (base, sz) \<Rightarrow> ds \<noteq> [] \<and> 0 < unat sz \<and>
       unat base = Min ((\<lambda>d. unat (phys_start d)) ` set ds) \<and>
       unat base + unat sz = Max (desc_end ` set ds)
   | Err e \<Rightarrow> e = LOAD_ERROR \<and> ((\<exists>d \<in> set ds. 2 ^ 64 \<le> desc_end d) \<or>
       ds = [] \<or> Max (desc_end ` set ds) \<le> Min ((\<lambda>d. unat (phys_start d)) ` set ds))
   | Panic \<Rightarrow> False
   | Diverge \<Rightarrow> False"
proof -
  consider (err) "memory_extent_loop ds (- 1) 0 = Err LOAD_ERROR" "\<exists>d \<in> set ds. 2 ^ 64 \<le> desc_end d"
    | (ok) mn mx where "memory_extent_loop ds (- 1) 0 = Ok (mn, mx)"
    using memory_extent_loop_returns [of ds "- 1" 0] by fastforce
  then show ?thesis
  proof cases
    case err
    then show ?thesis by (simp add: memory_extent_def)
  next
    case (ok mn mx)
    note l = memory_extent_loop_Ok [OF ok]
    let ?S = "(\<lambda>d. unat (phys_start d)) ` set ds" and ?E = "desc_end ` set ds"
    show ?thesis
    proof (cases "ds = []")
      case True
      with ok show ?thesis by (simp add: memory_extent_def)
    next
      case False
      have "Min ?S \<in> ?S" using False by (intro Min_in) auto
      then obtain d where "Min ?S = unat (phys_start d)" "d \<in> set ds" by (rule imageE)
      with unat_bound [of "phys_start d"] have "Min ?S \<le> 2 ^ 64 - 1" by simp
      then have mn: "unat mn = Min ?S"
        using l False by (simp add: fold_min_eq unat_max_word)
      have mx: "unat mx = Max ?E"
        using l False by (simp add: fold_max_eq)
      show ?thesis
      proof (cases "mx \<le> mn")
        case True
        then show ?thesis using mn mx by (simp add: memory_extent_def ok word_le_nat_alt)
      next
        case lt: False
        then have "unat mn < unat mx" by (simp add: word_le_nat_alt)
        moreover from this have "mn \<noteq> - 1" using unat_bound [of mx] by (auto simp: unat_max_word)
        moreover have "unat (mx - mn) = unat mx - unat mn"
          using lt by (simp add: unat_sub_le)
        ultimately show ?thesis
          using lt False mn mx by (simp add: memory_extent_def ok)
      qed
    qed
  qed
qed

section \<open>The whole load\<close>

text \<open>What the firmware's page allocator promises: a granted range is free memory, stays owned,
  does not wrap, and is at the address asked for when one was asked for.\<close>

definition page_allocator :: "('fw \<Rightarrow> u64 set) \<Rightarrow> 'fw alloc_fn \<Rightarrow> bool" where
  "page_allocator owned alloc \<longleftrightarrow>
     (\<forall>ty mt n f r f'. alloc ty mt n f = (r, f') \<longrightarrow> owned f \<subseteq> owned f' \<and>
        (\<forall>p. r = Ok p \<longrightarrow> unat p + n * PAGE_SIZE \<le> 2 ^ 64 \<and>
           region p (n * PAGE_SIZE) \<inter> owned f = {} \<and> region p (n * PAGE_SIZE) \<subseteq> owned f' \<and>
           (\<forall>a. ty = Address a \<longrightarrow> p = a)))"

lemma page_allocatorD:
  assumes "page_allocator owned alloc" "alloc ty mt n f = (r, f')"
  shows "owned f \<subseteq> owned f'"
    "r = Ok p \<Longrightarrow> region p (n * PAGE_SIZE) \<inter> owned f = {}"
    "r = Ok p \<Longrightarrow> region p (n * PAGE_SIZE) \<subseteq> owned f'"
    "r = Ok p \<Longrightarrow> unat p + n * PAGE_SIZE \<le> 2 ^ 64"
    "r = Ok p \<Longrightarrow> ty = Address a \<Longrightarrow> p = a"
  using assms unfolding page_allocator_def by blast+

lemma allocate_range_owned:
  assumes "page_allocator owned alloc" "proper r" "allocate_range alloc r s = (Ok u, s')"
  shows "owned (fw s) \<subseteq> owned (fw s')" "covered [r] \<subseteq> owned (fw s')"
proof -
  define n where "n = unat (div_ceil_u64 (range_end r - range_start r) PAGE_SIZE_u64)"
  obtain a g where a: "alloc (Address (range_start r)) LOADER_CODE n (fw s) = (a, g)"
    by (cases "alloc (Address (range_start r)) LOADER_CODE n (fw s)")
  from assms(3) a obtain p where p: "a = Ok p" and g: "fw s' = g"
    unfolding allocate_range_run [OF assms(2)] Let_def n_def [symmetric]
    by (cases a) auto
  note pa = page_allocatorD [OF assms(1) a]
  show "owned (fw s) \<subseteq> owned (fw s')" using pa(1) g by simp
  have "p = range_start r" using pa(5) [OF p] by simp
  moreover have "covered [r] \<subseteq> region (range_start r) (n * PAGE_SIZE)"
    unfolding region_range [OF assms(2), symmetric] PAGE_SIZE_def
    by (rule region_mono) (simp add: n_def unat_div_ceil_page)
  ultimately show "covered [r] \<subseteq> owned (fw s')" using pa(3) [OF p] g by blast
qed

lemma allocate_ranges_owned:
  assumes "page_allocator owned alloc"
  shows "\<forall>r \<in> set rs. proper r \<Longrightarrow> allocate_ranges alloc rs s = (Ok (), s') \<Longrightarrow>
    owned (fw s) \<subseteq> owned (fw s') \<and> covered rs \<subseteq> owned (fw s')"
proof (induction rs arbitrary: s)
  case Nil
  then show ?case by (auto simp: boot_res_def)
next
  case (Cons r rs)
  from Cons.prems(2) obtain u s1 where
    one: "allocate_range alloc r s = (Ok u, s1)" and rest: "allocate_ranges alloc rs s1 = (Ok (), s')"
    by (auto dest!: boot_then_OkD simp del: boot_then.simps)
  have pr: "proper r" "\<forall>r \<in> set rs. proper r" using Cons.prems(1) by auto
  have c: "covered (r # rs) = covered [r] \<union> covered rs" by simp
  from allocate_range_owned [OF assms pr(1) one] Cons.IH [OF pr(2) rest]
  show ?case unfolding c by blast
qed

lemma place_image_owned:
  assumes "page_allocator owned alloc" "range_sort srt" "list_all fits (segments macho)"
    and "place_image srt alloc macho s = (Ok (), s')" "sg \<in> set (segments macho)"
  shows "seg_region sg \<subseteq> owned (fw s')"
  using assms(4)
proof (cases rule: place_image_cases)
  case (placed rs s1)
  have pr: "\<forall>r \<in> set rs. proper r" using load_ranges_proper [OF placed(1)] by blast
  note m = range_sort.merged [OF assms(2) pr]
  have "covered rs \<subseteq> owned (fw s1)"
    using allocate_ranges_owned [OF assms(1) m(2) placed(2)] by (simp only: m(3))
  moreover have "seg_region sg \<subseteq> covered rs"
    using load_ranges_segment(2) [OF placed(1) assms(5)]
    by (cases "vmsize sg = 0") (auto simp: seg_region_def region_def)
  ultimately show ?thesis by (simp add: placed(3))
qed simp_all

lemma boot_then_OkE:
  assumes "boot_then m k s = (Ok b, s')"
  obtains a s1 where "m s = (Ok a, s1)" "k a s1 = (Ok b, s')"
  using boot_then_OkD [OF assms] by blast

lemma boot_then_resE:
  assumes "boot_then (boot_res r) k s = (Ok b, s')"
  obtains a where "r = Ok a" "k a s = (Ok b, s')"
  using assms by (cases r) (simp_all add: boot_res_def)

lemma boot_res_OkE:
  assumes "boot_res (Ok a) s = (Ok b, s')"
  obtains "b = a" "s = s'"
  using assms by (simp add: boot_res_def)

text \<open>Every step of a successful load, with the state after it.\<close>

lemma load_and_jump_OkD:
  assumes "load_and_jump_to_kernel mp srt svc s = (Ok regs, s')"
  obtains f kb f' macho s0 s1 s2 tp dt s3 ptr s4 sp s5 mm s6 where
    "svc_read_kernel svc f = (Ok kb, f')" "mp kb = Ok macho" "place_image srt (svc_alloc svc) macho s0 = (Ok (), s1)"
    "sync_loaded_image (segments macho) s1 = (Ok (), s2)" "kernel_top macho = Ok tp"
    "build_apple_device_tree (svc_alloc svc) (svc_config svc (fw s2)) s2 = (Ok dt, s3)"
    "allocate_boot_args_page (svc_alloc svc) s3 = (Ok ptr, s4)"
    "allocate_kernel_stack (svc_alloc svc) s4 = (Ok sp, s5)"
    "boot_fw (svc_exit svc) s5 = (Ok mm, s6)"
    "fill_boot_args ptr mm tp dt s6 = (Ok (), s')"
    "regs = \<lparr>reg_sp = sp, reg_x0 = ptr, reg_pc = entry macho\<rparr>"
  using assms unfolding load_and_jump_to_kernel_def MachOImage_parse_new
proof (elim boot_then_resE boot_then_OkE boot_res_OkE)
  fix u1 a1 u2 a2 kb s0 macho u3 sa u4 s1 u5 s2 tp dt s3 ptr s4 sp s5 mm s6 u6 sx
  assume c: "boot_fw (svc_init svc) s = (Ok u1, a1)" "boot_fw (svc_image_fs svc) a1 = (Ok u2, a2)"
    "read_kernel svc a2 = (Ok kb, s0)" "map_err (\<lambda>_. LOAD_ERROR) (mp kb) = Ok macho"
    "allocate_load_ranges srt (svc_alloc svc) macho s0 = (Ok u3, sa)"
    "load_segments (segments macho) sa = (Ok u4, s1)"
    "sync_loaded_image (segments macho) s1 = (Ok u5, s2)" "kernel_top macho = Ok tp"
    "build_apple_device_tree (svc_alloc svc) (svc_config svc (fw s2)) s2 = (Ok dt, s3)"
    "allocate_boot_args_page (svc_alloc svc) s3 = (Ok ptr, s4)"
    "allocate_kernel_stack (svc_alloc svc) s4 = (Ok sp, s5)"
    "boot_fw (svc_exit svc) s5 = (Ok mm, s6)"
    "fill_boot_args ptr mm tp dt s6 = (Ok u6, sx)"
    "regs = jump_to_entry \<lparr>ho_entry = entry macho, ho_boot_args = ptr, ho_stack_top = sp\<rparr>"
    "sx = s'"
  obtain f' where "svc_read_kernel svc (fw a2) = (Ok kb, f')"
    using c(3) by (auto simp: boot_fw_def read_kernel_def split: prod.splits elim!: map_err.elims)
  moreover have "mp kb = Ok macho" using c(4) by (cases "mp kb") simp_all
  moreover have "place_image srt (svc_alloc svc) macho s0 = (Ok (), s1)"
    using c(5,6) by (simp add: place_image_def)
  ultimately show thesis
    using that c(7-13,15) by (simp add: c(14) jump_to_entry_def)
qed

definition sync_ops :: "mach_segment list \<Rightarrow> cache_op list" where
  "sync_ops sgs = concat (map (\<lambda>sg.
     if vmsize sg = 0 then [] else clean_dcache_invalidate_icache (vmaddr sg) (unat (vmsize sg))) sgs)"

lemma sync_loaded_image_run:
  "sync_loaded_image sgs s = (Ok (), s\<lparr>cache_ops := cache_ops s @ sync_ops sgs\<rparr>)"
  by (induction sgs arbitrary: s) (simp_all add: boot_res_def sync_ops_def boot_cache_def)

lemma div_ceil_pages: "n \<le> div_ceil n PAGE_SIZE * PAGE_SIZE"
proof -
  have "n div 4096 * 4096 + n mod 4096 = n" "n mod 4096 < 4096" by simp_all
  then show ?thesis by (cases "n mod 4096 = 0") (auto simp: div_ceil_def PAGE_SIZE_def)
qed

lemma allocate_pages_OkD:
  assumes "allocate_pages alloc ty mt n s = (Ok p, s')"
  shows "alloc ty mt n (fw s) = (Ok p, fw s')" "mem s' = mem s" "args_store s' = args_store s"
  using assms by (auto simp: allocate_pages_def boot_fw_def split: prod.splits)

lemma build_tree_OkD:
  assumes "build_apple_device_tree alloc tables s = (Ok dt, s')"
  obtains bs where "adt_bytes (find_fdt (mem s) tables) = Ok bs" "unat (adt_len dt) = length bs"
    "alloc AnyPages LOADER_DATA (div_ceil (length bs) PAGE_SIZE) (fw s) = (Ok (adt_ptr dt), fw s')"
    "mem s' = mem_write (adt_ptr dt) bs (mem s)"
  using assms unfolding build_apple_device_tree_def
proof (elim boot_then_resE boot_then_OkE)
  fix bs len ptr s1 u s2
  assume c: "adt_bytes (find_fdt (mem s) tables) = Ok bs" "u32_try_from (length bs) = Ok len"
    "allocate_pages alloc AnyPages LOADER_DATA (div_ceil (length bs) PAGE_SIZE) s = (Ok ptr, s1)"
    "boot_mem (mem_write ptr bs) s1 = (Ok u, s2)"
    "boot_res (Ok \<lparr>adt_ptr = ptr, adt_len = len\<rparr>) s2 = (Ok dt, s')"
  have "unat (adt_len dt) = length bs"
    using c(2,5) by (auto simp: u32_try_from_def boot_res_def unat_of_nat split: if_splits)
  moreover have "s' = s1\<lparr>mem := mem_write ptr bs (mem s1)\<rparr>" "adt_ptr dt = ptr"
    using c(4,5) by (auto simp: boot_mem_def boot_res_def)
  ultimately show thesis
    using that [OF c(1)] allocate_pages_OkD [OF c(3)] by simp
qed

lemma allocate_kernel_stack_OkD:
  assumes "allocate_kernel_stack alloc s = (Ok sp, s')"
  obtains p where "alloc AnyPages LOADER_DATA 16 (fw s) = (Ok p, fw s')"
    "unat sp = unat p + 65536" "sp - 65536 = p" "mem s' = mem s"
  using assms unfolding allocate_kernel_stack_def STACK_PAGES_def
proof (elim boot_then_OkE)
  fix p s1
  assume c: "allocate_pages alloc AnyPages LOADER_DATA 16 s = (Ok p, s1)"
    "boot_res (ok_or (checked_add p (word_of_nat (16 * PAGE_SIZE))) LOAD_ERROR) s1 = (Ok sp, s')"
  then have "checked_add p 65536 = Some sp" "s' = s1"
    by (simp_all add: boot_res_def PAGE_SIZE_def res_simps)
  then have u: "unat sp = unat p + 65536" by (simp add: arith_specs)
  then have "unat (sp - 65536) = unat p"
    by (simp add: unat_sub_le word_le_nat_alt)
  with u show thesis
    using that allocate_pages_OkD [OF c(1)] \<open>s' = s1\<close> by (simp add: word_unat_eq_iff)
qed

lemma fill_boot_args_OkD:
  assumes "fill_boot_args ptr mm tp dt s = (Ok u, s')"
  obtains base sz where "memory_extent mm = Ok (base, sz)" "mem s' = mem s" "fw s' = fw s"
    "args_store s' ptr = Some (BootArgs_zeroed
       \<lparr>phys_base := base, mem_size := sz, mem_size_actual := sz, top_of_kernel_data := tp,
        device_tree_p := adt_ptr dt, device_tree_length := adt_len dt\<rparr>)"
  using assms unfolding fill_boot_args_def
  by (elim boot_then_resE) (auto simp: boot_store_def)

text \<open>The memory the kernel finds in use when it starts: its own image, the device tree, the page
  of the boot arguments and its stack.\<close>

definition image_region :: "mach_o \<Rightarrow> u64 set" where
  "image_region macho = (\<Union>sg \<in> set (segments macho). seg_region sg)"

definition handover_regions :: "mach_o \<Rightarrow> boot_args \<Rightarrow> entry_regs \<Rightarrow> u64 set list" where
  "handover_regions macho a regs =
     [image_region macho, region (device_tree_p a) (unat (device_tree_length a)),
      region (reg_x0 regs) PAGE_SIZE, region (reg_sp regs - 65536) 65536]"

definition holds_image :: "memory \<Rightarrow> mach_o \<Rightarrow> bool" where
  "holds_image m macho \<longleftrightarrow> (\<forall>sg \<in> set (segments macho).
     mem_slice m (vmaddr sg) (unat (vmsize sg)) =
       seg_bytes sg @ replicate (unat (vmsize sg) - length (seg_bytes sg)) 0)"

lemma holds_image_frame:
  assumes "holds_image m macho" "\<And>x. x \<in> image_region macho \<Longrightarrow> m' x = m x"
  shows "holds_image m' macho"
  unfolding holds_image_def
proof
  fix sg
  assume sg: "sg \<in> set (segments macho)"
  have "mem_slice m' (vmaddr sg) (unat (vmsize sg)) = mem_slice m (vmaddr sg) (unat (vmsize sg))"
  proof (rule nth_equalityI)
    fix i
    assume "i < length (mem_slice m' (vmaddr sg) (unat (vmsize sg)))"
    then have i: "i < unat (vmsize sg)" by simp
    with unat_bound [of "vmsize sg"] have "vmaddr sg + word_of_nat i \<in> seg_region sg"
      unfolding seg_region_def by (intro region_offset) simp_all
    then have "vmaddr sg + word_of_nat i \<in> image_region macho"
      using sg by (auto simp: image_region_def)
    with i show "mem_slice m' (vmaddr sg) (unat (vmsize sg)) ! i =
        mem_slice m (vmaddr sg) (unat (vmsize sg)) ! i" by (simp add: assms(2))
  qed simp
  with assms(1) sg show "mem_slice m' (vmaddr sg) (unat (vmsize sg)) =
       seg_bytes sg @ replicate (unat (vmsize sg) - length (seg_bytes sg)) 0"
    by (simp add: holds_image_def)
qed

lemma successive_grants:
  assumes "A \<subseteq> O2" "D \<subseteq> D'" "D' \<inter> O2 = {}" "O2 \<subseteq> O3" "D' \<subseteq> O3"
    and "P \<inter> O3 = {}" "O3 \<subseteq> O4" "P \<subseteq> O4" "S \<inter> O4 = {}"
  shows "sorted_wrt (\<lambda>A B. A \<inter> B = {}) [A, D, P, S]"
proof -
  have "A \<inter> D = {}" "A \<inter> P = {}" "A \<inter> S = {}" using assms(1,2,3,4,6,7,9) by blast+
  moreover have "D \<inter> P = {}" "D \<inter> S = {}" "P \<inter> S = {}" using assms(2,5,6,7,8,9) by blast+
  ultimately show ?thesis by simp
qed

text \<open>Tree, boot-argument page and stack, allocated after the image.\<close>

lemma handover_layout:
  assumes pa: "page_allocator owned alloc" and own: "A \<subseteq> owned (fw s2)"
    and dt: "build_apple_device_tree alloc tables s2 = (Ok dt, s3)"
    and args: "allocate_boot_args_page alloc s3 = (Ok ptr, s4)"
    and stack: "allocate_kernel_stack alloc s4 = (Ok sp, s5)"
  obtains root where "wf_adt root" "unat (adt_len dt) = length (enc_node root)"
    "adt_bytes (find_fdt (mem s2) tables) = Ok (enc_node root)"
    "mem s5 = mem_write (adt_ptr dt) (enc_node root) (mem s2)"
    "alloc AnyPages LOADER_DATA 16 (fw s4) = (Ok (sp - 65536), fw s5)"
    "sorted_wrt (\<lambda>A B. A \<inter> B = {}) [A, region (adt_ptr dt) (unat (adt_len dt)), region ptr PAGE_SIZE,
       region (sp - 65536) 65536]"
proof -
  from dt obtain bs where bs: "adt_bytes (find_fdt (mem s2) tables) = Ok bs"
    "unat (adt_len dt) = length bs" "mem s3 = mem_write (adt_ptr dt) bs (mem s2)"
    and al: "alloc AnyPages LOADER_DATA (div_ceil (length bs) PAGE_SIZE) (fw s2) = (Ok (adt_ptr dt), fw s3)"
    by (rule build_tree_OkD)
  obtain root where root: "wf_adt root" "bs = enc_node root"
    using adt_bytes_outcome [of "find_fdt (mem s2) tables"] bs(1) by auto
  have ar: "alloc AnyPages LOADER_DATA 1 (fw s3) = (Ok ptr, fw s4)" "mem s4 = mem s3"
    using allocate_pages_OkD [OF args [unfolded allocate_boot_args_page_def]] by simp_all
  from stack obtain p where st: "alloc AnyPages LOADER_DATA 16 (fw s4) = (Ok p, fw s5)"
    "sp - 65536 = p" "mem s5 = mem s4" by (rule allocate_kernel_stack_OkD)
  have sub: "region (adt_ptr dt) (length bs) \<subseteq>
      region (adt_ptr dt) (div_ceil (length bs) PAGE_SIZE * PAGE_SIZE)"
    by (rule region_mono) (rule div_ceil_pages)
  note pd = page_allocatorD [OF pa al] and pp = page_allocatorD [OF pa ar(1)]
    and ps = page_allocatorD [OF pa st(1)]
  have "sorted_wrt (\<lambda>A B. A \<inter> B = {})
      [A, region (adt_ptr dt) (length bs), region ptr (1 * PAGE_SIZE), region p (16 * PAGE_SIZE)]"
    by (rule successive_grants [OF own sub pd(2) [OF refl] pd(1) pd(3) [OF refl]
          pp(2) [OF refl] pp(1) pp(3) [OF refl] ps(2) [OF refl]])
  with that [OF root(1)] st(1) bs(1) show thesis by (simp add: bs(2,3) root(2) st(2,3) ar(2) PAGE_SIZE_def)
qed

definition kernel_file_ok :: "macho_parser \<Rightarrow> 'fw services \<Rightarrow> bool" where
  "kernel_file_ok mp svc \<longleftrightarrow> (\<forall>f kb f' m. svc_read_kernel svc f = (Ok kb, f') \<longrightarrow> mp kb = Ok m \<longrightarrow>
     list_all fits (segments m) \<and> apart (segments m))"

lemma kernel_handed_over:
  assumes "range_sort srt" "page_allocator owned (svc_alloc svc)" "kernel_file_ok mp svc"
    and "load_and_jump_to_kernel mp srt svc s = (Ok regs, s')"
  shows "\<exists>f f' kb macho a root M g c h mm. svc_read_kernel svc f = (Ok kb, f') \<and> mp kb = Ok macho \<and> reg_pc regs = entry macho \<and>
    holds_image (mem s') macho \<and>
    args_store s' (reg_x0 regs) = Some a \<and> revision a = 2 \<and> version a = 2 \<and>
    kernel_top macho = Ok (top_of_kernel_data a) \<and>
    svc_alloc svc AnyPages LOADER_DATA 16 g = (Ok (reg_sp regs - 65536), h) \<and> svc_exit svc h = (Ok mm, fw s') \<and>
    memory_extent mm = Ok (phys_base a, mem_size a) \<and> mem_size_actual a = mem_size a \<and>
    wf_adt root \<and> adt_bytes (find_fdt M (svc_config svc c)) = Ok (enc_node root) \<and>
    mem s' = mem_write (device_tree_p a) (enc_node root) M \<and>
    mem_slice (mem s') (device_tree_p a) (unat (device_tree_length a)) = enc_node root \<and>
    sorted_wrt (\<lambda>A B. A \<inter> B = {}) (handover_regions macho a regs)"
  using assms(4)
proof (rule load_and_jump_OkD)
  fix f kb f' macho s0 s1 s2 tp dt s3 ptr s4 sp s5 mm s6
  assume rd: "svc_read_kernel svc f = (Ok kb, f')" and mp: "mp kb = Ok macho"
    and place: "place_image srt (svc_alloc svc) macho s0 = (Ok (), s1)"
    and sync: "sync_loaded_image (segments macho) s1 = (Ok (), s2)" and tp: "kernel_top macho = Ok tp"
    and dt: "build_apple_device_tree (svc_alloc svc) (svc_config svc (fw s2)) s2 = (Ok dt, s3)"
    and args: "allocate_boot_args_page (svc_alloc svc) s3 = (Ok ptr, s4)"
    and stack: "allocate_kernel_stack (svc_alloc svc) s4 = (Ok sp, s5)"
    and exit: "boot_fw (svc_exit svc) s5 = (Ok mm, s6)"
    and fill: "fill_boot_args ptr mm tp dt s6 = (Ok (), s')"
    and regs: "regs = \<lparr>reg_sp = sp, reg_x0 = ptr, reg_pc = entry macho\<rparr>"
  have img: "list_all fits (segments macho)" "apart (segments macho)"
    using assms(3) rd mp by (auto simp: kernel_file_ok_def)
  have s2: "fw s2 = fw s1" "mem s2 = mem s1" using sync by (auto simp: sync_loaded_image_run)
  have img1: "holds_image (mem s2) macho"
    using placed_image_contents [OF assms(1) img place] by (auto simp: holds_image_def s2)
  have own: "image_region macho \<subseteq> owned (fw s2)"
    using place_image_owned [OF assms(2,1) img(1) place] by (auto simp: image_region_def s2)
  from handover_layout [OF assms(2) own dt args stack] obtain root where
    root: "wf_adt root" "unat (adt_len dt) = length (enc_node root)"
      "adt_bytes (find_fdt (mem s2) (svc_config svc (fw s2))) = Ok (enc_node root)"
      "mem s5 = mem_write (adt_ptr dt) (enc_node root) (mem s2)"
    and grant: "svc_alloc svc AnyPages LOADER_DATA 16 (fw s4) = (Ok (sp - 65536), fw s5)"
    and apart: "sorted_wrt (\<lambda>A B. A \<inter> B = {}) [image_region macho, region (adt_ptr dt) (unat (adt_len dt)),
      region ptr PAGE_SIZE, region (sp - 65536) 65536]" by blast
  have ex: "svc_exit svc (fw s5) = (Ok mm, fw s6)" "mem s6 = mem s5"
    using exit by (auto simp: boot_fw_def split: prod.splits)
  from fill obtain base sz where ext: "memory_extent mm = Ok (base, sz)" "mem s' = mem s6" "fw s' = fw s6"
    and a: "args_store s' ptr = Some (BootArgs_zeroed
       \<lparr>phys_base := base, mem_size := sz, mem_size_actual := sz, top_of_kernel_data := tp,
        device_tree_p := adt_ptr dt, device_tree_length := adt_len dt\<rparr>)" (is "_ = Some ?a")
    by (rule fill_boot_args_OkD)
  have m': "mem s' = mem_write (adt_ptr dt) (enc_node root) (mem s2)" by (simp add: ext(2) ex(2) root(4))
  have "sorted_wrt (\<lambda>A B. A \<inter> B = {}) (handover_regions macho ?a regs)"
    using apart by (simp add: handover_regions_def regs BootArgs_zeroed_def)
  moreover have "holds_image (mem s') macho"
    using img1 by (rule holds_image_frame) (use apart root(2) in \<open>auto simp: m' intro!: mem_write_out\<close>)
  moreover have "mem_slice (mem s') (adt_ptr dt) (unat (adt_len dt)) = enc_node root"
    using unat_bound [of "adt_len dt"] by (simp add: m' root(2) mem_slice_write)
  ultimately show ?thesis
    using rd mp tp ext(1) root(1,3) grant ex(1) a
    by (intro exI [of _ f] exI [of _ f'] exI [of _ kb] exI [of _ macho] exI [of _ ?a] exI [of _ root] exI [of _ "mem s2"]
        exI [of _ "fw s4"] exI [of _ "fw s2"] exI [of _ "fw s5"] exI [of _ mm])
      (simp add: regs m' ext(3) BootArgs_zeroed_def KBOOT_ARGS_REVISION2_def KBOOT_ARGS_VERSION2_def)
qed

text \<open>C4: what the kernel finds when the loader jumps to it. If the load succeeds, control passes to
  the entry point of the kernel parsed from the file that was read; memory holds the kernel image with its zero-filled
  data; \<open>x0\<close> points to boot arguments of revision and version 2 whose \<open>top_of_kernel_data\<close> is the
  end of the image and whose memory range is the extent of the memory map the firmware returned when boot services
  were left, the last thing asked of it; the device-tree bytes they point to encode a well-formed tree, the one
  built from the firmware's configuration tables (or the fallback), and are the last bytes written; the stack pointer
  is the end of a 64 KiB grant, the last one made before boot services were left; and image, tree, boot-argument page and stack do not overlap. This holds for
  every firmware whose page allocator grants only free memory and for every kernel file whose
  segments are disjoint and no larger on disk than in memory.\<close>

theorem kernel_handover:
  assumes "range_sort srt" "page_allocator owned (svc_alloc svc)" "kernel_file_ok mp svc"
    and "load_and_jump_to_kernel mp srt svc s = (Ok regs, s')"
  shows "\<exists>f f' kb macho a root M g c h mm. svc_read_kernel svc f = (Ok kb, f') \<and> mp kb = Ok macho \<and> reg_pc regs = entry macho \<and>
    holds_image (mem s') macho \<and>
    args_store s' (reg_x0 regs) = Some a \<and> revision a = 2 \<and> version a = 2 \<and>
    kernel_top macho = Ok (top_of_kernel_data a) \<and>
    svc_alloc svc AnyPages LOADER_DATA 16 g = (Ok (reg_sp regs - 65536), h) \<and> svc_exit svc h = (Ok mm, fw s') \<and>
    memory_extent mm = Ok (phys_base a, mem_size a) \<and> mem_size_actual a = mem_size a \<and>
    wf_adt root \<and> adt_bytes (find_fdt M (svc_config svc c)) = Ok (enc_node root) \<and>
    mem s' = mem_write (device_tree_p a) (enc_node root) M \<and>
    mem_slice (mem s') (device_tree_p a) (unat (device_tree_length a)) = enc_node root \<and>
    sorted_wrt (\<lambda>A B. A \<inter> B = {}) (handover_regions macho a regs)"
  using assms by (rule kernel_handed_over)

text \<open>A firmware with the promised behaviour: it records its grants and refuses overlapping ones.\<close>

definition free_of :: "u64 \<Rightarrow> nat \<Rightarrow> u64 \<times> nat \<Rightarrow> bool" where
  "free_of p n = (\<lambda>(q, k). unat q + k * PAGE_SIZE \<le> 2 ^ 64 \<and>
     (unat p + n * PAGE_SIZE \<le> unat q \<or> unat q + k * PAGE_SIZE \<le> unat p))"

definition list_alloc :: "(u64 \<times> nat) list alloc_fn" where
  "list_alloc ty mt n f =
     (let p = (case ty of Address a \<Rightarrow> a | AnyPages \<Rightarrow> 0x80000 + 0x80000 * word_of_nat (length f))
      in if unat p + n * PAGE_SIZE \<le> 2 ^ 64 \<and> list_all (free_of p n) f
         then (Ok p, (p, n) # f) else (Err (FIRMWARE_STATUS 9), f))"

definition list_owned :: "(u64 \<times> nat) list \<Rightarrow> u64 set" where
  "list_owned f = (\<Union>(q, k) \<in> set f. region q (k * PAGE_SIZE))"

lemma list_page_allocator: "page_allocator list_owned list_alloc"
proof -
  have dis: "region p (n * PAGE_SIZE) \<inter> region q (k * PAGE_SIZE) = {}"
    if "unat p + n * PAGE_SIZE \<le> 2 ^ 64" "free_of p n (q, k)" for p q n k
    using that region_disjoint [of p "n * PAGE_SIZE" q "k * PAGE_SIZE"]
      region_disjoint [of q "k * PAGE_SIZE" p "n * PAGE_SIZE"]
    by (auto simp: free_of_def)
  have dis': "region p (n * PAGE_SIZE) \<inter> list_owned f = {}"
    if "unat p + n * PAGE_SIZE \<le> 2 ^ 64" "list_all (free_of p n) f" for p n f
    using that dis by (auto simp: list_owned_def list_all_iff) blast
  show ?thesis
    unfolding page_allocator_def
  proof (intro allI impI conjI)
    fix ty mt n f r f'
    assume a: "list_alloc ty mt n f = (r, f')"
    then show "list_owned f \<subseteq> list_owned f'"
      by (auto simp: list_alloc_def list_owned_def Let_def split: if_splits)
    fix p
    assume "r = Ok p"
    with a have p: "p = (case ty of Address a \<Rightarrow> a
        | AnyPages \<Rightarrow> 0x80000 + 0x80000 * word_of_nat (length f))" "f' = (p, n) # f"
      and ok: "unat p + n * PAGE_SIZE \<le> 2 ^ 64" "list_all (free_of p n) f"
      by (auto simp: list_alloc_def Let_def split: if_splits)
    show "unat p + n * PAGE_SIZE \<le> 2 ^ 64" by (rule ok(1))
    show "region p (n * PAGE_SIZE) \<inter> list_owned f = {}" by (rule dis' [OF ok])
    show "region p (n * PAGE_SIZE) \<subseteq> list_owned f'" by (auto simp: p(2) list_owned_def)
    show "p = a" if "ty = Address a" for a using p(1) that by simp
  qed
qed

text \<open>Services around it, with a given kernel file.\<close>

definition services_for :: "bytes \<Rightarrow> (u64 \<times> nat) list services" where
  "services_for kb = \<lparr>svc_init = (\<lambda>f. (Ok (), f)), svc_image_fs = (\<lambda>f. (Ok (), f)),
     svc_read_kernel = (\<lambda>f. (Ok kb, f)), svc_alloc = list_alloc, svc_config = (\<lambda>f. []),
     svc_exit = (\<lambda>f. (Ok [\<lparr>phys_start = 0x1000, page_count = 0x400\<rparr>], f))\<rparr>"

definition sample_services :: "(u64 \<times> nat) list services" where
  "sample_services = services_for []"

lemma sample_tree: "\<exists>bs. adt_bytes None = Ok bs \<and> length bs < 4096 \<and> 0 < length bs"
proof -
  obtain root where root: "fallback_root = Ok root" "wf_adt root" using fallback_root_wf by blast
  have len: "length (enc_node root) < 4096" "0 < length (enc_node root)"
    using root(1) by (auto simp: fallback_root_def AdtProp_new_def AdtProp_new_owned_def ascii_def
        qemu_virt_memory_reg_def enc_prop_def pad_len_def)
  have "adt_bytes None = Ok (enc_node root)"
    using write_adt_node_enc(1) [OF root(2), of "[]"] by (simp add: adt_bytes_def root(1))
  with len show ?thesis by blast
qed

text \<open>Tree, arguments page and stack are granted at \<open>0x100000\<close>, \<open>0x180000\<close> and \<open>0x200000\<close> when the image was one grant
  elsewhere.\<close>

lemma load_run:
  assumes mp: "mp kb = Ok macho"
    and sa: "allocate_load_ranges srt list_alloc macho (sample_boot []) = (Ok (), sa)" "fw sa = [(p, n)]"
    and free: "unat p + n * 4096 \<le> 0x100000 \<or> 0x210000 \<le> unat p" "unat p + n * 4096 \<le> 2 ^ 64"
    and ktop: "kernel_top macho = Ok t"
  shows "\<exists>s' a. load_and_jump_to_kernel mp srt (services_for kb)
      (sample_boot []) = (Ok \<lparr>reg_sp = 0x210000, reg_x0 = 0x180000, reg_pc = entry macho\<rparr>, s') \<and>
      args_store s' 0x180000 = Some a \<and> device_tree_p a = 0x100000 \<and> top_of_kernel_data a = t"
proof -
  obtain bs where bs: "adt_bytes None = Ok bs" "length bs < 4096" "0 < length bs"
    using sample_tree by blast
  have pages: "div_ceil (length bs) PAGE_SIZE = 1" using bs(2,3) by (simp add: div_ceil_def PAGE_SIZE_def)
  have len: "u32_try_from (length bs) = Ok (word_of_nat (length bs))"
    using bs(2) by (simp add: u32_try_from_def)
  have svc: "svc_init (services_for kb) = Pair (Ok ())" "svc_image_fs (services_for kb) = Pair (Ok ())"
    "svc_read_kernel (services_for kb) = Pair (Ok kb)" "svc_alloc (services_for kb) = list_alloc"
    "svc_config (services_for kb) = (\<lambda>f. [])"
    "svc_exit (services_for kb) = Pair (Ok [\<lparr>phys_start = 0x1000, page_count = 0x400\<rparr>])"
    by (simp_all add: services_for_def fun_eq_iff)
  have init: "boot_fw (Pair (Ok a)) s = (Ok a, s)" for a and s :: "(u64 \<times> nat) list bstate"
    by (simp add: boot_fw_def)
  have read: "read_kernel (services_for kb) s = (Ok kb, s)" for s
    by (simp add: read_kernel_def svc init)
  have ext: "memory_extent [\<lparr>phys_start = 0x1000, page_count = 0x400\<rparr>] = Ok (0x1000, 0x400000)"
    by (simp add: memory_extent_def checked_mul_def checked_add_def PAGE_SIZE_u64_def)
  have fr: "free_of 0x100000 1 (p, n)" "free_of 0x180000 1 (p, n)" "free_of 0x200000 16 (p, n)"
    using free by (auto simp: free_of_def PAGE_SIZE_def)
  have tree: "\<exists>s'. build_apple_device_tree list_alloc [] s =
      (Ok \<lparr>adt_ptr = 0x100000, adt_len = word_of_nat (length bs)\<rparr>, s') \<and>
      fw s' = [(0x100000, 1), (p, n)]" if "fw s = [(p, n)]" for s
    using that fr by (simp add: build_apple_device_tree_def bs(1) len boot_res_def boot_fw_def
        allocate_pages_def boot_mem_def list_alloc_def pages PAGE_SIZE_def
        pages [unfolded PAGE_SIZE_def])
  define sl where "sl = snd (load_segments (segments macho) sa)"
  define sb where "sb = snd (sync_loaded_image (segments macho) sl)"
  have sb: "fw sb = [(p, n)]"
    by (simp add: sb_def sl_def sync_loaded_image_run load_segments_run sa)
  from tree [OF sb] obtain sc where sc: "build_apple_device_tree list_alloc [] sb =
      (Ok \<lparr>adt_ptr = 0x100000, adt_len = word_of_nat (length bs)\<rparr>, sc)"
    "fw sc = [(0x100000, 1), (p, n)]" by blast
  have sync: "load_segments (segments macho) sa = (Ok (), sl)"
    "sync_loaded_image (segments macho) sl = (Ok (), sb)"
    by (simp_all add: load_segments_run sync_loaded_image_run sl_def sb_def)
  define sd where "sd = sc\<lparr>fw := (0x180000, 1) # fw sc\<rparr>"
  have args: "allocate_boot_args_page list_alloc sc = (Ok 0x180000, sd)"
    using fr by (simp add: sd_def allocate_boot_args_page_def allocate_pages_def boot_fw_def list_alloc_def sc)
      (simp add: free_of_def PAGE_SIZE_def)
  define se where "se = sd\<lparr>fw := (0x200000, 16) # fw sd\<rparr>"
  have stack: "allocate_kernel_stack list_alloc sd = (Ok 0x210000, se)"
    using fr by (simp add: se_def sd_def allocate_kernel_stack_def STACK_PAGES_def allocate_pages_def
        boot_fw_def list_alloc_def sc) (simp add: free_of_def PAGE_SIZE_def checked_add_def boot_res_def)
  show ?thesis
    by (simp add: load_and_jump_to_kernel_def MachOImage_parse_new mp svc init read sa ktop boot_res_def sync sc args stack
        fill_boot_args_def ext boot_store_def jump_to_entry_def)
qed

lemma sample_load:
  assumes "mp [] = Ok sample_macho"
  shows "\<exists>s' a. load_and_jump_to_kernel mp (sort_key range_start) sample_services
      (sample_boot []) = (Ok \<lparr>reg_sp = 0x210000, reg_x0 = 0x180000, reg_pc = 0x1000\<rparr>, s') \<and>
      args_store s' 0x180000 = Some a \<and> device_tree_p a = 0x100000 \<and> top_of_kernel_data a = 0x3020"
proof -
  obtain sa where sa: "allocate_load_ranges (sort_key range_start) list_alloc sample_macho
      (sample_boot []) = (Ok (), sa)" "fw sa = [(0x1000, 3)]"
    by (simp add: allocate_load_ranges_def sample_macho_def sample_kernel_ranges
        boot_res_def merge_ranges_def merge_step_def allocate_range_run [OF sample_range_proper]
        list_alloc_def Let_def sample_boot_def div_ceil_u64_def PAGE_SIZE_u64_def PAGE_SIZE_def)
  have ktop: "kernel_top sample_macho = Ok 0x3020"
    by (simp add: kernel_top_def sample_macho_def sample_kernel_def sample_segment_def checked_add_def)
  have "entry sample_macho = 0x1000" by (simp add: sample_macho_def)
  with load_run [of mp "[]", OF assms sa _ _ ktop] show ?thesis by (simp add: sample_services_def)
qed

lemma sample_file_ok: "mp [] = Ok sample_macho \<Longrightarrow> kernel_file_ok mp sample_services"
  using sample_fits sample_apart by (auto simp: kernel_file_ok_def sample_services_def services_for_def)

theorem kernel_handover_witness:
  "\<exists>s' a root. load_and_jump_to_kernel (\<lambda>_. Ok sample_macho) (sort_key range_start) sample_services
      (sample_boot []) = (Ok \<lparr>reg_sp = 0x210000, reg_x0 = 0x180000, reg_pc = 0x1000\<rparr>, s') \<and>
     holds_image (mem s') sample_macho \<and> args_store s' 0x180000 = Some a \<and> revision a = 2 \<and>
     mem_slice (mem s') (device_tree_p a) (unat (device_tree_length a)) = enc_node root"
proof -
  let ?mp = "\<lambda>_. Ok sample_macho"
  obtain s' where run: "load_and_jump_to_kernel ?mp (sort_key range_start)
      sample_services (sample_boot []) =
      (Ok \<lparr>reg_sp = 0x210000, reg_x0 = 0x180000, reg_pc = 0x1000\<rparr>, s')"
    using sample_load [of ?mp] by blast
  have al: "page_allocator list_owned (svc_alloc sample_services)"
    by (simp add: sample_services_def services_for_def list_page_allocator)
  have ok: "kernel_file_ok ?mp sample_services" by (rule sample_file_ok) simp
  from kernel_handover [OF start_sort.range_sort_axioms al ok run] obtain macho a root where
    "(Ok sample_macho :: (mach_o, unit) res) = Ok macho" "holds_image (mem s') macho"
    "args_store s' 0x180000 = Some a" "revision a = 2"
    "mem_slice (mem s') (device_tree_p a) (unat (device_tree_length a)) = enc_node root" by auto
  with run show ?thesis by auto
qed

end
