(* ===== verification/Trap.thy ===== *)
theory Trap
  imports Xnu_Uart Phys_Mem
begin

text \<open>
  Traps from user mode: the saved register frame of
  \<open>kernel/src/arch/aarch64/context.rs\<close>, the system-call dispatcher of
  \<open>syscall.rs\<close> and the Rust exception handlers of \<open>exception.rs\<close>. A handler
  works on the frame, the console log and memory, and either returns
  or ends in the source's \<open>loop { spin_loop() }\<close> (constructor \<open>Spin\<close>). The values of
  \<open>ESR_EL1\<close> and \<open>FAR_EL1\<close> the code reads with \<open>mrs\<close> are arguments.
\<close>

datatype 'a flow = Return 'a | Spin

section \<open>The trap frame\<close>

record trap_frame =
  tf_x :: "u64 list"
  tf_sp :: u64
  tf_pc :: u64
  tf_pstate :: u64

definition wf_frame :: "trap_frame \<Rightarrow> bool" where
  "wf_frame f \<longleftrightarrow> length (tf_x f) = 31"

definition TrapFrame_new_user :: "u64 \<Rightarrow> u64 \<Rightarrow> trap_frame" where
  "TrapFrame_new_user entry_pc sp =
     \<lparr>tf_x = replicate 31 0, tf_sp = sp, tf_pc = entry_pc, tf_pstate = 0\<rparr>"

section \<open>System calls\<close>

definition SYS_EXIT :: u64 where "SYS_EXIT = 1"
definition SYS_WRITE :: u64 where "SYS_WRITE = 4"

definition set_x0 :: "u64 \<Rightarrow> trap_frame \<Rightarrow> trap_frame" where
  "set_x0 v f = f\<lparr>tf_x := (tf_x f)[0 := v]\<rparr>"

definition dispatch :: "memory \<Rightarrow> trap_frame \<Rightarrow> mmio_log \<Rightarrow> mmio_log \<times> trap_frame flow" where
  "dispatch m f log =
     (let nr = tf_x f ! 16 in
      if nr = SYS_EXIT then
        let code = tf_x f ! 0 in
        (write_str (ascii ('')'' @ [CHR 0x0A]))
           (write_hex_u64 code (write_str (ascii ''xnu-rs: user exit('') log)), Spin)
      else if nr = SYS_WRITE then
        let fd = tf_x f ! 0; buf_ptr = tf_x f ! 1; raw_len = tf_x f ! 2 in
        if (fd = 1 \<or> fd = 2) \<and> buf_ptr \<noteq> 0 \<and> raw_len \<le> 65536
        then (fold write_byte (mem_slice m buf_ptr (unat raw_len)) log, Return (set_x0 raw_len f))
        else (log, Return (set_x0 (- 1) f))
      else
        (write_str (ascii [CHR 0x0A])
           (write_hex_u64 nr (write_str (ascii ''xnu-rs: unimplemented syscall x16=0x'') log)),
         Return (set_x0 (- 1) f)))"

section \<open>Exception handlers\<close>

definition exception_lower_el_sync ::
  "u64 \<Rightarrow> u64 \<Rightarrow> memory \<Rightarrow> trap_frame \<Rightarrow> mmio_log \<Rightarrow> mmio_log \<times> trap_frame flow" where
  "exception_lower_el_sync esr far m f log =
     (let ec = drop_bit 26 esr AND 0x3f in
      if ec = 0x15 then dispatch m f log
      else (write_str (ascii [CHR 0x0A]) (write_hex_u64 (tf_pc f) (write_str (ascii '' ELR=0x'')
             (write_hex_u64 far (write_str (ascii '' FAR=0x'') (write_hex_u64 ec
             (write_str (ascii ''xnu-rs: unexpected lower-EL sync exception EC=0x'') log)))))),
            Spin))"

definition exception_el1_sync :: "u64 \<Rightarrow> trap_frame \<Rightarrow> mmio_log \<Rightarrow> mmio_log \<times> trap_frame flow" where
  "exception_el1_sync esr f log =
     (write_str (ascii [CHR 0x0A]) (write_hex_u64 (tf_pc f) (write_str (ascii '' ELR=0x'')
        (write_hex_u64 esr (write_str (ascii ''xnu-rs: kernel sync exception ESR=0x'') log)))), Spin)"

definition exception_el1_irq :: "trap_frame \<Rightarrow> mmio_log \<Rightarrow> mmio_log \<times> trap_frame flow" where
  "exception_el1_irq f log =
     (write_str (ascii (''xnu-rs: unhandled EL1 IRQ'' @ [CHR 0x0A])) log, Spin)"

definition exception_lower_el_irq :: "trap_frame \<Rightarrow> mmio_log \<Rightarrow> mmio_log \<times> trap_frame flow" where
  "exception_lower_el_irq f log =
     (write_str (ascii (''xnu-rs: unhandled lower-EL IRQ'' @ [CHR 0x0A])) log, Spin)"

section \<open>What a system call can do\<close>

lemma text_fold_bytes [simp]: "uart_text (fold write_byte bs log) = uart_text log @ bs"
  by (rule uart.shown_fold)

lemma set_x0_simps [simp]:
  "tf_sp (set_x0 v f) = tf_sp f" "tf_pc (set_x0 v f) = tf_pc f" "tf_pstate (set_x0 v f) = tf_pstate f"
  "tf_x (set_x0 v f) = (tf_x f)[0 := v]" "wf_frame (set_x0 v f) = wf_frame f"
  by (simp_all add: set_x0_def wf_frame_def)

text \<open>The arguments of a write the kernel accepts.\<close>

definition write_accepted :: "trap_frame \<Rightarrow> bool" where
  "write_accepted f \<longleftrightarrow> tf_x f ! 16 = 4 \<and> (tf_x f ! 0 = 1 \<or> tf_x f ! 0 = 2) \<and>
     tf_x f ! 1 \<noteq> 0 \<and> tf_x f ! 2 \<le> 65536"

lemma lower_el_sync_effect:
  "case exception_lower_el_sync esr far m f log of
     (log', Return f') \<Rightarrow> drop_bit 26 esr AND 0x3f = 0x15 \<and> tf_x f ! 16 \<noteq> 1 \<and>
       (\<exists>r out. f' = f\<lparr>tf_x := (tf_x f)[0 := r]\<rparr> \<and> uart_text log' = uart_text log @ out \<and>
          (if write_accepted f
           then r = tf_x f ! 2 \<and> out = mem_slice m (tf_x f ! 1) (unat (tf_x f ! 2)) \<and>
             length out \<le> 65536
           else r = - 1 \<and>
             out = (if tf_x f ! 16 = 4 then []
                    else ascii ''xnu-rs: unimplemented syscall x16=0x'' @ hex_text (tf_x f ! 16) @
                      [0x0A])))
   | (log', Spin) \<Rightarrow>
       (drop_bit 26 esr AND 0x3f = 0x15 \<and> tf_x f ! 16 = 1 \<and>
          uart_text log' = uart_text log @ ascii ''xnu-rs: user exit('' @ hex_text (tf_x f ! 0) @
            [0x29, 0x0A]) \<or>
       (drop_bit 26 esr AND 0x3f \<noteq> 0x15 \<and>
          uart_text log' = uart_text log @ ascii ''xnu-rs: unexpected lower-EL sync exception EC=0x'' @
            hex_text (drop_bit 26 esr AND 0x3f) @ ascii '' FAR=0x'' @ hex_text far @
            ascii '' ELR=0x'' @ hex_text (tf_pc f) @ [0x0A])"
proof (cases "drop_bit 26 esr AND 0x3f = 0x15")
  case False
  then show ?thesis by (simp add: exception_lower_el_sync_def Let_def ascii_def)
next
  case svc: True
  then have d: "exception_lower_el_sync esr far m f log = dispatch m f log"
    by (simp add: exception_lower_el_sync_def Let_def)
  consider "tf_x f ! 16 = 1" | "tf_x f ! 16 = 4" "write_accepted f"
    | "tf_x f ! 16 = 4" "\<not> write_accepted f" | "tf_x f ! 16 \<noteq> 1" "tf_x f ! 16 \<noteq> 4" by blast
  then show ?thesis
  proof cases
    case 1
    with svc show ?thesis by (simp add: d dispatch_def SYS_EXIT_def Let_def ascii_def)
  next
    case 2
    then have "unat (tf_x f ! 2) \<le> 65536" by (simp add: write_accepted_def word_le_nat_alt)
    with 2 svc show ?thesis
      by (auto simp: d dispatch_def SYS_EXIT_def SYS_WRITE_def Let_def set_x0_def write_accepted_def)
  next
    case 3
    with svc show ?thesis
      by (auto simp: d dispatch_def SYS_EXIT_def SYS_WRITE_def Let_def set_x0_def write_accepted_def)
  next
    case 4
    with svc show ?thesis
      by (auto simp: d dispatch_def SYS_EXIT_def SYS_WRITE_def Let_def set_x0_def write_accepted_def
          ascii_def)
  qed
qed

text \<open>Every synchronous exception from user mode is confined to its documented effect. Only an
  \<open>SVC\<close> with a call number other than exit returns to the program; then the stack pointer, program
  counter, processor state and all registers but \<open>x0\<close> are unchanged, an accepted write returns
  its length and sends exactly the user's bytes (at most 65536) to the console, a rejected one
  sends nothing and returns -1, and an unknown call returns -1 after one diagnostic line. Exit
  reports its code and anything that is not an \<open>SVC\<close> is reported, and neither returns.\<close>

theorem user_trap_effect:
  "case exception_lower_el_sync esr far m f log of
     (log', Return f') \<Rightarrow> drop_bit 26 esr AND 0x3f = 0x15 \<and> tf_x f ! 16 \<noteq> 1 \<and>
       (\<exists>r out. f' = f\<lparr>tf_x := (tf_x f)[0 := r]\<rparr> \<and> uart_text log' = uart_text log @ out \<and>
          (if write_accepted f
           then r = tf_x f ! 2 \<and> out = mem_slice m (tf_x f ! 1) (unat (tf_x f ! 2)) \<and>
             length out \<le> 65536
           else r = - 1 \<and>
             out = (if tf_x f ! 16 = 4 then []
                    else ascii ''xnu-rs: unimplemented syscall x16=0x'' @ hex_text (tf_x f ! 16) @
                      [0x0A])))
   | (log', Spin) \<Rightarrow>
       (drop_bit 26 esr AND 0x3f = 0x15 \<and> tf_x f ! 16 = 1 \<and>
          uart_text log' = uart_text log @ ascii ''xnu-rs: user exit('' @ hex_text (tf_x f ! 0) @
            [0x29, 0x0A]) \<or>
       (drop_bit 26 esr AND 0x3f \<noteq> 0x15 \<and>
          uart_text log' = uart_text log @ ascii ''xnu-rs: unexpected lower-EL sync exception EC=0x'' @
            hex_text (drop_bit 26 esr AND 0x3f) @ ascii '' FAR=0x'' @ hex_text far @
            ascii '' ELR=0x'' @ hex_text (tf_pc f) @ [0x0A])"
  by (rule lower_el_sync_effect)

end
