(* ===== verification/Exception_Vectors.thy ===== *)
theory Exception_Vectors
  imports Trap
begin

text \<open>
  The assembly of \<open>kernel/src/arch/aarch64/exception.rs\<close>: the vector table, the
  save/restore trampoline and \<open>user_enter\<close>, as instruction lists executed on a
  register-and-memory state. The trap frame is the byte layout of the
  \<open>#[repr(C)]\<close> structure: 34 consecutive 64-bit words. The compiled code of the Rust
  handlers is the parameter \<open>call\<close>; \<open>implements\<close> states what the AArch64 procedure call standard
  promises of it: the frame passed in \<open>x0\<close> is updated as the handler's source says, the
  stack pointer is preserved, other registers may be clobbered.
\<close>

section \<open>Machine state\<close>

datatype sysreg = SP_EL0 | ELR_EL1 | SPSR_EL1 | ESR_EL1 | FAR_EL1 | VBAR_EL1

record cpu =
  gpr :: "nat \<Rightarrow> u64"
  sp_reg :: u64
  sysr :: "sysreg \<Rightarrow> u64"
  ram :: memory
  tty :: mmio_log
  cur_pc :: u64
  cur_pstate :: u64

datatype outcome = Running cpu | Halted cpu

definition ld64 :: "memory \<Rightarrow> u64 \<Rightarrow> nat \<Rightarrow> u64" where
  "ld64 m a off = word_of_nat (le_val (mem_slice m (a + word_of_nat off) 8))"

definition st64 :: "u64 \<Rightarrow> nat \<Rightarrow> u64 \<Rightarrow> memory \<Rightarrow> memory" where
  "st64 a off v m = mem_write (a + word_of_nat off) (u64_to_le_bytes v) m"

text \<open>A \<open>TrapFrame\<close> at an address.\<close>

definition frame_at :: "memory \<Rightarrow> u64 \<Rightarrow> trap_frame" where
  "frame_at m a =
     \<lparr>tf_x = map (\<lambda>i. ld64 m a (8 * i)) [0..<31], tf_sp = ld64 m a (8 * 31),
      tf_pc = ld64 m a (8 * 32), tf_pstate = ld64 m a (8 * 33)\<rparr>"

definition TRAP_FRAME_SIZE :: nat where
  "TRAP_FRAME_SIZE = 272"

section \<open>Instructions\<close>

datatype handler = H_lower_el_sync | H_lower_el_irq | H_el1_sync | H_el1_irq

datatype base = Sp | X nat

datatype instr =
    SubSp nat | AddSp nat
  | Stp nat nat nat | Str nat nat
  | Ldp nat nat base nat | Ldr nat base nat
  | Mrs nat sysreg | Msr sysreg nat
  | MovSp nat | Bl handler | Eret

fun base_addr :: "base \<Rightarrow> cpu \<Rightarrow> u64" where
  "base_addr Sp c = sp_reg c"
| "base_addr (X n) c = gpr c n"

fun exec :: "(handler \<Rightarrow> cpu \<Rightarrow> outcome) \<Rightarrow> instr \<Rightarrow> cpu \<Rightarrow> outcome" where
  "exec call (SubSp n) c = Running (c\<lparr>sp_reg := sp_reg c - word_of_nat n\<rparr>)"
| "exec call (AddSp n) c = Running (c\<lparr>sp_reg := sp_reg c + word_of_nat n\<rparr>)"
| "exec call (Stp a b off) c =
     Running (c\<lparr>ram := st64 (sp_reg c) (off + 8) (gpr c b) (st64 (sp_reg c) off (gpr c a) (ram c))\<rparr>)"
| "exec call (Str a off) c = Running (c\<lparr>ram := st64 (sp_reg c) off (gpr c a) (ram c)\<rparr>)"
| "exec call (Ldp a b bs off) c =
     Running (c\<lparr>gpr := (gpr c)(a := ld64 (ram c) (base_addr bs c) off,
                                b := ld64 (ram c) (base_addr bs c) (off + 8))\<rparr>)"
| "exec call (Ldr a bs off) c = Running (c\<lparr>gpr := (gpr c)(a := ld64 (ram c) (base_addr bs c) off)\<rparr>)"
| "exec call (Mrs a r) c = Running (c\<lparr>gpr := (gpr c)(a := sysr c r)\<rparr>)"
| "exec call (Msr r a) c = Running (c\<lparr>sysr := (sysr c)(r := gpr c a)\<rparr>)"
| "exec call (MovSp a) c = Running (c\<lparr>gpr := (gpr c)(a := sp_reg c)\<rparr>)"
| "exec call (Bl h) c = call h c"
| "exec call Eret c = Running (c\<lparr>cur_pc := sysr c ELR_EL1, cur_pstate := sysr c SPSR_EL1\<rparr>)"

primrec run :: "(handler \<Rightarrow> cpu \<Rightarrow> outcome) \<Rightarrow> instr list \<Rightarrow> cpu \<Rightarrow> outcome" where
  "run call [] c = Running c"
| "run call (i # is) c =
     (case exec call i c of Running c' \<Rightarrow> run call is c' | Halted c' \<Rightarrow> Halted c')"

definition save_frame :: "instr list" where
  "save_frame =
     [SubSp 272,
      Stp 0 1 0, Stp 2 3 16, Stp 4 5 32, Stp 6 7 48, Stp 8 9 64, Stp 10 11 80, Stp 12 13 96,
      Stp 14 15 112, Stp 16 17 128, Stp 18 19 144, Stp 20 21 160, Stp 22 23 176, Stp 24 25 192,
      Stp 26 27 208, Stp 28 29 224, Str 30 240,
      Mrs 0 SP_EL0, Str 0 248, Mrs 0 ELR_EL1, Str 0 256, Mrs 0 SPSR_EL1, Str 0 264]"

definition restore_frame :: "instr list" where
  "restore_frame =
     [Ldr 0 Sp 264, Msr SPSR_EL1 0, Ldr 0 Sp 256, Msr ELR_EL1 0, Ldr 0 Sp 248, Msr SP_EL0 0,
      Ldp 28 29 Sp 224, Ldr 30 Sp 240, Ldp 26 27 Sp 208, Ldp 24 25 Sp 192, Ldp 22 23 Sp 176,
      Ldp 20 21 Sp 160, Ldp 18 19 Sp 144, Ldp 16 17 Sp 128, Ldp 14 15 Sp 112, Ldp 12 13 Sp 96,
      Ldp 10 11 Sp 80, Ldp 8 9 Sp 64, Ldp 6 7 Sp 48, Ldp 4 5 Sp 32, Ldp 2 3 Sp 16, Ldp 0 1 Sp 0,
      AddSp 272, Eret]"

definition save_restore_eret :: "handler \<Rightarrow> instr list" where
  "save_restore_eret h = save_frame @ [MovSp 0, Bl h] @ restore_frame"

definition user_enter :: "instr list" where
  "user_enter =
     [Ldr 1 (X 0) 248, Msr SP_EL0 1, Ldr 1 (X 0) 256, Msr ELR_EL1 1, Ldr 1 (X 0) 264, Msr SPSR_EL1 1,
      Ldp 2 3 (X 0) 16, Ldp 4 5 (X 0) 32, Ldp 6 7 (X 0) 48, Ldp 8 9 (X 0) 64, Ldp 10 11 (X 0) 80,
      Ldp 12 13 (X 0) 96, Ldp 14 15 (X 0) 112, Ldp 16 17 (X 0) 128, Ldp 18 19 (X 0) 144,
      Ldp 20 21 (X 0) 160, Ldp 22 23 (X 0) 176, Ldp 24 25 (X 0) 192, Ldp 26 27 (X 0) 208,
      Ldp 28 29 (X 0) 224, Ldr 30 (X 0) 240, Ldp 0 1 (X 0) 0, Eret]"

text \<open>\<open>install_vectors\<close>: the address of the table goes to \<open>VBAR_EL1\<close>.\<close>

definition install_vectors :: "u64 \<Rightarrow> cpu \<Rightarrow> cpu" where
  "install_vectors table c = c\<lparr>sysr := (sysr c)(VBAR_EL1 := table)\<rparr>"

section \<open>The vector table\<close>

datatype vlabel =
    el1_sp0_sync | el1_sp0_irq | el1_sp0_fiq | el1_sp0_serror
  | el1_spx_sync | el1_spx_irq | el1_spx_fiq | el1_spx_serror
  | lower_el_sync | lower_el_irq | lower_el_fiq | lower_el_serror
  | lower_el_aarch32_sync | lower_el_aarch32_irq | lower_el_aarch32_fiq | lower_el_aarch32_serror

definition vector_table :: "vlabel list" where
  "vector_table =
     [el1_sp0_sync, el1_sp0_irq, el1_sp0_fiq, el1_sp0_serror,
      el1_spx_sync, el1_spx_irq, el1_spx_fiq, el1_spx_serror,
      lower_el_sync, lower_el_irq, lower_el_fiq, lower_el_serror,
      lower_el_aarch32_sync, lower_el_aarch32_irq, lower_el_aarch32_fiq, lower_el_aarch32_serror]"

text \<open>\<open>ventry\<close>: \<open>.align 7\<close>, then one 4-byte branch; the offsets of the branches.\<close>

primrec ventry_offsets :: "nat \<Rightarrow> vlabel list \<Rightarrow> (nat \<times> vlabel) list" where
  "ventry_offsets off [] = []"
| "ventry_offsets off (l # ls) =
     (let o' = 128 * ((off + 127) div 128) in (o', l) # ventry_offsets (o' + 4) ls)"

text \<open>The code at a label: a branch to itself, or the trampoline of a handler.\<close>

datatype vcode = BranchSelf | SaveRestoreEret handler

fun label_code :: "vlabel \<Rightarrow> vcode" where
  "label_code el1_spx_sync = SaveRestoreEret H_el1_sync"
| "label_code el1_spx_irq = SaveRestoreEret H_el1_irq"
| "label_code lower_el_sync = SaveRestoreEret H_lower_el_sync"
| "label_code lower_el_irq = SaveRestoreEret H_lower_el_irq"
| "label_code _ = BranchSelf"

section \<open>Words in memory\<close>

lemma u64_of_le_bytes: "word_of_nat (le_val (u64_to_le_bytes v)) = (v :: u64)"
  using unat_bound [of v] by (simp add: u64_to_le_bytes_def le_val_to_le)

lemma ld64_st64_same [simp]: "ld64 (st64 a off v m) a off = v"
proof -
  have "mem_slice (mem_write (a + word_of_nat off) (u64_to_le_bytes v) m) (a + word_of_nat off) 8 =
      u64_to_le_bytes v"
    using mem_slice_write [of "u64_to_le_bytes v"] by simp
  then show ?thesis by (simp add: ld64_def st64_def u64_of_le_bytes)
qed

text \<open>Distinct word slots of a frame do not overlap, wherever the frame is.\<close>

lemma slot_regions_disjoint:
  assumes "8 dvd o1" "8 dvd o2" "o1 \<noteq> o2" "o1 < 2 ^ 32" "o2 < 2 ^ 32"
  shows "region (a + word_of_nat o1) 8 \<inter> region (a + word_of_nat o2) 8 = {}"
proof (rule ccontr)
  assume "\<not> ?thesis"
  then obtain x where x: "unat (x - (a + word_of_nat o1)) < 8" "unat (x - (a + word_of_nat o2)) < 8"
    by (auto simp: region_def)
  have off: "unat (x - a) = off + unat (x - (a + word_of_nat off))"
    if "off < 2 ^ 32" "unat (x - (a + word_of_nat off)) < 8" for off
  proof -
    have u: "unat (word_of_nat off :: u64) = off" using that(1) by (simp add: unat_of_nat)
    have "x - a = word_of_nat off + (x - (a + word_of_nat off))" by simp
    moreover have "unat (word_of_nat off + (x - (a + word_of_nat off))) =
        off + unat (x - (a + word_of_nat off))"
      using that u by (subst unat_add_nowrap) simp_all
    ultimately show ?thesis by simp
  qed
  have e: "o1 + unat (x - (a + word_of_nat o1)) = o2 + unat (x - (a + word_of_nat o2))"
    using off [OF assms(4) x(1)] off [OF assms(5) x(2)] by linarith
  from assms(1,2) obtain p q where "o1 = 8 * p" "o2 = 8 * q" by (auto elim!: dvdE)
  with e x assms(3) show False by presburger
qed

lemma mem_slice_frame:
  "region b n \<inter> region a (length bs) = {} \<Longrightarrow> n \<le> 2 ^ 64 \<Longrightarrow>
   mem_slice (mem_write a bs m) b n = mem_slice m b n"
proof (rule nth_equalityI)
  fix i
  assume d: "region b n \<inter> region a (length bs) = {}" and n: "n \<le> 2 ^ 64"
    and "i < length (mem_slice (mem_write a bs m) b n)"
  then have i: "i < n" by simp
  with n have "b + word_of_nat i \<in> region b n" by (intro region_offset) simp_all
  with d have "b + word_of_nat i \<notin> region a (length bs)" by blast
  with i show "mem_slice (mem_write a bs m) b n ! i = mem_slice m b n ! i"
    by (simp add: mem_write_out)
qed simp

lemma ld64_st64_other:
  assumes "8 dvd o1" "8 dvd o2" "o1 \<noteq> o2" "o1 < 2 ^ 32" "o2 < 2 ^ 32"
  shows "ld64 (st64 a o1 v m) a o2 = ld64 m a o2"
  using slot_regions_disjoint [of o2 o1 a] assms
  by (simp add: ld64_def st64_def mem_slice_frame)

section \<open>Saving and restoring\<close>

lemma run_append:
  "run call (is @ js) c = (case run call is c of Running c' \<Rightarrow> run call js c' | Halted c' \<Rightarrow> Halted c')"
  by (induction "is" arbitrary: c) (simp_all split: outcome.splits)

text \<open>The processor state a trap frame captures.\<close>

definition captured :: "cpu \<Rightarrow> trap_frame" where
  "captured c = \<lparr>tf_x = map (gpr c) [0..<31], tf_sp = sysr c SP_EL0, tf_pc = sysr c ELR_EL1,
     tf_pstate = sysr c SPSR_EL1\<rparr>"

lemma regs31:
  "[0..<31] = [0, 1, 2, 3, 4, 5, 6, 7, 8, 9, 10, 11, 12, 13, 14, 15, 16, 17, 18, 19, 20, 21, 22, 23,
     24, 25, 26, 27, 28, 29, 30]"
  by code_simp

lemma st64_out:
  assumes "off + 8 \<le> n" "n < 2 ^ 64" "x \<notin> region a n"
  shows "st64 a off v m x = m x"
proof -
  have "x \<notin> region (a + word_of_nat off) 8" using region_within [OF assms(1,2)] assms(3) by blast
  then show ?thesis by (simp add: st64_def mem_write_out)
qed

lemma save_frame_run:
  "\<exists>c'. run call save_frame c = Running c' \<and> sp_reg c' = sp_reg c - 272 \<and>
     frame_at (ram c') (sp_reg c') = captured c \<and> sysr c' = sysr c \<and> tty c' = tty c \<and>
     (\<forall>x. x \<notin> region (sp_reg c - 272) 272 \<longrightarrow> ram c' x = ram c x)"
  by (simp add: save_frame_def frame_at_def captured_def ld64_st64_other st64_out [where n = 272] regs31)

text \<open>The registers a processor has after a frame was loaded into them.\<close>

lemma restore_frame_run:
  "\<exists>c'. run call restore_frame c = Running c' \<and> sp_reg c' = sp_reg c + 272 \<and>
     captured c' = frame_at (ram c) (sp_reg c) \<and>
     cur_pc c' = tf_pc (captured c') \<and> cur_pstate c' = tf_pstate (captured c') \<and> tty c' = tty c"
  by (simp add: restore_frame_def frame_at_def captured_def regs31)

lemma user_enter_run:
  "\<exists>c'. run call user_enter c = Running c' \<and> captured c' = frame_at (ram c) (gpr c 0) \<and>
     cur_pc c' = tf_pc (captured c') \<and> cur_pstate c' = tf_pstate (captured c') \<and> tty c' = tty c \<and>
     sysr c' VBAR_EL1 = sysr c VBAR_EL1 \<and> ram c' = ram c"
  by (simp add: user_enter_def frame_at_def captured_def regs31)

section \<open>Traps end to end\<close>

definition rust_handler ::
  "handler \<Rightarrow> u64 \<Rightarrow> u64 \<Rightarrow> memory \<Rightarrow> trap_frame \<Rightarrow> mmio_log \<Rightarrow> mmio_log \<times> trap_frame flow" where
  "rust_handler h esr far m f log =
     (case h of
        H_lower_el_sync \<Rightarrow> exception_lower_el_sync esr far m f log
      | H_lower_el_irq \<Rightarrow> exception_lower_el_irq f log
      | H_el1_sync \<Rightarrow> exception_el1_sync esr f log
      | H_el1_irq \<Rightarrow> exception_el1_irq f log)"

definition implements :: "(handler \<Rightarrow> cpu \<Rightarrow> outcome) \<Rightarrow> bool" where
  "implements call \<longleftrightarrow> (\<forall>h c.
     case rust_handler h (sysr c ESR_EL1) (sysr c FAR_EL1) (ram c) (frame_at (ram c) (gpr c 0)) (tty c) of
       (log', Return f') \<Rightarrow> (\<exists>c'. call h c = Running c' \<and> sp_reg c' = sp_reg c \<and>
          frame_at (ram c') (gpr c 0) = f' \<and> tty c' = log')
     | (log', Spin) \<Rightarrow> (\<exists>c'. call h c = Halted c' \<and> tty c' = log'))"

text \<open>What the processor does on an exception: it saves the interrupted program counter and state
  and records the cause.\<close>

definition exception_entry :: "u64 \<Rightarrow> u64 \<Rightarrow> cpu \<Rightarrow> cpu" where
  "exception_entry esr far c = c\<lparr>sysr := (sysr c)(ELR_EL1 := cur_pc c, SPSR_EL1 := cur_pstate c,
     ESR_EL1 := esr, FAR_EL1 := far)\<rparr>"

datatype exc_source = CurrentSp0 | CurrentSpx | LowerA64 | LowerA32

datatype exc_kind = Synchronous | Irq | Fiq | SError

text \<open>The offset from the vector base at which the architecture enters, by the source of the
  exception and its kind.\<close>

definition vector_offset :: "exc_source \<Rightarrow> exc_kind \<Rightarrow> nat" where
  "vector_offset src k =
     (case src of CurrentSp0 \<Rightarrow> 0 | CurrentSpx \<Rightarrow> 0x200 | LowerA64 \<Rightarrow> 0x400 | LowerA32 \<Rightarrow> 0x600) +
     (case k of Synchronous \<Rightarrow> 0 | Irq \<Rightarrow> 0x80 | Fiq \<Rightarrow> 0x100 | SError \<Rightarrow> 0x180)"

text \<open>Taking an exception: the branch found at that offset of the installed table leads to the label's
  code. A branch to itself never leaves, and neither does a table without an entry at the offset.\<close>

definition take_trap ::
  "(handler \<Rightarrow> cpu \<Rightarrow> outcome) \<Rightarrow> exc_source \<Rightarrow> exc_kind \<Rightarrow> u64 \<Rightarrow> u64 \<Rightarrow> cpu \<Rightarrow> outcome" where
  "take_trap call src k esr far c =
     (case map_option label_code (map_of (ventry_offsets 0 vector_table) (vector_offset src k)) of
        Some (SaveRestoreEret h) \<Rightarrow> run call (save_restore_eret h) (exception_entry esr far c)
      | _ \<Rightarrow> Halted (exception_entry esr far c))"

text \<open>Which trampoline each exception runs.\<close>

fun handler_of :: "exc_source \<Rightarrow> exc_kind \<Rightarrow> handler option" where
  "handler_of LowerA64 Synchronous = Some H_lower_el_sync"
| "handler_of LowerA64 Irq = Some H_lower_el_irq"
| "handler_of CurrentSpx Synchronous = Some H_el1_sync"
| "handler_of CurrentSpx Irq = Some H_el1_irq"
| "handler_of _ _ = None"

lemma vector_table_offsets:
  "ventry_offsets 0 vector_table =
     [(0, el1_sp0_sync), (0x80, el1_sp0_irq), (0x100, el1_sp0_fiq), (0x180, el1_sp0_serror),
      (0x200, el1_spx_sync), (0x280, el1_spx_irq), (0x300, el1_spx_fiq), (0x380, el1_spx_serror),
      (0x400, lower_el_sync), (0x480, lower_el_irq), (0x500, lower_el_fiq), (0x580, lower_el_serror),
      (0x600, lower_el_aarch32_sync), (0x680, lower_el_aarch32_irq), (0x700, lower_el_aarch32_fiq),
      (0x780, lower_el_aarch32_serror)]"
  by (simp add: vector_table_def Let_def)

lemma vector_entry:
  "map_option label_code (map_of (ventry_offsets 0 vector_table) (vector_offset src k)) =
     Some (case handler_of src k of Some h \<Rightarrow> SaveRestoreEret h | None \<Rightarrow> BranchSelf)"
  unfolding vector_table_offsets by (cases src; cases k) (simp_all add: vector_offset_def)

lemma take_trap_handler:
  "take_trap call src k esr far c =
     (case handler_of src k of
        Some h \<Rightarrow> run call (save_restore_eret h) (exception_entry esr far c)
      | None \<Rightarrow> Halted (exception_entry esr far c))"
  by (simp add: take_trap_def vector_entry split: option.split)

text \<open>How a trampoline ends, given what its handler did.\<close>

definition trap_outcome :: "outcome \<Rightarrow> cpu \<Rightarrow> mmio_log \<Rightarrow> trap_frame flow \<Rightarrow> bool" where
  "trap_outcome out c log' fl \<longleftrightarrow>
     (case fl of
        Return f' \<Rightarrow> (\<exists>c'. out = Running c' \<and> captured c' = f' \<and> cur_pc c' = tf_pc f' \<and>
          cur_pstate c' = tf_pstate f' \<and> sp_reg c' = sp_reg c \<and> tty c' = log')
      | Spin \<Rightarrow> (\<exists>c'. out = Halted c' \<and> tty c' = log'))"

lemma implementsD:
  assumes "implements call"
    and "rust_handler h (sysr c ESR_EL1) (sysr c FAR_EL1) (ram c) (frame_at (ram c) (gpr c 0)) (tty c) =
      (log', fl)"
  shows "case fl of
      Return f' \<Rightarrow> (\<exists>c'. call h c = Running c' \<and> sp_reg c' = sp_reg c \<and>
        frame_at (ram c') (gpr c 0) = f' \<and> tty c' = log')
    | Spin \<Rightarrow> (\<exists>c'. call h c = Halted c' \<and> tty c' = log')"
  using assms(1) [unfolded implements_def, rule_format, of h c] by (simp add: assms(2))

lemma trampoline_run:
  assumes "implements call"
  shows "\<exists>m1 log' fl. (\<forall>x. x \<notin> region (sp_reg c - 272) 272 \<longrightarrow> m1 x = ram c x) \<and>
    rust_handler h (sysr c ESR_EL1) (sysr c FAR_EL1) m1 (captured c) (tty c) = (log', fl) \<and>
    trap_outcome (run call (save_restore_eret h) c) c log' fl"
proof -
  obtain c1 where c1: "run call save_frame c = Running c1" "sp_reg c1 = sp_reg c - 272"
    "frame_at (ram c1) (sp_reg c1) = captured c" "sysr c1 = sysr c" "tty c1 = tty c"
    and m: "\<forall>x. x \<notin> region (sp_reg c - 272) 272 \<longrightarrow> ram c1 x = ram c x"
    using save_frame_run [of call c] by auto
  define c2 where "c2 = c1\<lparr>gpr := (gpr c1)(0 := sp_reg c1)\<rparr>"
  have run2: "run call (save_restore_eret h) c =
      (case call h c2 of Running c3 \<Rightarrow> run call restore_frame c3 | Halted c3 \<Rightarrow> Halted c3)"
    by (simp add: save_restore_eret_def run_append c1(1) c2_def)
  obtain log' fl where h: "rust_handler h (sysr c ESR_EL1) (sysr c FAR_EL1) (ram c1) (captured c) (tty c) =
      (log', fl)" by (cases "rust_handler h (sysr c ESR_EL1) (sysr c FAR_EL1) (ram c1) (captured c) (tty c)")
  have "rust_handler h (sysr c2 ESR_EL1) (sysr c2 FAR_EL1) (ram c2) (frame_at (ram c2) (gpr c2 0)) (tty c2)
      = (log', fl)"
    using h by (simp add: c2_def c1(2,4,5) c1(3) [unfolded c1(2)])
  note im = implementsD [OF assms this]
  have "trap_outcome (run call (save_restore_eret h) c) c log' fl"
  proof (cases fl)
    case (Return f')
    with im obtain c3 where c3: "call h c2 = Running c3" "sp_reg c3 = sp_reg c2"
      "frame_at (ram c3) (gpr c2 0) = f'" "tty c3 = log'" by auto
    obtain c4 where c4: "run call restore_frame c3 = Running c4" "sp_reg c4 = sp_reg c3 + 272"
      "captured c4 = frame_at (ram c3) (sp_reg c3)" "cur_pc c4 = tf_pc (captured c4)"
      "cur_pstate c4 = tf_pstate (captured c4)" "tty c4 = tty c3"
      using restore_frame_run [of call c3] by auto
    have sp: "gpr c2 0 = sp_reg c3" "sp_reg c3 = sp_reg c - 272" by (simp_all add: c3 c2_def c1)
    with c3(3) c4(3) have "captured c4 = f'" by simp
    moreover have "sp_reg c4 = sp_reg c" using c4(2) sp(2) by simp
    ultimately show ?thesis using c3(1,4) c4(1,4,5,6) Return by (simp add: run2 trap_outcome_def)
  next
    case Spin
    with im obtain c3 where "call h c2 = Halted c3" "tty c3 = log'" by auto
    with Spin show ?thesis by (simp add: run2 trap_outcome_def)
  qed
  with m h show ?thesis by auto
qed

lemma captured_eqD:
  assumes "captured c' = f"
  shows "\<And>i. i < 31 \<Longrightarrow> gpr c' i = tf_x f ! i" "sysr c' SP_EL0 = tf_sp f"
  using assms by (auto simp: captured_def)

text \<open>The frame of the interrupted user program.\<close>

definition user_frame :: "cpu \<Rightarrow> trap_frame" where
  "user_frame c =
     \<lparr>tf_x = map (gpr c) [0..<31], tf_sp = sysr c SP_EL0, tf_pc = cur_pc c, tf_pstate = cur_pstate c\<rparr>"

lemma user_frame_x: "i < 31 \<Longrightarrow> tf_x (user_frame c) ! i = gpr c i"
  by (simp add: user_frame_def)

lemma user_frame_len: "length (tf_x (user_frame c)) = 31"
  by (simp add: user_frame_def)

lemma entry_simps:
  "captured (exception_entry esr far c) = user_frame c" "sp_reg (exception_entry esr far c) = sp_reg c"
  "tty (exception_entry esr far c) = tty c" "ram (exception_entry esr far c) = ram c"
  "sysr (exception_entry esr far c) ESR_EL1 = esr" "sysr (exception_entry esr far c) FAR_EL1 = far"
  by (simp_all add: captured_def exception_entry_def user_frame_def)

lemma user_trap_run:
  assumes "implements call"
  shows "\<exists>m1 log' fl. (\<forall>x. x \<notin> region (sp_reg c - 272) 272 \<longrightarrow> m1 x = ram c x) \<and>
    exception_lower_el_sync esr far m1 (user_frame c) (tty c) = (log', fl) \<and>
    trap_outcome (take_trap call LowerA64 Synchronous esr far c) c log' fl"
proof -
  have "trap_outcome out (exception_entry esr far c) log' fl = trap_outcome out c log' fl" for out log' fl
    by (cases fl) (simp_all add: trap_outcome_def entry_simps)
  with trampoline_run [OF assms, of "exception_entry esr far c" H_lower_el_sync] show ?thesis
    by (simp add: entry_simps rust_handler_def take_trap_handler)
qed

lemma trap_preserved:
  assumes "implements call" "take_trap call LowerA64 Synchronous esr far c = Running c'"
  shows "(\<forall>i. 0 < i \<and> i < 31 \<longrightarrow> gpr c' i = gpr c i) \<and> sysr c' SP_EL0 = sysr c SP_EL0 \<and>
    cur_pc c' = cur_pc c \<and> cur_pstate c' = cur_pstate c \<and> sp_reg c' = sp_reg c"
proof -
  obtain m1 log' fl where
    h: "exception_lower_el_sync esr far m1 (user_frame c) (tty c) = (log', fl)" and
    out: "trap_outcome (Running c') c log' fl"
    using user_trap_run [OF assms(1), of c esr far] by (auto simp: assms(2))
  then obtain f' where fl: "fl = Return f'" by (cases fl) (auto simp: trap_outcome_def)
  with out have c': "captured c' = f'" "cur_pc c' = tf_pc f'"
    "cur_pstate c' = tf_pstate f'" "sp_reg c' = sp_reg c" by (simp_all add: trap_outcome_def)
  obtain r where f': "f' = (user_frame c)\<lparr>tf_x := (tf_x (user_frame c))[0 := r]\<rparr>"
    using lower_el_sync_effect [where esr = esr and far = far and m = m1 and f = "user_frame c" and log = "tty c"] by (auto simp: h fl)
  have "gpr c' i = gpr c i" if "0 < i" "i < 31" for i
    using captured_eqD(1) [OF c'(1) that(2)] that by (simp add: f' user_frame_def)
  moreover have "sysr c' SP_EL0 = sysr c SP_EL0"
    using captured_eqD(2) [OF c'(1)] by (simp add: f' user_frame_def)
  ultimately show ?thesis using c'(2-4) by (simp add: f' user_frame_def)
qed

text \<open>C6: a trap does not disturb the interrupted program. When a synchronous exception from user
  mode returns, the assembly has restored the kernel stack pointer, the user stack pointer, the
  program counter, the processor state and every general register except \<open>x0\<close>, whatever
  registers the compiled handler clobbered. The SIMD and floating-point registers \<open>v0\<close> to \<open>v31\<close> are not part of this: the
  trampoline does not save them and the model's processor state does not have them.\<close>

theorem trap_preserves_user_state:
  assumes "implements call" "take_trap call LowerA64 Synchronous esr far c = Running c'"
  shows "(\<forall>i. 0 < i \<and> i < 31 \<longrightarrow> gpr c' i = gpr c i) \<and> sysr c' SP_EL0 = sysr c SP_EL0 \<and>
    cur_pc c' = cur_pc c \<and> cur_pstate c' = cur_pstate c \<and> sp_reg c' = sp_reg c"
  using assms by (rule trap_preserved)

lemma write_trap:
  assumes "implements call" "drop_bit 26 esr AND 0x3f = 0x15"
    and "gpr c 16 = 4" "gpr c 0 = 1 \<or> gpr c 0 = 2" "gpr c 1 \<noteq> 0" "gpr c 2 \<le> 65536"
    and "region (gpr c 1) (unat (gpr c 2)) \<inter> region (sp_reg c - 272) 272 = {}"
  shows "\<exists>c'. take_trap call LowerA64 Synchronous esr far c = Running c' \<and> gpr c' 0 = gpr c 2 \<and>
    uart_text (tty c') = uart_text (tty c) @ mem_slice (ram c) (gpr c 1) (unat (gpr c 2))"
proof -
  obtain m1 log' fl where
    m1: "\<forall>x. x \<notin> region (sp_reg c - 272) 272 \<longrightarrow> m1 x = ram c x" and
    h: "exception_lower_el_sync esr far m1 (user_frame c) (tty c) = (log', fl)" and
    out: "trap_outcome (take_trap call LowerA64 Synchronous esr far c) c log' fl"
    using user_trap_run [OF assms(1), of c esr far] by auto
  have acc: "write_accepted (user_frame c)"
    using assms(3-6) by (auto simp: write_accepted_def user_frame_x)
  have x: "tf_x (user_frame c) ! 16 = 4" "tf_x (user_frame c) ! 1 = gpr c 1" "tf_x (user_frame c) ! 2 = gpr c 2"
    using assms(3) by (simp_all add: user_frame_x)
  have eff: "(\<exists>f'. fl = Return f' \<and> tf_x f' ! 0 = gpr c 2) \<and>
      uart_text log' = uart_text (tty c) @ mem_slice m1 (gpr c 1) (unat (gpr c 2))"
    using lower_el_sync_effect [where esr = esr and far = far and m = m1 and f = "user_frame c" and log = "tty c"] acc assms(2)
    by (cases fl) (auto simp: h x user_frame_len simp del: One_nat_def)
  have "mem_slice m1 (gpr c 1) (unat (gpr c 2)) = mem_slice (ram c) (gpr c 1) (unat (gpr c 2))"
  proof (rule nth_equalityI)
    fix i
    assume "i < length (mem_slice m1 (gpr c 1) (unat (gpr c 2)))"
    then have i: "i < unat (gpr c 2)" by simp
    with unat_bound [of "gpr c 2"] have "gpr c 1 + word_of_nat i \<in> region (gpr c 1) (unat (gpr c 2))"
      by (intro region_offset) simp_all
    with assms(7) m1 have "m1 (gpr c 1 + word_of_nat i) = ram c (gpr c 1 + word_of_nat i)" by blast
    with i show "mem_slice m1 (gpr c 1) (unat (gpr c 2)) ! i = mem_slice (ram c) (gpr c 1) (unat (gpr c 2)) ! i"
      by simp
  qed simp
  moreover from eff obtain f' where f': "fl = Return f'" "tf_x f' ! 0 = gpr c 2" by blast
  moreover from out f'(1) obtain c' where c': "take_trap call LowerA64 Synchronous esr far c = Running c'"
    "captured c' = f'" "tty c' = log'" by (auto simp: trap_outcome_def)
  moreover have "gpr c' 0 = gpr c 2" using captured_eqD(1) [OF c'(2), of 0] f'(2) by simp
  ultimately show ?thesis using eff by auto
qed

text \<open>C12: a user \<open>write\<close> to standard output or error, from \<open>SVC\<close> to return: if the buffer is not null,
  not longer than 65536 bytes and clear of the kernel's frame, the program resumes with the
  number of bytes in \<open>x0\<close>, and the console has received exactly the buffer's bytes.\<close>

theorem write_syscall_end_to_end:
  assumes "implements call" "drop_bit 26 esr AND 0x3f = 0x15"
    and "gpr c 16 = 4" "gpr c 0 = 1 \<or> gpr c 0 = 2" "gpr c 1 \<noteq> 0" "gpr c 2 \<le> 65536"
    and "region (gpr c 1) (unat (gpr c 2)) \<inter> region (sp_reg c - 272) 272 = {}"
  shows "\<exists>c'. take_trap call LowerA64 Synchronous esr far c = Running c' \<and> gpr c' 0 = gpr c 2 \<and>
    uart_text (tty c') = uart_text (tty c) @ mem_slice (ram c) (gpr c 1) (unat (gpr c 2))"
  using assms by (rule write_trap)

text \<open>A concrete call: run the handler's source on the frame and store the result.\<close>

definition write_frame :: "u64 \<Rightarrow> trap_frame \<Rightarrow> memory \<Rightarrow> memory" where
  "write_frame a f m = fold (\<lambda>(i, v). st64 a (8 * i) v)
     (enumerate 0 (tf_x f @ [tf_sp f, tf_pc f, tf_pstate f])) m"

definition exact_call :: "handler \<Rightarrow> cpu \<Rightarrow> outcome" where
  "exact_call h c =
     (case rust_handler h (sysr c ESR_EL1) (sysr c FAR_EL1) (ram c) (frame_at (ram c) (gpr c 0)) (tty c) of
        (log', Return f') \<Rightarrow> Running (c\<lparr>ram := write_frame (gpr c 0) f' (ram c), tty := log'\<rparr>)
      | (log', Spin) \<Rightarrow> Halted (c\<lparr>tty := log'\<rparr>))"

lemma ld64_stored:
  assumes "k + length vs \<le> 64" "j < 64"
  shows "ld64 (fold (\<lambda>(i, v). st64 a (8 * i) v) (enumerate k vs) m) a (8 * j) =
    (if k \<le> j \<and> j < k + length vs then vs ! (j - k) else ld64 m a (8 * j))"
  using assms(1)
proof (induction vs arbitrary: k m)
  case Nil
  then show ?case by auto
next
  case (Cons v vs)
  have "ld64 (st64 a (8 * k) v m) a (8 * j) = (if k = j then v else ld64 m a (8 * j))"
    using Cons.prems assms(2) ld64_st64_other [of "8 * k" "8 * j" a v m] by auto
  moreover have "k < j \<Longrightarrow> (v # vs) ! (j - k) = vs ! (j - Suc k)"
    by (metis Suc_diff_Suc nth_Cons_Suc)
  ultimately show ?case using Cons.IH [of "Suc k" "st64 a (8 * k) v m"] Cons.prems
    by (auto simp: Suc_le_eq)
qed

lemma frame_at_write_frame:
  assumes "wf_frame f"
  shows "frame_at (write_frame a f m) a = f"
proof -
  let ?vs = "tf_x f @ [tf_sp f, tf_pc f, tf_pstate f]"
  have len: "length ?vs = 34" using assms by (simp add: wf_frame_def)
  have ld: "ld64 (write_frame a f m) a (8 * j) = ?vs ! j" if "j < 34" for j
    using ld64_stored [of 0 ?vs j a m] that len by (simp add: write_frame_def)
  have "map (\<lambda>i. ld64 (write_frame a f m) a (8 * i)) [0..<31] = tf_x f"
    using assms ld by (intro nth_equalityI) (simp_all add: wf_frame_def nth_append)
  moreover have "?vs ! 31 = tf_sp f" "?vs ! 32 = tf_pc f" "?vs ! 33 = tf_pstate f"
    using assms by (simp_all add: wf_frame_def nth_append)
  ultimately show ?thesis using ld [of 31] ld [of 32] ld [of 33] by (simp add: frame_at_def)
qed

lemma rust_handler_wf:
  "wf_frame f \<Longrightarrow> rust_handler h esr far m f log = (log', Return f') \<Longrightarrow> wf_frame f'"
  using lower_el_sync_effect [where esr = esr and far = far and m = m and f = f and log = log]
  by (cases h) (auto simp: rust_handler_def wf_frame_def exception_el1_sync_def exception_el1_irq_def
      exception_lower_el_irq_def)

lemma implements_exact_call: "implements exact_call"
  unfolding implements_def
proof (intro allI)
  fix h and c :: cpu
  have wf: "wf_frame (frame_at (ram c) (gpr c 0))" by (simp add: wf_frame_def frame_at_def)
  show "case rust_handler h (sysr c ESR_EL1) (sysr c FAR_EL1) (ram c) (frame_at (ram c) (gpr c 0)) (tty c) of
       (log', Return f') \<Rightarrow> (\<exists>c'. exact_call h c = Running c' \<and> sp_reg c' = sp_reg c \<and>
          frame_at (ram c') (gpr c 0) = f' \<and> tty c' = log')
     | (log', Spin) \<Rightarrow> (\<exists>c'. exact_call h c = Halted c' \<and> tty c' = log')"
    using rust_handler_wf [OF wf]
    by (auto simp: exact_call_def frame_at_write_frame split: prod.splits flow.splits)
qed

definition sample_cpu :: cpu where
  "sample_cpu = \<lparr>gpr = (\<lambda>r. if r = 0 then 1 else if r = 1 then 0x9000 else if r = 2 then 3
       else if r = 16 then 4 else 0),
     sp_reg = 0x8000, sysr = (\<lambda>_. 0), ram = (\<lambda>a. if a = 0x9000 then 0x48 else 0x69), tty = [],
     cur_pc = 0x100, cur_pstate = 0\<rparr>"

lemma sample_buffer_clear:
  "region (gpr sample_cpu 1) (unat (gpr sample_cpu 2)) \<inter> region (sp_reg sample_cpu - 272) 272 = {}"
  using region_disjoint [of "0x7ef0" 272 "0x9000" 3] by (simp add: sample_cpu_def Int_commute)

theorem write_syscall_end_to_end_witness:
  "\<exists>c'. take_trap exact_call LowerA64 Synchronous 0x54000000 0 sample_cpu = Running c' \<and> gpr c' 0 = 3 \<and>
     uart_text (tty c') = [0x48, 0x69, 0x69]"
  using write_syscall_end_to_end [OF implements_exact_call _ _ _ _ _ sample_buffer_clear,
      of "0x54000000" 0]
  by (simp add: sample_cpu_def mem_slice_def uart_text_def upt_rec)

theorem trap_preserves_user_state_witness:
  "\<exists>c'. take_trap exact_call LowerA64 Synchronous 0x54000000 0 sample_cpu = Running c' \<and>
     gpr c' 16 = 4 \<and> cur_pc c' = 0x100 \<and> sp_reg c' = 0x8000"
proof -
  obtain c' where r: "take_trap exact_call LowerA64 Synchronous 0x54000000 0 sample_cpu = Running c'"
    using write_trap [OF implements_exact_call _ _ _ _ _ sample_buffer_clear, of "0x54000000" 0]
    by (auto simp: sample_cpu_def)
  have "gpr c' 16 = gpr sample_cpu 16 \<and> cur_pc c' = cur_pc sample_cpu \<and> sp_reg c' = sp_reg sample_cpu"
    using trap_preserves_user_state [OF implements_exact_call r] by simp
  with r show ?thesis by (simp add: sample_cpu_def)
qed

section \<open>Entering user mode and the vector table\<close>

text \<open>\<open>user_enter\<close> loads the whole frame: all 31 general registers (including the two that hold the
  frame pointer and the scratch value while it runs), the user stack pointer, and, through
  \<open>eret\<close>, program counter and processor state. Memory, console and vector base are untouched.\<close>

theorem user_enter_loads_frame:
  "\<exists>c'. run call user_enter c = Running c' \<and> captured c' = frame_at (ram c) (gpr c 0) \<and>
     cur_pc c' = tf_pc (frame_at (ram c) (gpr c 0)) \<and>
     cur_pstate c' = tf_pstate (frame_at (ram c) (gpr c 0)) \<and>
     tty c' = tty c \<and> ram c' = ram c \<and> sysr c' VBAR_EL1 = sysr c VBAR_EL1"
  using user_enter_run [of call c] by auto

text \<open>How an exception that is never returned from leaves the console.\<close>

definition halted_with :: "outcome \<Rightarrow> bytes \<Rightarrow> bool" where
  "halted_with out txt \<longleftrightarrow> (\<exists>c'. out = Halted c' \<and> uart_text (tty c') = txt)"

lemma fatal_trap:
  assumes "implements call" "handler_of src k = Some h"
    and "\<And>m f log. snd (rust_handler h esr far m f log) = Spin"
    and "\<And>m. uart_text (fst (rust_handler h esr far m (user_frame c) (tty c))) = txt"
  shows "halted_with (take_trap call src k esr far c) txt"
proof -
  obtain m1 log' fl where
    h: "rust_handler h esr far m1 (user_frame c) (tty c) = (log', fl)" and
    out: "trap_outcome (take_trap call src k esr far c) (exception_entry esr far c) log' fl"
    using trampoline_run [OF assms(1), of "exception_entry esr far c" h] assms(2)
    by (auto simp: entry_simps take_trap_handler)
  have "fl = Spin" "uart_text log' = txt"
    using assms(3) [of m1 "user_frame c" "tty c"] assms(4) [of m1] by (simp_all add: h)
  with out show ?thesis by (auto simp: trap_outcome_def halted_with_def)
qed

text \<open>C34: every exception reaches the handler meant for it. The sixteen entries lie at multiples of 128 bytes, and an
  exception entered at the architecture's offset for its source and kind runs, with the interrupted
  state in its frame: from user mode (AArch64), a synchronous exception the system-call handler and an
  interrupt the handler that reports it and stops; from the kernel on its own stack, a synchronous
  exception the handler that reports its syndrome and program counter and stops, and an interrupt the one that
  reports it and stops. Every other exception stops without output.\<close>

theorem vector_table_layout:
  assumes "implements call"
  shows "map fst (ventry_offsets 0 vector_table) = map (\<lambda>i. 128 * i) [0..<16] \<and>
   (case (src, k) of
      (LowerA64, Synchronous) \<Rightarrow>
        (\<exists>m1 log' fl. (\<forall>x. x \<notin> region (sp_reg c - 272) 272 \<longrightarrow> m1 x = ram c x) \<and>
          exception_lower_el_sync esr far m1 (user_frame c) (tty c) = (log', fl) \<and>
          trap_outcome (take_trap call src k esr far c) c log' fl)
    | (LowerA64, Irq) \<Rightarrow> halted_with (take_trap call src k esr far c)
        (uart_text (tty c) @ ascii (''xnu-rs: unhandled lower-EL IRQ'' @ [CHR 0x0A]))
    | (CurrentSpx, Synchronous) \<Rightarrow> halted_with (take_trap call src k esr far c)
        (uart_text (tty c) @ ascii ''xnu-rs: kernel sync exception ESR=0x'' @ hex_text esr @
         ascii '' ELR=0x'' @ hex_text (cur_pc c) @ ascii [CHR 0x0A])
    | (CurrentSpx, Irq) \<Rightarrow> halted_with (take_trap call src k esr far c)
        (uart_text (tty c) @ ascii (''xnu-rs: unhandled EL1 IRQ'' @ [CHR 0x0A]))
    | _ \<Rightarrow> halted_with (take_trap call src k esr far c) (uart_text (tty c)))"
proof (intro conjI)
  show "map fst (ventry_offsets 0 vector_table) = map (\<lambda>i. 128 * i) [0..<16]"
    by (simp add: vector_table_offsets upt_rec)
  have off: "halted_with (take_trap call src k esr far c) (uart_text (tty c))" if "handler_of src k = None"
    using that by (simp add: take_trap_handler halted_with_def entry_simps)
  note defs = rust_handler_def exception_el1_sync_def exception_el1_irq_def exception_lower_el_irq_def user_frame_def
  show "case (src, k) of
      (LowerA64, Synchronous) \<Rightarrow>
        (\<exists>m1 log' fl. (\<forall>x. x \<notin> region (sp_reg c - 272) 272 \<longrightarrow> m1 x = ram c x) \<and>
          exception_lower_el_sync esr far m1 (user_frame c) (tty c) = (log', fl) \<and>
          trap_outcome (take_trap call src k esr far c) c log' fl)
    | (LowerA64, Irq) \<Rightarrow> halted_with (take_trap call src k esr far c)
        (uart_text (tty c) @ ascii (''xnu-rs: unhandled lower-EL IRQ'' @ [CHR 0x0A]))
    | (CurrentSpx, Synchronous) \<Rightarrow> halted_with (take_trap call src k esr far c)
        (uart_text (tty c) @ ascii ''xnu-rs: kernel sync exception ESR=0x'' @ hex_text esr @
         ascii '' ELR=0x'' @ hex_text (cur_pc c) @ ascii [CHR 0x0A])
    | (CurrentSpx, Irq) \<Rightarrow> halted_with (take_trap call src k esr far c)
        (uart_text (tty c) @ ascii (''xnu-rs: unhandled EL1 IRQ'' @ [CHR 0x0A]))
    | _ \<Rightarrow> halted_with (take_trap call src k esr far c) (uart_text (tty c))"
    using user_trap_run [OF assms, of c esr far] off
      fatal_trap [OF assms, of src k _ esr far c]
    by (cases src; cases k) (simp_all add: defs)
qed

theorem vector_table_layout_witness:
  "halted_with (take_trap exact_call CurrentSpx Irq 0 0 sample_cpu) (ascii (''xnu-rs: unhandled EL1 IRQ'' @ [CHR 0x0A])) \<and>
   halted_with (take_trap exact_call CurrentSpx Fiq 0 0 sample_cpu) []"
  using vector_table_layout [OF implements_exact_call, where src = CurrentSpx and k = Irq and c = sample_cpu and esr = 0 and far = 0]
    vector_table_layout [OF implements_exact_call, where src = CurrentSpx and k = Fiq and c = sample_cpu and esr = 0 and far = 0]
  by (simp add: sample_cpu_def uart_text_def)

end
