(* ===== verification/Exec_Loader.thy ===== *)
theory Exec_Loader
  imports Loader_Image Exception_Vectors
begin

text \<open>
  The user-program loader: \<open>kernel/src/exec/macho.rs\<close> (parsing into segments and
  entry point) and \<open>kernel/src/exec/loader.rs\<close> (placing the image, cache
  maintenance, stack, entry to EL0). The kernel's arithmetic here is unchecked,
  so every \<open>+\<close> and \<open>-\<close> is an operation that can panic. Kernel code is a state
  transformer over console, memory and issued cache operations; it ends in
  a value, in a panic, or in a \<open>spin_loop\<close> (the error \<open>Spinning\<close>).
\<close>

datatype stop = Spinning

record kstate =
  k_log :: mmio_log
  k_mem :: memory
  k_cache :: "cache_op list"

type_synonym 'a kern = "kstate \<Rightarrow> ('a, stop) res \<times> kstate"

fun k_then :: "'a kern \<Rightarrow> ('a \<Rightarrow> 'b kern) \<Rightarrow> 'b kern" where
  "k_then m k s =
     (case m s of
        (Ok a, s') \<Rightarrow> k a s'
      | (Err e, s') \<Rightarrow> (Err e, s')
      | (Panic, s') \<Rightarrow> (Panic, s')
      | (Diverge, s') \<Rightarrow> (Diverge, s'))"

definition k_res :: "('a, stop) res \<Rightarrow> 'a kern" where
  "k_res r s = (r, s)"

definition k_print :: "(mmio_log \<Rightarrow> mmio_log) \<Rightarrow> unit kern" where
  "k_print f s = (Ok (), s\<lparr>k_log := f (k_log s)\<rparr>)"

definition k_write :: "(memory \<Rightarrow> memory) \<Rightarrow> unit kern" where
  "k_write f s = (Ok (), s\<lparr>k_mem := f (k_mem s)\<rparr>)"

definition k_ops :: "cache_op list \<Rightarrow> unit kern" where
  "k_ops ops s = (Ok (), s\<lparr>k_cache := k_cache s @ ops\<rparr>)"

section \<open>Parsing\<close>

record exec_segment =
  es_vmaddr :: u64
  es_vmsize :: u64
  es_data :: bytes

record user_image =
  ui_segments :: "exec_segment list"
  ui_entry_va :: u64
  ui_link_base :: u64

primrec collect_segments ::
  "mach_segment list \<Rightarrow> exec_segment list \<Rightarrow> u64 \<Rightarrow> exec_segment list \<times> u64" where
  "collect_segments [] acc link_base = (acc, link_base)"
| "collect_segments (sg # sgs) acc link_base =
     (if vmsize sg = 0 then collect_segments sgs acc link_base
      else collect_segments sgs
        (acc @ [\<lparr>es_vmaddr = vmaddr sg, es_vmsize = vmsize sg, es_data = seg_data sg\<rparr>])
        (if vmaddr sg < link_base then vmaddr sg else link_base))"

definition text_segment :: "mach_segment list \<Rightarrow> mach_segment option" where
  "text_segment sgs = find (\<lambda>s. seg_name s = Some (ascii ''__TEXT'')) sgs"

primrec find_entry :: "mach_segment list \<Rightarrow> load_command list \<Rightarrow> (u64 option, stop) res" where
  "find_entry sgs [] = Ok None"
| "find_entry sgs (c # cs) =
     (if lc_cmd c = LC_MAIN then
        (case lc_variant c of
           MainCommand off \<Rightarrow>
             (case text_segment sgs of
                Some tx \<Rightarrow>
                  and_then (add_panic (vmaddr tx) (saturating_sub off (fileoff tx))) (\<lambda>e. Ok (Some e))
              | None \<Rightarrow> Ok None)
         | OtherCommand \<Rightarrow> Ok None)
      else find_entry sgs cs)"

definition macho_parse_user :: "macho_parser \<Rightarrow> bytes \<Rightarrow> user_image option kern" where
  "macho_parse_user mp bs =
     (case mp bs of
        Ok macho \<Rightarrow>
          let (sgs, link_base) = collect_segments (segments macho) [] (- 1) in
          if sgs = [] then
            k_then (k_print (write_str (ascii (''xnu-rs: Mach-O has no loadable segments'' @ [CHR 0x0A]))))
              (\<lambda>_. k_res (Ok None))
          else
            k_then (k_res (find_entry (segments macho) (load_commands macho))) (\<lambda>entry_va.
            (case entry_va of
               None \<Rightarrow>
                 k_then (k_print (write_str (ascii (''xnu-rs: Mach-O missing LC_MAIN'' @ [CHR 0x0A]))))
                   (\<lambda>_. k_res (Ok None))
             | Some va \<Rightarrow>
                 k_res (Ok (Some \<lparr>ui_segments = sgs, ui_entry_va = va, ui_link_base = link_base\<rparr>))))
      | Err _ \<Rightarrow> k_res (Ok None)
      | Panic \<Rightarrow> k_res Panic
      | Diverge \<Rightarrow> k_res Diverge)"

section \<open>Loading\<close>

definition USER_STACK_SIZE :: u64 where
  "USER_STACK_SIZE = 64 * 1024"

definition USER_PAGE_SIZE :: u64 where
  "USER_PAGE_SIZE = 4096"

definition exec_align_up :: "u64 \<Rightarrow> u64 \<Rightarrow> (u64, stop) res" where
  "exec_align_up value al =
     and_then (add_panic value al) (\<lambda>v. and_then (sub_panic v 1) (\<lambda>w. Ok (w AND NOT (al - 1))))"

primrec image_end :: "exec_segment list \<Rightarrow> u64 \<Rightarrow> u64" where
  "image_end [] e = e"
| "image_end (sg # sgs) e =
     (let end' = saturating_add (es_vmaddr sg) (es_vmsize sg) in
      image_end sgs (if end' > e then end' else e))"

definition image_span :: "user_image \<Rightarrow> u64" where
  "image_span img = saturating_sub (image_end (ui_segments img) 0) (ui_link_base img)"

primrec copy_segments :: "u64 \<Rightarrow> u64 \<Rightarrow> exec_segment list \<Rightarrow> unit kern" where
  "copy_segments load_base link_base [] = k_res (Ok ())"
| "copy_segments load_base link_base (sg # sgs) =
     k_then (k_res (sub_panic (es_vmaddr sg) link_base)) (\<lambda>offset.
     k_then (k_res (add_panic load_base offset)) (\<lambda>dst.
     k_then (k_write (mem_write dst (take (min (length (es_data sg)) (unat (es_vmsize sg))) (es_data sg))))
       (\<lambda>_. copy_segments load_base link_base sgs)))"

text \<open>One flush loop; \<open>addr += CACHE_LINE\<close> panics at the top of the address space.\<close>

function flush_loop :: "(u64 \<Rightarrow> cache_op) \<Rightarrow> u64 \<Rightarrow> u64 \<Rightarrow> unit kern" where
  "flush_loop op addr e s =
     (if addr < e then
        let s' = s\<lparr>k_cache := k_cache s @ [op addr]\<rparr> in
        (case checked_add addr 64 of
           None \<Rightarrow> (Panic, s')
         | Some a \<Rightarrow> flush_loop op a e s')
      else (Ok (), s))"
  by pat_completeness auto
termination
proof (relation "measure (\<lambda>(op, addr, e, s). unat e - unat addr)")
  fix op :: "u64 \<Rightarrow> cache_op" and addr e a :: u64 and s s' :: kstate
  assume "addr < e" "checked_add addr 64 = Some a"
  then show "((op, a, e, s'), op, addr, e, s) \<in> measure (\<lambda>(op, addr, e, s). unat e - unat addr)"
    by (simp add: arith_specs word_less_nat_alt)
qed simp

declare flush_loop.simps [simp del]

definition flush_dcache_invalidate_icache :: "u64 \<Rightarrow> u64 \<Rightarrow> unit kern" where
  "flush_dcache_invalidate_icache base len =
     k_then (k_res (add_panic base len)) (\<lambda>e.
     k_then (flush_loop DC_CVAU (base AND NOT 63) e) (\<lambda>_.
     k_then (k_ops [DSB_ISH]) (\<lambda>_.
     k_then (flush_loop IC_IVAU (base AND NOT 63) e) (\<lambda>_.
     k_ops [DSB_ISH, ISB]))))"

definition print_loading :: "user_image \<Rightarrow> u64 \<Rightarrow> mmio_log \<Rightarrow> mmio_log" where
  "print_loading img load_base log =
     write_str (ascii [CHR 0x0A]) (write_hex_u64 load_base (write_str (ascii '' load_base=0x'')
     (write_hex_u64 (image_span img) (write_str (ascii '' span=0x'') (write_hex_u64 (ui_link_base img)
     (write_str (ascii ''xnu-rs: loading user image link_base=0x'') log))))))"

definition print_entry :: "u64 \<Rightarrow> u64 \<Rightarrow> mmio_log \<Rightarrow> mmio_log" where
  "print_entry entry_phys stack_top log =
     write_str (ascii [CHR 0x0A]) (write_hex_u64 stack_top (write_str (ascii '' stack_top=0x'')
     (write_hex_u64 entry_phys (write_str (ascii ''xnu-rs: entry_phys=0x'') log))))"

text \<open>Everything up to the final \<open>install_vectors\<close> and \<open>user_enter\<close>: the result is the frame that
  \<open>user_enter\<close> is given.\<close>

definition place_user_image :: "user_image \<Rightarrow> u64 \<Rightarrow> trap_frame kern" where
  "place_user_image img load_base =
     k_then (k_print (print_loading img load_base)) (\<lambda>_.
     k_then (k_write (mem_fill load_base 0 (unat (image_span img)))) (\<lambda>_.
     k_then (copy_segments load_base (ui_link_base img) (ui_segments img)) (\<lambda>_.
     k_then (flush_dcache_invalidate_icache load_base (image_span img)) (\<lambda>_.
     k_then (k_res (sub_panic (ui_entry_va img) (ui_link_base img))) (\<lambda>d.
     k_then (k_res (add_panic load_base d)) (\<lambda>entry_phys.
     k_then (k_res (add_panic load_base (image_span img))) (\<lambda>image_top.
     k_then (k_res (exec_align_up image_top USER_PAGE_SIZE)) (\<lambda>stack_base.
     k_then (k_res (add_panic stack_base USER_STACK_SIZE)) (\<lambda>stack_top.
     k_then (k_print (print_entry entry_phys stack_top)) (\<lambda>_.
     k_then (k_print (write_str (ascii (''xnu-rs: ERET to EL0'' @ [CHR 0x0A])))) (\<lambda>_.
     k_res (Ok (TrapFrame_new_user entry_phys stack_top)))))))))))))"

definition load_and_run :: "macho_parser \<Rightarrow> bytes \<Rightarrow> u64 \<Rightarrow> trap_frame kern" where
  "load_and_run mp bs load_base =
     k_then (macho_parse_user mp bs) (\<lambda>parsed.
     (case parsed of
        None \<Rightarrow>
          k_then (k_print (write_str (ascii (''xnu-rs: failed to parse user Mach-O'' @ [CHR 0x0A]))))
            (\<lambda>_. k_res (Err Spinning))
      | Some img \<Rightarrow> place_user_image img load_base))"

text \<open>The transfer itself, on the processor: the vector base is set, then the frame at \<open>x0\<close> is loaded.\<close>

definition enter_user :: "(handler \<Rightarrow> cpu \<Rightarrow> outcome) \<Rightarrow> u64 \<Rightarrow> cpu \<Rightarrow> outcome" where
  "enter_user call table c = run call user_enter (install_vectors table c)"

section \<open>Running the operations\<close>

lemma k_then_prims [simp]:
  "k_then (k_res (Ok a)) k s = k a s"
  "k_then (k_res (Err e)) k s = (Err e, s)"
  "k_then (k_res Panic) k' s = (Panic, s)"
  "k_then (k_print f) k2 s = k2 () (s\<lparr>k_log := f (k_log s)\<rparr>)"
  "k_then (k_write g) k2 s = k2 () (s\<lparr>k_mem := g (k_mem s)\<rparr>)"
  "k_then (k_ops ops) k2 s = k2 () (s\<lparr>k_cache := k_cache s @ ops\<rparr>)"
  by (simp_all add: k_res_def k_print_def k_write_def k_ops_def)

lemma k_then_step: "m s = (Ok a, s1) \<Longrightarrow> k_then m k s = k a s1"
  by simp

declare k_then.simps [simp del]

section \<open>What parsing returns\<close>

definition to_exec :: "mach_segment \<Rightarrow> exec_segment" where
  "to_exec sg = \<lparr>es_vmaddr = vmaddr sg, es_vmsize = vmsize sg, es_data = seg_data sg\<rparr>"

lemma to_exec_sel [simp]:
  "es_vmaddr (to_exec sg) = vmaddr sg" "es_vmsize (to_exec sg) = vmsize sg"
  "es_data (to_exec sg) = seg_data sg"
  by (simp_all add: to_exec_def)

lemma collect_segments_eq:
  "collect_segments sgs acc lb =
     (acc @ map to_exec (present sgs), fold min (map vmaddr (present sgs)) lb)"
proof (induction sgs arbitrary: acc lb)
  case Nil
  then show ?case by (simp add: present_def)
next
  case (Cons sg sgs)
  have "(if vmaddr sg < lb then vmaddr sg else lb) = min (vmaddr sg) lb" by (auto simp: min_def)
  with Cons show ?case by (simp add: present_def to_exec_def)
qed

lemma fold_min_le: "fold min xs a \<le> a \<and> (\<forall>x \<in> set xs. fold min xs a \<le> x)" for a :: "'a::linorder"
proof (induction xs arbitrary: a)
  case Nil
  then show ?case by simp
next
  case (Cons x xs)
  have "fold min xs (min x a) \<le> min x a" using Cons by blast
  with Cons [of "min x a"] show ?case by simp
qed

text \<open>The lowest address of the segments that are loaded.\<close>

definition link_base_of :: "mach_o \<Rightarrow> u64" where
  "link_base_of macho = fold min (map vmaddr (present (segments macho))) (- 1)"

lemma link_base_le: "sg \<in> set (present (segments macho)) \<Longrightarrow> link_base_of macho \<le> vmaddr sg"
  unfolding link_base_of_def using fold_min_le [of "map vmaddr (present (segments macho))" "- 1"] by simp

text \<open>The parsed entry point: the first \<open>LC_MAIN\<close>, relative to the first \<open>__TEXT\<close> segment.\<close>

lemma find_entry_first:
  "find_entry sgs cs =
     (case find (\<lambda>c. lc_cmd c = LC_MAIN) cs of
        None \<Rightarrow> Ok None
      | Some c \<Rightarrow>
          (case (lc_variant c, text_segment sgs) of
             (MainCommand off, Some tx) \<Rightarrow>
               and_then (add_panic (vmaddr tx) (saturating_sub off (fileoff tx))) (\<lambda>e. Ok (Some e))
           | _ \<Rightarrow> Ok None))"
  by (induction cs) (simp_all split: command_variant.splits option.splits)

section \<open>Address arithmetic of the placement\<close>

lemma exec_align_up_page:
  "res_ok (exec_align_up v USER_PAGE_SIZE) =
     (if unat v + (2 ^ 12 - 1) < 2 ^ 64 - 1 then Some ((v + (2 ^ 12 - 1)) AND NOT (2 ^ 12 - 1)) else None)"
  by (simp add: exec_align_up_def USER_PAGE_SIZE_def add_panic_def sub_panic_def checked_add_def
      checked_sub_def word_le_nat_alt unat_add_nowrap) (simp add: add.commute)

interpretation stack_up: aligner "on_u64 (\<lambda>v. res_ok (exec_align_up v USER_PAGE_SIZE))" "2 ^ 12" "2 ^ 64 - 1"
  by (rule u64_aligner [OF _ _ exec_align_up_page]) simp_all

lemma unat_image_end:
  "unat (image_end sgs e) =
     fold max (map (\<lambda>sg. min (unat (es_vmaddr sg) + unat (es_vmsize sg)) (2 ^ 64 - 1)) sgs) (unat e)"
proof (induction sgs arbitrary: e)
  case Nil
  then show ?case by simp
next
  case (Cons sg sgs)
  let ?x = "saturating_add (es_vmaddr sg) (es_vmsize sg)"
  have "unat (if ?x > e then ?x else e) = max (unat ?x) (unat e)"
    by (auto simp: word_less_nat_alt max_def)
  with Cons [of "if ?x > e then ?x else e"] show ?case
    by (simp add: unat_saturating_add Let_def)
qed

lemma fold_max_ge: "x \<in> set xs \<Longrightarrow> x \<le> fold max xs a" for x :: "'a::linorder"
proof (induction xs arbitrary: a)
  case Nil
  then show ?case by simp
next
  case (Cons y ys)
  have "b \<le> fold max zs b" for b and zs :: "'a list"
    by (induction zs arbitrary: b) (simp_all, meson max.bounded_iff)
  from this [of "max y a" ys] Cons show ?case by auto
qed

text \<open>A segment's place relative to the image, when no segment passes the top of the address space.\<close>

lemma segment_in_span:
  assumes "sg \<in> set (ui_segments img)" "ui_link_base img \<le> es_vmaddr sg"
    and "unat (es_vmaddr sg) + unat (es_vmsize sg) < 2 ^ 64"
  shows "unat (es_vmaddr sg - ui_link_base img) + unat (es_vmsize sg) \<le> unat (image_span img)"
proof -
  have "min (unat (es_vmaddr sg) + unat (es_vmsize sg)) (2 ^ 64 - 1) \<le>
      unat (image_end (ui_segments img) 0)"
    unfolding unat_image_end by (rule fold_max_ge) (use assms(1) in simp)
  with assms show ?thesis
    by (simp add: image_span_def unat_saturating_sub unat_sub_le word_le_nat_alt)
qed

text \<open>Where the placement puts a segment.\<close>

definition seg_dst :: "u64 \<Rightarrow> u64 \<Rightarrow> exec_segment \<Rightarrow> u64" where
  "seg_dst load_base link_base sg = load_base + (es_vmaddr sg - link_base)"

definition copied :: "exec_segment \<Rightarrow> bytes" where
  "copied sg = take (unat (es_vmsize sg)) (es_data sg)"

lemma add_panic_ok: "unat a + unat b < 2 ^ LENGTH('a) \<Longrightarrow> add_panic a b = Ok (a + b :: 'a::len word)"
  by (simp add: add_panic_def checked_add_def)

lemma sub_panic_ok: "b \<le> a \<Longrightarrow> sub_panic a b = Ok (a - b :: 'a::len word)"
  by (simp add: sub_panic_def checked_sub_def)

lemma copy_segments_run:
  assumes "\<forall>sg \<in> set sgs. link_base \<le> es_vmaddr sg \<and>
    unat load_base + unat (es_vmaddr sg - link_base) < 2 ^ 64"
  shows "copy_segments load_base link_base sgs s =
    (Ok (), s\<lparr>k_mem := fold (\<lambda>sg. mem_write (seg_dst load_base link_base sg) (copied sg)) sgs (k_mem s)\<rparr>)"
  using assms
proof (induction sgs arbitrary: s)
  case Nil
  then show ?case by (simp add: k_res_def)
next
  case (Cons sg sgs)
  then show ?case
    by (simp add: sub_panic_ok add_panic_ok seg_dst_def copied_def min_def)
qed

lemma flush_loop_run:
  assumes "unat e + 64 < 2 ^ 64"
  shows "flush_loop op addr e s = (Ok (), s\<lparr>k_cache := k_cache s @ map op (cache_lines addr e)\<rparr>)"
  using assms
proof (induction op addr e s rule: flush_loop.induct)
  case (1 op addr e s)
  show ?case
  proof (cases "addr < e")
    case False
    then show ?thesis by (simp add: flush_loop.simps [of _ addr] cache_lines.simps [of addr])
  next
    case True
    then have lt: "unat addr + 64 < 2 ^ 64" using "1.prems" by (simp add: word_less_nat_alt)
    then have c: "checked_add addr 64 = Some (addr + 64)" "saturating_add addr CACHE_LINE = addr + 64"
      by (simp_all add: checked_add_def saturating_add_def CACHE_LINE_def)
    show ?thesis
      using "1.IH" [OF True refl c(1) "1.prems"] True
      by (simp add: flush_loop.simps [of _ addr] cache_lines.simps [of addr] c)
  qed
qed

lemma flush_run:
  assumes "unat base + unat len + 64 < 2 ^ 64"
  shows "flush_dcache_invalidate_icache base len s =
    (Ok (), s\<lparr>k_cache := k_cache s @ clean_dcache_invalidate_icache base (unat len)\<rparr>)"
proof -
  have l: "unat (base + len) + 64 < 2 ^ 64" using assms by (subst unat_add_nowrap) simp_all
  have "saturating_add base len = base + len" using assms by (simp add: saturating_add_def)
  then show ?thesis
    using assms
    by (simp add: flush_dcache_invalidate_icache_def add_panic_ok k_then_step [OF flush_loop_run [OF l]]
        k_ops_def clean_dcache_invalidate_icache_def Let_def CACHE_LINE_def)
qed

section \<open>The placed image\<close>

text \<open>What the placement needs of an image and an address: no segment passes the top of the address
  space, no two overlap, the entry point is inside the image, and image, stack and rounding fit
  above \<open>load_base\<close>.\<close>

definition placeable :: "user_image \<Rightarrow> u64 \<Rightarrow> bool" where
  "placeable img load_base \<longleftrightarrow>
     list_all (\<lambda>sg. ui_link_base img \<le> es_vmaddr sg \<and>
       unat (es_vmaddr sg) + unat (es_vmsize sg) < 2 ^ 64) (ui_segments img) \<and>
     sorted_wrt (\<lambda>a b. region (es_vmaddr a) (unat (es_vmsize a)) \<inter>
       region (es_vmaddr b) (unat (es_vmsize b)) = {}) (ui_segments img) \<and>
     ui_link_base img \<le> ui_entry_va img \<and>
     unat (ui_entry_va img - ui_link_base img) < unat (image_span img) \<and>
     unat load_base + unat (image_span img) + 4096 + 65536 < 2 ^ 64"

lemma placeableD:
  assumes "placeable img load_base"
  shows "sg \<in> set (ui_segments img) \<Longrightarrow> ui_link_base img \<le> es_vmaddr sg"
    "sg \<in> set (ui_segments img) \<Longrightarrow>
       unat (es_vmaddr sg - ui_link_base img) + unat (es_vmsize sg) \<le> unat (image_span img)"
    "ui_link_base img \<le> ui_entry_va img"
    "unat (ui_entry_va img - ui_link_base img) < unat (image_span img)"
    "unat load_base + unat (image_span img) + 4096 + 65536 < 2 ^ 64"
  using assms segment_in_span [of sg img] by (auto simp: placeable_def list_all_iff)

text \<open>The stack base the code computes.\<close>

lemma stack_base_ok:
  assumes "unat load_base + unat span + 4096 + 65536 < 2 ^ 64"
  obtains sb where "exec_align_up (load_base + span) USER_PAGE_SIZE = Ok sb"
    "4096 dvd unat sb" "unat load_base + unat span \<le> unat sb" "unat sb < unat load_base + unat span + 4096"
proof -
  have u: "unat (load_base + span) = unat load_base + unat span"
    using assms by (intro unat_add_nowrap) simp
  let ?f = "\<lambda>v. res_ok (exec_align_up v USER_PAGE_SIZE)"
  obtain r where r: "on_u64 ?f (unat (load_base + span)) = Some r"
    using stack_up.up_total [of "unat (load_base + span)"] assms u by auto
  from r obtain sb where sb: "exec_align_up (load_base + span) USER_PAGE_SIZE = Ok sb" "r = unat sb"
    unfolding on_u64_unat by (cases "exec_align_up (load_base + span) USER_PAGE_SIZE") auto
  from stack_up.up_sound [OF r] that [OF sb(1)] show thesis by (simp add: sb(2) u)
qed

definition launch_log :: "user_image \<Rightarrow> u64 \<Rightarrow> u64 \<Rightarrow> u64 \<Rightarrow> mmio_log \<Rightarrow> mmio_log" where
  "launch_log img load_base pc sp log =
     write_str (ascii (''xnu-rs: ERET to EL0'' @ [CHR 0x0A])) (print_entry pc sp (print_loading img load_base log))"

lemma place_user_image_run:
  assumes "placeable img load_base"
  obtains sb where
    "place_user_image img load_base s =
      (Ok (TrapFrame_new_user (load_base + (ui_entry_va img - ui_link_base img)) (sb + USER_STACK_SIZE)),
       s\<lparr>k_log := launch_log img load_base (load_base + (ui_entry_va img - ui_link_base img))
           (sb + USER_STACK_SIZE) (k_log s),
         k_mem := fold (\<lambda>sg. mem_write (seg_dst load_base (ui_link_base img) sg) (copied sg)) (ui_segments img)
           (mem_fill load_base 0 (unat (image_span img)) (k_mem s)),
         k_cache := k_cache s @ clean_dcache_invalidate_icache load_base (unat (image_span img))\<rparr>)"
    "4096 dvd unat sb" "unat load_base + unat (image_span img) \<le> unat sb"
    "unat sb < unat load_base + unat (image_span img) + 4096"
proof -
  note d = placeableD [OF assms]
  obtain sb where sb: "exec_align_up (load_base + image_span img) USER_PAGE_SIZE = Ok sb"
    "4096 dvd unat sb" "unat load_base + unat (image_span img) \<le> unat sb"
    "unat sb < unat load_base + unat (image_span img) + 4096"
    using stack_base_ok [OF d(5)] by blast
  have segs: "\<forall>sg \<in> set (ui_segments img). ui_link_base img \<le> es_vmaddr sg \<and>
      unat load_base + unat (es_vmaddr sg - ui_link_base img) < 2 ^ 64"
    using d(1,2,5) by fastforce
  have fl: "unat load_base + unat (image_span img) + 64 < 2 ^ 64" using d(5) by simp
  have "unat load_base + unat (ui_entry_va img - ui_link_base img) < 2 ^ 64" using d(4,5) by simp
  then have e: "add_panic load_base (ui_entry_va img - ui_link_base img) =
      (Ok (load_base + (ui_entry_va img - ui_link_base img)) :: (u64, stop) res)"
    by (intro add_panic_ok) simp
  have t: "add_panic load_base (image_span img) = (Ok (load_base + image_span img) :: (u64, stop) res)"
    using d(5) by (intro add_panic_ok) simp
  have st: "add_panic sb USER_STACK_SIZE = (Ok (sb + USER_STACK_SIZE) :: (u64, stop) res)"
    using sb(4) d(5) by (intro add_panic_ok) (simp add: USER_STACK_SIZE_def)
  show thesis
    by (rule that [OF _ sb(2-4)])
      (simp add: place_user_image_def k_then_step [OF copy_segments_run [OF segs]] k_then_step [OF flush_run [OF fl]]
        sub_panic_ok [OF d(3)] e t sb(1) st k_res_def launch_log_def)
qed

lemma region_shift: "x \<in> region (a + (b - c)) n \<longleftrightarrow> x - a + c \<in> region b n"
  by (simp add: region_def algebra_simps)

lemma length_copied: "length (copied sg) \<le> unat (es_vmsize sg)"
  by (simp add: copied_def)

lemma seg_dst_in_image:
  assumes "placeable img load_base" "sg \<in> set (ui_segments img)"
  shows "region (seg_dst load_base (ui_link_base img) sg) (unat (es_vmsize sg)) \<subseteq>
    region load_base (unat (image_span img))"
proof -
  note d = placeableD(2,5) [OF assms(1)]
  have "unat (seg_dst load_base (ui_link_base img) sg) =
      unat load_base + unat (es_vmaddr sg - ui_link_base img)"
    unfolding seg_dst_def using d(1) [OF assms(2)] d(2) by (intro unat_add_nowrap) simp
  then show ?thesis using d(1) [OF assms(2)] d(2) by (intro region_subset) simp_all
qed

lemma placed_segment:
  assumes "placeable img load_base" "sg \<in> set (ui_segments img)"
  shows "mem_slice (fold (\<lambda>sg. mem_write (seg_dst load_base (ui_link_base img) sg) (copied sg)) (ui_segments img)
      (mem_fill load_base 0 (unat (image_span img)) m))
      (seg_dst load_base (ui_link_base img) sg) (unat (es_vmsize sg)) =
    copied sg @ replicate (unat (es_vmsize sg) - length (copied sg)) 0"
proof (rule slice_after_write)
  show "unat (es_vmsize sg) \<le> 2 ^ 64" using unat_bound [of "es_vmsize sg"] by simp
  show "length (copied sg) \<le> unat (es_vmsize sg)" by (rule length_copied)
  fix x
  let ?dst = "seg_dst load_base (ui_link_base img)" and ?sz = "\<lambda>sg. unat (es_vmsize sg)"
  assume x: "x \<in> region (?dst sg) (?sz sg)"
  have "sorted_wrt (\<lambda>a b. region (?dst a) (?sz a) \<inter> region (?dst b) (?sz b) = {}) (ui_segments img)"
  proof (rule sorted_wrt_mono_rel)
    show "sorted_wrt (\<lambda>a b. region (es_vmaddr a) (?sz a) \<inter> region (es_vmaddr b) (?sz b) = {}) (ui_segments img)"
      using assms(1) by (simp add: placeable_def)
  qed (auto simp: seg_dst_def region_shift)
  from fold_writes_unique [OF this _ assms(2) x, of copied "mem_fill load_base 0 (unat (image_span img)) m"]
  have "fold (\<lambda>sg. mem_write (?dst sg) (copied sg)) (ui_segments img)
      (mem_fill load_base 0 (unat (image_span img)) m) x =
    mem_write (?dst sg) (copied sg) (mem_fill load_base 0 (unat (image_span img)) m) x"
    by (simp add: length_copied)
  moreover have "mem_fill load_base 0 (unat (image_span img)) m x = 0"
    using seg_dst_in_image [OF assms] x by (intro mem_fill_in) blast
  ultimately show "fold (\<lambda>sg. mem_write (?dst sg) (copied sg)) (ui_segments img)
      (mem_fill load_base 0 (unat (image_span img)) m) x = mem_write (?dst sg) (copied sg) (\<lambda>x. 0) x"
    by (simp add: mem_write_def)
qed

lemma placed_outside:
  assumes "placeable img load_base" "x \<notin> region load_base (unat (image_span img))"
  shows "fold (\<lambda>sg. mem_write (seg_dst load_base (ui_link_base img) sg) (copied sg)) (ui_segments img)
      (mem_fill load_base 0 (unat (image_span img)) m) x = m x"
proof -
  have "x \<notin> region (seg_dst load_base (ui_link_base img) sg) (length (copied sg))"
    if "sg \<in> set (ui_segments img)" for sg
    using seg_dst_in_image [OF assms(1) that] region_mono [OF length_copied] assms(2) by blast
  then have "fold (\<lambda>sg. mem_write (seg_dst load_base (ui_link_base img) sg) (copied sg)) (ui_segments img)
      (mem_fill load_base 0 (unat (image_span img)) m) x = mem_fill load_base 0 (unat (image_span img)) m x"
    by (rule fold_writes_out)
  with assms(2) show ?thesis by (simp add: mem_fill_out)
qed

section \<open>Properties\<close>

lemma parse_user_outcome:
  "macho_parse_user mp bs s =
     (case mp bs of
        Ok m \<Rightarrow>
          if present (segments m) = [] then
            (Ok None, s\<lparr>k_log := write_str (ascii (''xnu-rs: Mach-O has no loadable segments'' @ [CHR 0x0A])) (k_log s)\<rparr>)
          else (case find_entry (segments m) (load_commands m) of
             Ok (Some va) \<Rightarrow>
               (Ok (Some \<lparr>ui_segments = map to_exec (present (segments m)), ui_entry_va = va,
                          ui_link_base = link_base_of m\<rparr>), s)
           | Ok None \<Rightarrow>
               (Ok None, s\<lparr>k_log := write_str (ascii (''xnu-rs: Mach-O missing LC_MAIN'' @ [CHR 0x0A])) (k_log s)\<rparr>)
           | Err e \<Rightarrow> (Err e, s) | Panic \<Rightarrow> (Panic, s) | Diverge \<Rightarrow> (Diverge, s))
      | Err _ \<Rightarrow> (Ok None, s) | Panic \<Rightarrow> (Panic, s) | Diverge \<Rightarrow> (Diverge, s))"
  by (simp add: macho_parse_user_def collect_segments_eq link_base_of_def k_res_def k_then.simps k_print_def
      split: res.splits option.splits)

definition user_img :: "mach_o \<Rightarrow> u64 \<Rightarrow> user_image" where
  "user_img m va =
     \<lparr>ui_segments = map to_exec (present (segments m)), ui_entry_va = va, ui_link_base = link_base_of m\<rparr>"

lemma user_img_sel [simp]:
  "ui_segments (user_img m va) = map to_exec (present (segments m))"
  "ui_entry_va (user_img m va) = va" "ui_link_base (user_img m va) = link_base_of m"
  by (simp_all add: user_img_def)

lemma placeable_nonempty: "placeable (user_img m va) load_base \<Longrightarrow> present (segments m) \<noteq> []"
  using placeableD(4) [of "user_img m va" load_base]
  by (auto simp: image_span_def saturating_sub_def split: if_splits)

lemma user_program_placed:
  assumes "mp bs = Ok m" "find_entry (segments m) (load_commands m) = Ok (Some va)"
    and "placeable (user_img m va) load_base"
  shows "\<exists>sb s'. load_and_run mp bs load_base s =
        (Ok (TrapFrame_new_user (load_base + (va - link_base_of m)) (sb + USER_STACK_SIZE)), s') \<and>
     list_all (\<lambda>sg. mem_slice (k_mem s') (load_base + (vmaddr sg - link_base_of m)) (unat (vmsize sg)) =
        take (unat (vmsize sg)) (seg_data sg) @ replicate (unat (vmsize sg) - length (seg_data sg)) 0)
       (present (segments m)) \<and>
     {x. k_mem s' x \<noteq> k_mem s x} \<subseteq> region load_base (unat (image_span (user_img m va))) \<and>
     k_cache s' = k_cache s @ clean_dcache_invalidate_icache load_base (unat (image_span (user_img m va))) \<and>
     k_log s' = launch_log (user_img m va) load_base (load_base + (va - link_base_of m)) (sb + USER_STACK_SIZE)
       (k_log s) \<and>
     4096 dvd unat sb \<and> unat load_base + unat (image_span (user_img m va)) \<le> unat sb \<and>
     unat sb < unat load_base + unat (image_span (user_img m va)) + 4096 \<and>
     region load_base (unat (image_span (user_img m va))) \<inter> region sb (unat USER_STACK_SIZE) = {}"
proof -
  let ?img = "user_img m va"
  obtain sb where r: "place_user_image ?img load_base s =
      (Ok (TrapFrame_new_user (load_base + (ui_entry_va ?img - ui_link_base ?img)) (sb + USER_STACK_SIZE)),
       s\<lparr>k_log := launch_log ?img load_base (load_base + (ui_entry_va ?img - ui_link_base ?img))
           (sb + USER_STACK_SIZE) (k_log s),
         k_mem := fold (\<lambda>sg. mem_write (seg_dst load_base (ui_link_base ?img) sg) (copied sg)) (ui_segments ?img)
           (mem_fill load_base 0 (unat (image_span ?img)) (k_mem s)),
         k_cache := k_cache s @ clean_dcache_invalidate_icache load_base (unat (image_span ?img))\<rparr>)"
    and sb: "4096 dvd unat sb" "unat load_base + unat (image_span ?img) \<le> unat sb"
      "unat sb < unat load_base + unat (image_span ?img) + 4096"
    by (rule place_user_image_run [OF assms(3)])
  have lr: "load_and_run mp bs load_base s = place_user_image ?img load_base s"
    using assms(1,2) placeable_nonempty [OF assms(3)]
    by (simp add: load_and_run_def parse_user_outcome k_then.simps user_img_def)
  have "unat sb + unat USER_STACK_SIZE \<le> 2 ^ 64"
    using sb(3) placeableD(5) [OF assms(3)] by (simp add: USER_STACK_SIZE_def)
  note dis = region_disjoint [OF sb(2) this]
  have seg: "mem_slice (fold (\<lambda>sg. mem_write (seg_dst load_base (ui_link_base ?img) sg) (copied sg)) (ui_segments ?img)
      (mem_fill load_base 0 (unat (image_span ?img)) (k_mem s)))
      (load_base + (vmaddr sg - link_base_of m)) (unat (vmsize sg)) =
      take (unat (vmsize sg)) (seg_data sg) @ replicate (unat (vmsize sg) - length (seg_data sg)) 0"
    if "sg \<in> set (present (segments m))" for sg
    using placed_segment [OF assms(3), of "to_exec sg" "k_mem s"] that
    by (simp add: seg_dst_def copied_def min_def split: if_splits)
  show ?thesis
    using placed_outside [OF assms(3), of _ "k_mem s"] seg sb dis
    by (intro exI [of _ sb]) (auto simp: lr r list_all_iff)
qed

text \<open>C8: loading a user program is correct and cannot fail for a well-formed image: whatever memory
  held before, afterwards every segment of the file is at its place relative to the lowest segment,
  its data followed by zeros up to its memory size; nothing outside the image's span has
  changed; the data cache is cleaned and the instruction cache invalidated over the whole span;
  the program counter is the relocated entry point; and the stack is 64 KiB of page-aligned memory
  right above the image, overlapping neither it nor, therefore, anything written.\<close>

theorem user_program_loaded:
  assumes "mp bs = Ok m" "find_entry (segments m) (load_commands m) = Ok (Some va)"
    and "placeable (user_img m va) load_base"
  shows "\<exists>sb s'. load_and_run mp bs load_base s =
        (Ok (TrapFrame_new_user (load_base + (va - link_base_of m)) (sb + USER_STACK_SIZE)), s') \<and>
     list_all (\<lambda>sg. mem_slice (k_mem s') (load_base + (vmaddr sg - link_base_of m)) (unat (vmsize sg)) =
        take (unat (vmsize sg)) (seg_data sg) @ replicate (unat (vmsize sg) - length (seg_data sg)) 0)
       (present (segments m)) \<and>
     {x. k_mem s' x \<noteq> k_mem s x} \<subseteq> region load_base (unat (image_span (user_img m va))) \<and>
     k_cache s' = k_cache s @ clean_dcache_invalidate_icache load_base (unat (image_span (user_img m va))) \<and>
     4096 dvd unat sb \<and> unat sb < unat load_base + unat (image_span (user_img m va)) + 4096 \<and>
     region load_base (unat (image_span (user_img m va))) \<inter> region sb (unat USER_STACK_SIZE) = {}"
  using user_program_placed [of mp bs, OF assms, of s] by blast

text \<open>A two-segment program: code at the link base, one data page with zero-filled rest.\<close>

definition sample_user :: mach_o where
  "sample_user =
     \<lparr>segments =
        [\<lparr>seg_name = Some (ascii ''__PAGEZERO''), vmaddr = 0, vmsize = 0, fileoff = 0, filesize = 0, seg_data = []\<rparr>,
         \<lparr>seg_name = Some (ascii ''__TEXT''), vmaddr = 0x100000000, vmsize = 0x1000, fileoff = 0x10, filesize = 3,
          seg_data = [1, 2, 3]\<rparr>,
         \<lparr>seg_name = Some (ascii ''__DATA''), vmaddr = 0x100001000, vmsize = 4, fileoff = 0x20, filesize = 1,
          seg_data = [7]\<rparr>],
      load_commands = [\<lparr>lc_cmd = LC_SEGMENT_64, lc_variant = OtherCommand\<rparr>,
        \<lparr>lc_cmd = LC_MAIN, lc_variant = MainCommand 0x12\<rparr>],
      entry = 0\<rparr>"

definition sample_kstate :: kstate where
  "sample_kstate = \<lparr>k_log = [], k_mem = (\<lambda>_. 0xFF), k_cache = []\<rparr>"

lemma sample_user_parts:
  "present (segments sample_user) = tl (segments sample_user)"
  "link_base_of sample_user = 0x100000000"
  "find_entry (segments sample_user) (load_commands sample_user) = Ok (Some 0x100000002)"
  "image_span (user_img sample_user 0x100000002) = 0x1004"
  by (simp_all add: sample_user_def present_def link_base_of_def LC_SEGMENT_64_def LC_MAIN_def text_segment_def
      ascii_def saturating_sub_def add_panic_def checked_add_def image_span_def user_img_def saturating_add_def
      to_exec_def)

lemma sample_user_placeable: "placeable (user_img sample_user 0x100000002) 0x44000000"
proof -
  have "region 0x100000000 0x1000 \<inter> region 0x100001000 4 = {}" by (rule region_disjoint) simp_all
  then show ?thesis
    by (simp add: placeable_def sample_user_parts) (simp add: sample_user_def)
qed

theorem user_program_loaded_witness:
  "\<exists>sb s'. load_and_run (\<lambda>_. Ok sample_user) [] 0x44000000 sample_kstate =
       (Ok (TrapFrame_new_user 0x44000002 (sb + USER_STACK_SIZE)), s') \<and>
     mem_slice (k_mem s') 0x44001000 4 = 7 # replicate 3 0 \<and> 4096 dvd unat sb"
proof -
  let ?mp = "\<lambda>_. Ok sample_user"
  from user_program_loaded [of ?mp "[]", OF refl sample_user_parts(3) sample_user_placeable, of sample_kstate]
  obtain sb s' where "load_and_run ?mp [] 0x44000000 sample_kstate =
       (Ok (TrapFrame_new_user (0x44000000 + (0x100000002 - 0x100000000)) (sb + USER_STACK_SIZE)), s')"
    "4096 dvd unat sb"
    "list_all (\<lambda>sg. mem_slice (k_mem s') (0x44000000 + (vmaddr sg - 0x100000000)) (unat (vmsize sg)) =
        take (unat (vmsize sg)) (seg_data sg) @ replicate (unat (vmsize sg) - length (seg_data sg)) 0)
       (present (segments sample_user))"
    unfolding sample_user_parts(2) by blast
  then show ?thesis
    by (intro exI [of _ sb] exI [of _ s']) (simp add: sample_user_parts(1), simp add: sample_user_def)
qed

text \<open>C25: a file that cannot be run is refused before anything is touched. When the parser returns an error, when there is
  no segment to load, or when there is no usable \<open>LC_MAIN\<close>, the loader reports the reason (for a parse error only
  the failure) on the console and stops, with memory and caches as before. A parser that panics or does not
  return takes the loader with it, and an entry point past the top of the address space panics: in these
  cases too nothing was written or printed. A file with none of these defects goes on to be placed.\<close>

theorem unloadable_program_refused:
  "let (res, s') = load_and_run mp bs load_base s;
       failed = ascii (''xnu-rs: failed to parse user Mach-O'' @ [CHR 0x0A]);
       refused = (\<lambda>why. res = Err Spinning \<and> k_mem s' = k_mem s \<and> k_cache s' = k_cache s \<and>
          uart_text (k_log s') = uart_text (k_log s) @ why @ failed)
   in case mp bs of
        Ok m \<Rightarrow>
          (if present (segments m) = [] then
             refused (ascii (''xnu-rs: Mach-O has no loadable segments'' @ [CHR 0x0A]))
           else case find_entry (segments m) (load_commands m) of
               Ok None \<Rightarrow> refused (ascii (''xnu-rs: Mach-O missing LC_MAIN'' @ [CHR 0x0A]))
             | Ok (Some va) \<Rightarrow> (res, s') = place_user_image (user_img m va) load_base s
             | _ \<Rightarrow> res = Panic \<and> s' = s)
      | Err _ \<Rightarrow> refused []
      | Panic \<Rightarrow> res = Panic \<and> s' = s
      | Diverge \<Rightarrow> res = Diverge \<and> s' = s"
proof -
  have ne: "find_entry sgs cs \<noteq> Err e" "find_entry sgs cs \<noteq> Diverge" for sgs cs e
    by (auto simp: find_entry_first add_panic_def res_simps or_panic_def split: option.splits command_variant.splits)
  show ?thesis
    by (auto simp: load_and_run_def parse_user_outcome k_then.simps k_print_def k_res_def Let_def user_img_def ne
        split: res.splits option.splits prod.splits)
qed

text \<open>C30: the kernel's cache maintenance issues exactly the operations of the boot loader's: below the last
  cache line of the address space, where the unchecked loop counter cannot overflow, the two
  implementations agree, so the covering result for the loader's holds for it too.\<close>

theorem kernel_flush_agrees:
  assumes "unat base + unat len + 64 < 2 ^ 64"
  shows "flush_dcache_invalidate_icache base len s =
    (Ok (), s\<lparr>k_cache := k_cache s @ clean_dcache_invalidate_icache base (unat len)\<rparr>)"
  using assms by (rule flush_run)

theorem kernel_flush_agrees_witness:
  "flush_dcache_invalidate_icache 0x44000000 0x1004 sample_kstate =
    (Ok (), sample_kstate\<lparr>k_cache := k_cache sample_kstate @ clean_dcache_invalidate_icache 0x44000000 (unat (0x1004 :: u64))\<rparr>)"
  by (rule kernel_flush_agrees) simp

end
