(* ===== verification/Bump_Alloc.thy ===== *)
theory Bump_Alloc
  imports Xnu_Align
begin

text \<open>
  The global allocator of \<open>kernel/src/alloc/mod.rs\<close>: an atomic offset into a
  static array, advanced by a compare-and-exchange loop. \<open>alloc_try\<close> is the
  computation of one iteration; \<open>alloc_step\<close> interleaves any number of
  concurrent calls, one atomic access per step. Of a call in progress the state
  records its layout, the number of retries so far and, between load and exchange, the value
  loaded. Two history variables: \<open>allocs\<close>, the allocations made so far, oldest first, and \<open>begun\<close>, how many there
  were when the call in progress began.
\<close>

definition HEAP_SIZE :: u64 where
  "HEAP_SIZE = 4 * 1024 * 1024"

record layout =
  l_size :: u64
  l_align :: u64

text \<open>What \<open>core::alloc::Layout\<close> guarantees of every value: a power-of-two alignment.\<close>

definition valid_layout :: "layout \<Rightarrow> bool" where
  "valid_layout l \<longleftrightarrow> (\<exists>k < 64. l_align l = 2 ^ k)"

definition alloc_try :: "u64 \<Rightarrow> layout \<Rightarrow> (u64 \<times> u64) option" where
  "alloc_try old l =
     (let al = l_align l;
          aligned = (old + (al - 1)) AND NOT (al - 1)
      in case checked_add aligned (l_size l) of
           Some n \<Rightarrow> if n \<le> HEAP_SIZE then Some (aligned, n) else None
         | None \<Rightarrow> None)"

text \<open>A call that is not disturbed: the loaded value is still there at the exchange.\<close>

definition alloc :: "u64 \<Rightarrow> layout \<Rightarrow> u64 \<Rightarrow> u64 \<times> u64" where
  "alloc base l heap_next =
     (case alloc_try heap_next l of
        None \<Rightarrow> (0, heap_next)
      | Some (aligned, n) \<Rightarrow> (base + aligned, n))"

definition dealloc :: "u64 \<Rightarrow> layout \<Rightarrow> u64 \<Rightarrow> u64" where
  "dealloc ptr l heap_next = heap_next"

datatype call_state =
    Ready layout nat
  | Loaded layout nat u64
  | Returned layout u64

record heap_sys =
  heap_next :: u64
  calls :: "nat \<Rightarrow> call_state option"
  allocs :: "(u64 \<times> layout) list"
  begun :: "nat \<Rightarrow> nat"

definition heap_init :: heap_sys where
  "heap_init = \<lparr>heap_next = 0, calls = Map.empty, allocs = [], begun = (\<lambda>_. 0)\<rparr>"

inductive alloc_step :: "u64 \<Rightarrow> heap_sys \<Rightarrow> heap_sys \<Rightarrow> bool" for base :: u64 where
  begin_call: "calls s t = None \<Longrightarrow> valid_layout l \<Longrightarrow>
     alloc_step base s (s\<lparr>calls := (calls s)(t \<mapsto> Ready l 0), begun := (begun s)(t := length (allocs s))\<rparr>)"
| load: "calls s t = Some (Ready l k) \<Longrightarrow> alloc_try (heap_next s) l \<noteq> None \<Longrightarrow>
     alloc_step base s (s\<lparr>calls := (calls s)(t \<mapsto> Loaded l k (heap_next s))\<rparr>)"
| exhausted: "calls s t = Some (Ready l k) \<Longrightarrow> alloc_try (heap_next s) l = None \<Longrightarrow>
     alloc_step base s (s\<lparr>calls := (calls s)(t \<mapsto> Returned l 0)\<rparr>)"
| exchange_ok: "calls s t = Some (Loaded l k old) \<Longrightarrow> heap_next s = old \<Longrightarrow>
     alloc_try old l = Some (aligned, n) \<Longrightarrow>
     alloc_step base s (s\<lparr>heap_next := n, calls := (calls s)(t \<mapsto> Returned l (base + aligned)),
       allocs := allocs s @ [(aligned, l)]\<rparr>)"
| exchange_fail: "calls s t = Some (Loaded l k old) \<Longrightarrow> heap_next s \<noteq> old \<Longrightarrow>
     alloc_step base s (s\<lparr>calls := (calls s)(t \<mapsto> Ready l (Suc k))\<rparr>)"
| end_call: "calls s t = Some (Returned l p) \<Longrightarrow>
     alloc_step base s (s\<lparr>calls := (calls s)(t := None)\<rparr>)"

definition reachable_heap :: "u64 \<Rightarrow> heap_sys \<Rightarrow> bool" where
  "reachable_heap base s \<longleftrightarrow> (alloc_step base)\<^sup>*\<^sup>* heap_init s"

section \<open>One iteration\<close>

lemma unat_HEAP_SIZE: "unat HEAP_SIZE = 4194304"
  by (simp add: HEAP_SIZE_def)

lemma alloc_try_None_or:
  assumes "valid_layout l" "unat old \<le> unat HEAP_SIZE"
  obtains k where "l_align l = 2 ^ k" "k < 64"
    "unat ((old + (l_align l - 1)) AND NOT (l_align l - 1)) = 2 ^ k * ((unat old + (2 ^ k - 1)) div 2 ^ k)"
proof -
  from assms(1) obtain k where k: "k < 64" "l_align l = 2 ^ k" by (auto simp: valid_layout_def)
  have "(2 :: nat) ^ k \<le> 2 ^ 63" using k(1) by (intro power_increasing) auto
  moreover have "unat (l_align l - 1) = 2 ^ k - 1"
    using k by (simp add: unat_sub_le word_le_nat_alt unat_power_two)
  ultimately have "unat old + unat (l_align l - 1) < 2 ^ 64"
    using assms(2) by (simp add: unat_HEAP_SIZE)
  with unat_round_up [OF k(2) _ , of old] k(1) that [OF k(2,1)] show thesis by (simp add: k(2))
qed

lemma alloc_try_Some:
  assumes "valid_layout l" "unat old \<le> unat HEAP_SIZE" "alloc_try old l = Some (aligned, n)"
  shows "unat old \<le> unat aligned" "unat n = unat aligned + unat (l_size l)"
    "unat n \<le> unat HEAP_SIZE" "unat (l_align l) dvd unat aligned"
    "unat aligned < unat old + unat (l_align l)"
proof -
  from assms(1,2) obtain k where k: "l_align l = 2 ^ k" "k < 64"
    "unat ((old + (l_align l - 1)) AND NOT (l_align l - 1)) = 2 ^ k * ((unat old + (2 ^ k - 1)) div 2 ^ k)"
    by (rule alloc_try_None_or)
  from assms(3) have a: "aligned = (old + (l_align l - 1)) AND NOT (l_align l - 1)"
    and c: "checked_add aligned (l_size l) = Some n" and n: "n \<le> HEAP_SIZE"
    by (auto simp: alloc_try_def Let_def split: option.splits if_splits)
  have al: "unat (l_align l) = 2 ^ k" using k by (simp add: unat_power_two)
  show "unat n = unat aligned + unat (l_size l)" using c by (simp add: arith_specs)
  show "unat n \<le> unat HEAP_SIZE" using n by (simp add: word_le_nat_alt)
  show "unat (l_align l) dvd unat aligned" unfolding a k(3) al by simp
  show "unat old \<le> unat aligned" "unat aligned < unat old + unat (l_align l)"
    unfolding a k(3) al using round_up_bounds [of "2 ^ k" "unat old"] by simp_all
qed

section \<open>Invariant\<close>

text \<open>Every allocation made so far is aligned and lies below the current offset, and each starts
  where all earlier ones have ended.\<close>

definition alloc_end :: "u64 \<times> layout \<Rightarrow> nat" where
  "alloc_end = (\<lambda>(a, l). unat a + unat (l_size l))"

definition allocs_ok :: "nat \<Rightarrow> (u64 \<times> layout) list \<Rightarrow> bool" where
  "allocs_ok top_off as \<longleftrightarrow>
     sorted_wrt (\<lambda>x y. alloc_end x \<le> unat (fst y)) as \<and>
     (\<forall>x \<in> set as. alloc_end x \<le> top_off \<and> unat (l_align (snd x)) dvd unat (fst x))"

text \<open>Of a call in progress: as many successes since it began as it has retried, and one more once the value it loaded
  is out of date; and the offset has moved at least once for each retry.\<close>

fun call_ok :: "u64 \<Rightarrow> nat \<Rightarrow> (u64 \<times> layout) list \<Rightarrow> nat \<Rightarrow> call_state \<Rightarrow> bool" where
  "call_ok base next_off as b (Ready l k) \<longleftrightarrow> valid_layout l \<and> k \<le> next_off \<and> b + k \<le> length as"
| "call_ok base next_off as b (Loaded l k old) \<longleftrightarrow> valid_layout l \<and> k \<le> unat old \<and> unat old \<le> next_off \<and>
     b + k \<le> length as \<and> (unat old \<noteq> next_off \<longrightarrow> b + k < length as)"
| "call_ok base next_off as b (Returned l p) \<longleftrightarrow>
     valid_layout l \<and> (p = 0 \<or> (\<exists>a. (a, l) \<in> set as \<and> p = base + a))"

definition heap_inv :: "u64 \<Rightarrow> heap_sys \<Rightarrow> bool" where
  "heap_inv base s \<longleftrightarrow> unat (heap_next s) \<le> unat HEAP_SIZE \<and>
     allocs_ok (unat (heap_next s)) (allocs s) \<and>
     (\<forall>t cs. calls s t = Some cs \<longrightarrow> call_ok base (unat (heap_next s)) (allocs s) (begun s t) cs)"

lemma heap_inv_init: "heap_inv base heap_init"
  by (simp add: heap_inv_def heap_init_def allocs_ok_def)

lemma call_ok_success:
  "call_ok base m as b cs \<Longrightarrow> m \<le> m' \<Longrightarrow> call_ok base m' (as @ [x]) b cs"
  by (cases cs) auto

lemma heap_inv_call:
  "heap_inv base s \<Longrightarrow> calls s t = Some cs \<Longrightarrow> call_ok base (unat (heap_next s)) (allocs s) (begun s t) cs"
  unfolding heap_inv_def by blast

lemma heap_inv_calls:
  assumes "heap_inv base s" "\<And>cs. f t = Some cs \<Longrightarrow> call_ok base (unat (heap_next s)) (allocs s) (g t) cs"
    and "\<And>u. u \<noteq> t \<Longrightarrow> f u = calls s u \<and> g u = begun s u"
  shows "heap_inv base (s\<lparr>calls := f, begun := g\<rparr>)"
proof -
  have "call_ok base (unat (heap_next s)) (allocs s) (g u) cs" if "f u = Some cs" for u cs
    using assms(2) [of cs] assms(3) [of u] heap_inv_call [OF assms(1), of u cs] that by (cases "u = t") auto
  then show ?thesis using assms(1) by (simp add: heap_inv_def)
qed

lemmas heap_inv_step = heap_inv_calls [where g = "begun s" and s = s for s, simplified]

lemma alloc_step_inv:
  assumes "alloc_step base s s'" "heap_inv base s"
  shows "heap_inv base s'"
  using assms(1)
proof (cases rule: alloc_step.cases)
  case (begin_call t l)
  show ?thesis unfolding begin_call(1)
    by (rule heap_inv_calls [OF assms(2), of _ t]) (use begin_call in auto)
next
  case (load t l k)
  have "call_ok base (unat (heap_next s)) (allocs s) (begun s t) (Ready l k)"
    using heap_inv_call [OF assms(2) load(2)] .
  then show ?thesis unfolding load(1)
    by (intro heap_inv_step [OF assms(2), of _ t]) auto
next
  case (exhausted t l k)
  have "call_ok base (unat (heap_next s)) (allocs s) (begun s t) (Ready l k)"
    using heap_inv_call [OF assms(2) exhausted(2)] .
  then show ?thesis unfolding exhausted(1)
    by (intro heap_inv_step [OF assms(2), of _ t]) auto
next
  case (exchange_ok t l k old aligned n)
  have c: "valid_layout l" and nx: "unat (heap_next s) \<le> unat HEAP_SIZE"
    and ao: "allocs_ok (unat (heap_next s)) (allocs s)"
    using heap_inv_call [OF assms(2) exchange_ok(2)] assms(2) by (simp_all add: heap_inv_def)
  note a = alloc_try_Some [OF c nx exchange_ok(4) [folded exchange_ok(3)]]
  have le: "unat (heap_next s) \<le> unat n" using a(1,2) by simp
  have "allocs_ok (unat n) (allocs s @ [(aligned, l)])"
    using ao a le by (auto simp: allocs_ok_def sorted_wrt_append alloc_end_def)
  moreover have "call_ok base (unat n) (allocs s @ [(aligned, l)]) (begun s u) cs"
    if "((calls s)(t \<mapsto> Returned l (base + aligned))) u = Some cs" for u cs
  proof (cases "u = t")
    case True
    with that c show ?thesis by auto
  next
    case False
    with that have "call_ok base (unat (heap_next s)) (allocs s) (begun s u) cs"
      by (intro heap_inv_call [OF assms(2), of u]) simp
    then show ?thesis by (rule call_ok_success [OF _ le])
  qed
  ultimately show ?thesis using a(3) unfolding exchange_ok(1) by (simp add: heap_inv_def)
next
  case (exchange_fail t l k old)
  have "call_ok base (unat (heap_next s)) (allocs s) (begun s t) (Loaded l k old)"
    using heap_inv_call [OF assms(2) exchange_fail(2)] .
  moreover from exchange_fail have "unat (heap_next s) \<noteq> unat old" by (simp add: word_unat_eq_iff)
  ultimately have "call_ok base (unat (heap_next s)) (allocs s) (begun s t) (Ready l (Suc k))" by simp
  then show ?thesis unfolding exchange_fail(1)
    by (intro heap_inv_step [OF assms(2), of _ t]) auto
next
  case (end_call t l p)
  show ?thesis unfolding end_call(1)
    by (rule heap_inv_step [OF assms(2), of _ t]) auto
qed

lemma reachable_heap_inv: "reachable_heap base s \<Longrightarrow> heap_inv base s"
  unfolding reachable_heap_def
  by (induction rule: rtranclp_induct) (auto intro: heap_inv_init alloc_step_inv)

text \<open>The offset and address of a returned block.\<close>

lemma returned_block:
  assumes "reachable_heap base s" "calls s t = Some (Returned l p)" "p \<noteq> 0" "unat base + 4194304 < 2 ^ 64"
  obtains a where "(a, l) \<in> set (allocs s)" "unat p = unat base + unat a" "valid_layout l"
    "unat a + unat (l_size l) \<le> 4194304" "unat (l_align l) dvd unat a"
proof -
  note inv = reachable_heap_inv [OF assms(1)]
  have "call_ok base (unat (heap_next s)) (allocs s) (begun s t) (Returned l p)"
    using heap_inv_call [OF inv assms(2)] .
  then obtain a where a: "(a, l) \<in> set (allocs s)" "p = base + a" and v: "valid_layout l"
    using assms(3) by auto
  have e: "unat a + unat (l_size l) \<le> 4194304" "unat (l_align l) dvd unat a"
    using inv a(1) by (fastforce simp: heap_inv_def allocs_ok_def alloc_end_def unat_HEAP_SIZE)+
  have p: "unat p = unat base + unat a"
    using e(1) assms(4) by (simp add: a(2) unat_add_nowrap)
  show thesis by (rule that [OF a(1) p v e])
qed

section \<open>Properties\<close>

text \<open>C9: memory safety of the allocator under concurrency: in every state reachable by any
  interleaving of any number of calls, all allocations made so far end at or below the current offset, which is
  itself inside the 4 MiB heap, have an offset that is a multiple of their alignment, and no two of them share a
  byte (each starts at or after the end of all earlier ones).\<close>

theorem heap_allocations_disjoint:
  assumes "reachable_heap base s"
  shows "sorted_wrt (\<lambda>x y. unat (fst x) + unat (l_size (snd x)) \<le> unat (fst y)) (allocs s) \<and>
    (\<forall>x \<in> set (allocs s). unat (fst x) + unat (l_size (snd x)) \<le> unat (heap_next s) \<and>
       unat (l_align (snd x)) dvd unat (fst x)) \<and> unat (heap_next s) \<le> 4194304"
proof -
  have inv: "unat (heap_next s) \<le> 4194304" "allocs_ok (unat (heap_next s)) (allocs s)"
    using reachable_heap_inv [OF assms] by (simp_all add: heap_inv_def unat_HEAP_SIZE)
  then show ?thesis
    by (fastforce simp: allocs_ok_def alloc_end_def split_beta)
qed

text \<open>C24: a pointer returned by a call is null or the start of an allocation recorded for that
  call's own layout; the bytes it names are inside the heap array, the address computation does not
  overflow, and the pointer has the requested alignment for every alignment up to the 16 bytes
  the array itself is aligned to.\<close>

theorem returned_pointer_valid:
  assumes "reachable_heap base s" "calls s t = Some (Returned l p)" "p \<noteq> 0"
    and "16 dvd unat base" "unat base + 4194304 < 2 ^ 64"
  shows "\<exists>a. (a, l) \<in> set (allocs s) \<and> unat p = unat base + unat a \<and>
    unat p + unat (l_size l) \<le> unat base + 4194304 \<and>
    (unat (l_align l) \<le> 16 \<longrightarrow> unat (l_align l) dvd unat p)"
proof -
  obtain a where a: "(a, l) \<in> set (allocs s)" and p: "unat p = unat base + unat a" and v: "valid_layout l"
    and e: "unat a + unat (l_size l) \<le> 4194304" "unat (l_align l) dvd unat a"
    by (rule returned_block [OF assms(1-3,5)])
  have "unat (l_align l) dvd unat p" if le: "unat (l_align l) \<le> 16"
  proof -
    from v obtain k where k: "k < 64" "unat (l_align l) = 2 ^ k"
      by (auto simp: valid_layout_def unat_power_two)
    with le have "(2 :: nat) ^ k \<le> 2 ^ 4" by simp
    then have "k \<le> 4" by (simp only: power_increasing_iff)
    then have "(2 :: nat) ^ k dvd 2 ^ 4" by (rule le_imp_power_dvd)
    with assms(4) k(2) have "unat (l_align l) dvd unat base" by (auto intro: dvd_trans)
    with e(2) show ?thesis by (simp add: p)
  qed
  with a p e(1) show ?thesis by auto
qed

text \<open>C23: the compare-and-exchange loop ends: a call in progress has retried at most once for each
  allocation that succeeded since it began (so a call no other call interferes with does not retry), and each
  retry also saw the offset move up, so that no call retries more than 4194304 times, whatever the other processors do.\<close>

theorem alloc_retries_bounded:
  assumes "reachable_heap base s" "calls s t = Some (Ready l k) \<or> calls s t = Some (Loaded l k old)"
  shows "begun s t + k \<le> length (allocs s) \<and> k \<le> unat (heap_next s) \<and> unat (heap_next s) \<le> 4194304"
proof -
  have "unat (heap_next s) \<le> 4194304" and
    "\<And>cs. calls s t = Some cs \<Longrightarrow> call_ok base (unat (heap_next s)) (allocs s) (begun s t) cs"
    using reachable_heap_inv [OF assms(1)] unfolding heap_inv_def by (auto simp: unat_HEAP_SIZE)
  with assms(2) show ?thesis by fastforce
qed

text \<open>An allocation fails only when it does not fit: for a valid layout the call returns null exactly
  if the aligned offset plus the size exceeds the heap, and otherwise it returns the
  smallest aligned offset at or above the current one and moves the offset to its end.
  Freeing changes nothing.\<close>

theorem alloc_fails_only_when_full:
  assumes "valid_layout l" "heap_off \<le> HEAP_SIZE"
  shows "(let aligned = unat (l_align l) * ((unat heap_off + (unat (l_align l) - 1)) div unat (l_align l)) in
      case alloc_try heap_off l of
        None \<Rightarrow> 4194304 < aligned + unat (l_size l)
      | Some (a, n) \<Rightarrow> unat a = aligned \<and> unat n = aligned + unat (l_size l) \<and> unat n \<le> 4194304) \<and>
    dealloc p l heap_off = heap_off"
proof -
  have le: "unat heap_off \<le> unat HEAP_SIZE" using assms(2) by (simp add: word_le_nat_alt)
  from assms(1) le obtain k where k: "l_align l = 2 ^ k" "k < 64"
    "unat ((heap_off + (l_align l - 1)) AND NOT (l_align l - 1)) =
      2 ^ k * ((unat heap_off + (2 ^ k - 1)) div 2 ^ k)" by (rule alloc_try_None_or)
  define a where "a = (heap_off + (l_align l - 1)) AND NOT (l_align l - 1)"
  have al: "unat (l_align l) = 2 ^ k" using k by (simp add: unat_power_two)
  have ua: "unat a = unat (l_align l) * ((unat heap_off + (unat (l_align l) - 1)) div unat (l_align l))"
    unfolding a_def k(3) al ..
  have "case alloc_try heap_off l of
        None \<Rightarrow> 4194304 < unat a + unat (l_size l)
      | Some (b, n) \<Rightarrow> unat b = unat a \<and> unat n = unat a + unat (l_size l) \<and> unat n \<le> 4194304"
  proof (cases "checked_add a (l_size l)")
    case None
    then have "alloc_try heap_off l = None" by (simp add: alloc_try_def Let_def a_def)
    moreover have "2 ^ 64 \<le> unat a + unat (l_size l)" using None by (simp add: arith_specs)
    ultimately show ?thesis by simp
  next
    case (Some n)
    then have "unat n = unat a + unat (l_size l)" by (simp add: arith_specs)
    with Some show ?thesis
      by (simp add: alloc_try_def Let_def a_def [symmetric] word_le_nat_alt unat_HEAP_SIZE)
  qed
  then show ?thesis unfolding Let_def ua [symmetric] by (simp add: dealloc_def)
qed

text \<open>C39: the alignment is given to the offset, not to the address: in every reachable state a returned pointer has the
  alignment its layout asks for if and only if the heap array itself happens to have it. The array is declared with
  an alignment of 16 only, so for a larger alignment and an array that is not so aligned every allocation that succeeds
  returns a misaligned pointer.\<close>

theorem large_alignment_not_honoured:
  assumes "reachable_heap base s" "calls s t = Some (Returned l p)" "p \<noteq> 0" "unat base + 4194304 < 2 ^ 64"
  shows "unat (l_align l) dvd unat p \<longleftrightarrow> unat (l_align l) dvd unat base"
proof -
  obtain a where "(a, l) \<in> set (allocs s)" and p: "unat p = unat base + unat a" and "valid_layout l" and
    "unat a + unat (l_size l) \<le> 4194304" and e: "unat (l_align l) dvd unat a"
    by (rule returned_block [OF assms])
  show ?thesis using dvd_add_left_iff [OF e, of "unat base"] by (simp add: p)
qed

section \<open>Concrete runs\<close>

definition sample_layout :: layout where
  "sample_layout = \<lparr>l_size = 64, l_align = 16\<rparr>"

definition page_layout :: layout where
  "page_layout = \<lparr>l_size = 64, l_align = 4096\<rparr>"

lemma sample_layout_valid: "valid_layout sample_layout" "valid_layout page_layout"
  unfolding valid_layout_def
  by (intro exI [of _ 4], simp add: sample_layout_def) (intro exI [of _ 12], simp add: page_layout_def)

lemma sample_try: "alloc_try 0 sample_layout = Some (0, 64)" "alloc_try 0 page_layout = Some (0, 64)"
  by (simp_all add: alloc_try_def sample_layout_def page_layout_def checked_add_def HEAP_SIZE_def)

definition sample_loaded :: "layout \<Rightarrow> heap_sys" where
  "sample_loaded l = \<lparr>heap_next = 0, calls = [0 \<mapsto> Loaded l 0 0], allocs = [], begun = (\<lambda>_. 0)\<rparr>"

definition sample_done :: "layout \<Rightarrow> heap_sys" where
  "sample_done l = \<lparr>heap_next = 64, calls = [0 \<mapsto> Returned l 0x40001010], allocs = [(0, l)], begun = (\<lambda>_. 0)\<rparr>"

lemma sample_reachable:
  assumes "valid_layout l" "alloc_try 0 l = Some (0, 64)"
  shows "reachable_heap 0x40001010 (sample_loaded l)" "reachable_heap 0x40001010 (sample_done l)"
proof -
  let ?b = "0x40001010 :: u64"
  let ?r = "heap_init\<lparr>calls := (calls heap_init)(0 \<mapsto> Ready l 0), begun := (begun heap_init)(0 := length (allocs heap_init))\<rparr>"
  have 1: "alloc_step ?b heap_init ?r"
    by (rule begin_call) (simp_all add: heap_init_def assms(1))
  have 2: "alloc_step ?b ?r (sample_loaded l)"
    using load [of ?r 0 l 0 ?b] by (simp add: heap_init_def assms(2) sample_loaded_def fun_upd_idem)
  have 3: "alloc_step ?b (sample_loaded l) (sample_done l)"
    using exchange_ok [of "sample_loaded l" 0 l 0 0 0 64 ?b] assms(2)
    by (simp add: sample_loaded_def sample_done_def)
  show "reachable_heap ?b (sample_loaded l)"
    unfolding reachable_heap_def using 1 2 by (meson r_into_rtranclp rtranclp.rtrancl_into_rtrancl)
  then show "reachable_heap ?b (sample_done l)"
    unfolding reachable_heap_def using 3 by (meson rtranclp.rtrancl_into_rtrancl)
qed

lemmas sample_runs = sample_reachable [OF sample_layout_valid(1) sample_try(1)]

theorem heap_allocations_disjoint_witness:
  "reachable_heap 0x40001010 (sample_done sample_layout) \<and> unat (l_align sample_layout) dvd (0 :: nat) \<and>
   (0 :: nat) + unat (l_size sample_layout) \<le> unat (64 :: u64)"
  using heap_allocations_disjoint [OF sample_runs(2)] sample_runs(2)
  by (simp add: sample_done_def)

theorem returned_pointer_valid_witness:
  "calls (sample_done sample_layout) 0 = Some (Returned sample_layout 0x40001010) \<and>
   unat (l_align sample_layout) dvd unat (0x40001010 :: u64) \<and>
   unat (0x40001010 :: u64) + unat (l_size sample_layout) \<le> unat (0x40001010 :: u64) + 4194304"
proof -
  have c: "calls (sample_done sample_layout) 0 = Some (Returned sample_layout 0x40001010)" by (simp add: sample_done_def)
  from returned_pointer_valid [OF sample_runs(2) c] have
    "\<exists>a. (a, sample_layout) \<in> set (allocs (sample_done sample_layout)) \<and>
      unat (0x40001010 :: u64) = unat (0x40001010 :: u64) + unat a \<and>
      unat (0x40001010 :: u64) + unat (l_size sample_layout) \<le> unat (0x40001010 :: u64) + 4194304 \<and>
      (unat (l_align sample_layout) \<le> 16 \<longrightarrow> unat (l_align sample_layout) dvd unat (0x40001010 :: u64))"
    by simp
  with c show ?thesis by (auto simp: sample_layout_def)
qed

theorem alloc_retries_bounded_witness:
  "calls (sample_loaded sample_layout) 0 = Some (Loaded sample_layout 0 0) \<and>
   begun (sample_loaded sample_layout) 0 + 0 \<le> length (allocs (sample_loaded sample_layout))"
  using alloc_retries_bounded [OF sample_runs(1), of 0 sample_layout 0 0]
  by (simp add: sample_loaded_def)

theorem large_alignment_not_honoured_witness:
  "calls (sample_done page_layout) 0 = Some (Returned page_layout 0x40001010) \<and> 16 dvd unat (0x40001010 :: u64) \<and>
   \<not> unat (l_align page_layout) dvd unat (0x40001010 :: u64)"
proof -
  have c: "calls (sample_done page_layout) 0 = Some (Returned page_layout 0x40001010)" by (simp add: sample_done_def)
  have "unat (l_align page_layout) dvd unat (0x40001010 :: u64) \<longleftrightarrow> unat (l_align page_layout) dvd unat (0x40001010 :: u64)"
    by (rule large_alignment_not_honoured [OF sample_reachable(2) [OF sample_layout_valid(2) sample_try(2)] c]) simp_all
  then show ?thesis using c by (simp add: page_layout_def)
qed

theorem alloc_fails_only_when_full_witness:
  "alloc_try 0x3FFFF8 sample_layout = None \<and> 4194304 < 0x400000 + unat (l_size sample_layout)"
proof -
  have n: "alloc_try 0x3FFFF8 sample_layout = None"
    by (simp add: alloc_try_def sample_layout_def checked_add_def HEAP_SIZE_def)
  have "(0x3FFFF8 :: u64) \<le> HEAP_SIZE" by (simp add: HEAP_SIZE_def)
  from alloc_fails_only_when_full [OF sample_layout_valid(1) this, of 0] n show ?thesis
    by (simp add: sample_layout_def)
qed

end
