(* ===== verification/Boot_El.thy ===== *)
theory Boot_El
  imports Xnu_Prelude
begin

text \<open>
  \<open>kernel/src/arch/aarch64/boot.rs\<close>: leaving EL2. The inline assembly is one
  straight line; each instruction is a step on the registers it touches. \<open>eret_el2\<close> is the
  architecture's exception return from EL2: it is illegal (\<open>PSTATE.IL\<close>) when
  \<open>HCR_EL2.TGE\<close> routes EL1 to EL2, or when the target is AArch64 EL1 and \<open>HCR_EL2.RW\<close> is clear;
  a legal return takes program counter and processor state from \<open>ELR_EL2\<close> and \<open>SPSR_EL2\<close>.
\<close>

record el_state =
  CurrentEL :: u64
  cpu_sp :: u64
  cpu_pc :: u64
  cpu_pstate :: u64
  cpu_il :: bool
  hcr_el2 :: u64
  sp_el1 :: u64
  spsr_el2 :: u64
  elr_el2 :: u64
  el_x0 :: u64
  el_x1 :: u64

definition eret_el2 :: "el_state \<Rightarrow> el_state" where
  "eret_el2 c =
     (if spsr_el2 c AND 0x1F = 5 \<and> bit (hcr_el2 c) 31 \<and> \<not> bit (hcr_el2 c) 27
      then c\<lparr>CurrentEL := 4, cpu_sp := sp_el1 c, cpu_pc := elr_el2 c, cpu_pstate := spsr_el2 c\<rparr>
      else c\<lparr>cpu_il := True\<rparr>)"

text \<open>The instructions in order; \<open>lbl\<close> is the address of label \<open>2:\<close>.\<close>

definition el2_to_el1 :: "u64 \<Rightarrow> el_state \<Rightarrow> el_state" where
  "el2_to_el1 lbl c =
     (let c = c\<lparr>el_x0 := hcr_el2 c\<rparr>;
          c = c\<lparr>el_x0 := el_x0 c OR push_bit 31 1\<rparr>;
          c = c\<lparr>el_x1 := push_bit 16 0x800\<rparr>;
          c = c\<lparr>el_x0 := el_x0 c AND NOT (el_x1 c)\<rparr>;
          c = c\<lparr>hcr_el2 := el_x0 c\<rparr>;
          c = c\<lparr>el_x0 := cpu_sp c\<rparr>;
          c = c\<lparr>sp_el1 := el_x0 c\<rparr>;
          c = c\<lparr>el_x0 := 0x3C5\<rparr>;
          c = c\<lparr>spsr_el2 := el_x0 c\<rparr>;
          c = c\<lparr>el_x0 := lbl\<rparr>;
          c = c\<lparr>elr_el2 := el_x0 c\<rparr>
      in eret_el2 c)"

definition drop_to_el1_if_needed :: "u64 \<Rightarrow> el_state \<Rightarrow> el_state" where
  "drop_to_el1_if_needed lbl c =
     (let current_el = drop_bit 2 (CurrentEL c) in
      if current_el \<noteq> 2 then c else el2_to_el1 lbl c)"

lemma set_clear_bits:
  fixes h :: u64
  assumes "a < 64" "b < 64" "a \<noteq> b"
  shows "bit ((h OR 2 ^ a) AND NOT (2 ^ b)) i \<longleftrightarrow>
     (if i = a then True else if i = b then False else bit h i)"
  using assms bit_imp_le_length [of h i]
  by (auto simp: bit_and_iff bit_or_iff bit_not_iff bit_exp_iff)

lemmas hcr_bits = set_clear_bits [of 31 27, simplified]

text \<open>C27: the kernel leaves EL2 correctly: from EL2 the exception return is legal and continues after it
  at EL1 on the same stack with debug, SError, IRQ and FIQ masked; of \<open>HCR_EL2\<close> only \<open>RW\<close> is set
  and \<open>TGE\<close> cleared. At any other level nothing changes.\<close>

theorem drop_to_el1_correct:
  "let c' = drop_to_el1_if_needed lbl c in
   if drop_bit 2 (CurrentEL c) = 2
   then cpu_il c' = cpu_il c \<and> drop_bit 2 (CurrentEL c') = 1 \<and> cpu_sp c' = cpu_sp c \<and>
     cpu_pc c' = lbl \<and> cpu_pstate c' AND 0x3C0 = 0x3C0 \<and> cpu_pstate c' AND 0x1F = 5 \<and>
     bit (hcr_el2 c') = (bit (hcr_el2 c))(31 := True, 27 := False)
   else c' = c"
  by (auto simp: drop_to_el1_if_needed_def el2_to_el1_def eret_el2_def Let_def hcr_bits fun_eq_iff)

end
