(* ===== verification/Kernel_Util.thy ===== *)
theory Kernel_Util
  imports Xnu_Prelude
begin

text \<open>
  \<open>kernel/src/util\<close>: the bit-field macros of \<open>bitfield.rs\<close> with every operation
  that can panic written out, the error codes of \<open>error.rs\<close>, and \<open>OnceLock\<close> of \<open>sync.rs\<close>, a
  wrapper whose two operations are those of \<open>spin::Once\<close>, a parameter here.
\<close>

section \<open>Bit fields\<close>

definition shl_panic :: "u64 \<Rightarrow> u64 \<Rightarrow> (u64, unit) res" where
  "shl_panic a n = (if n < 64 then Ok (push_bit (unat n) a) else Panic)"

definition shr_panic :: "u64 \<Rightarrow> u64 \<Rightarrow> (u64, unit) res" where
  "shr_panic a n = (if n < 64 then Ok (drop_bit (unat n) a) else Panic)"

definition field_width :: "u64 \<Rightarrow> u64 \<Rightarrow> (u64, unit) res" where
  "field_width high low = and_then (sub_panic high low) (\<lambda>d. add_panic d 1)"

definition low_mask :: "u64 \<Rightarrow> (u64, unit) res" where
  "low_mask width = and_then (shl_panic 1 width) (\<lambda>x. sub_panic x 1)"

definition bitfield_extract :: "u64 \<Rightarrow> u64 \<Rightarrow> u64 \<Rightarrow> (u64, unit) res" where
  "bitfield_extract v high low =
     and_then (field_width high low) (\<lambda>width.
     and_then (shr_panic v low) (\<lambda>s.
     and_then (low_mask width) (\<lambda>m. Ok (s AND m))))"

definition bitfield_insert :: "u64 \<Rightarrow> u64 \<Rightarrow> u64 \<Rightarrow> u64 \<Rightarrow> (u64, unit) res" where
  "bitfield_insert b high low val =
     and_then (field_width high low) (\<lambda>width.
     and_then (low_mask width) (\<lambda>m.
     and_then (shl_panic m low) (\<lambda>msk.
     and_then (low_mask width) (\<lambda>m'.
     and_then (shl_panic (val AND m') low) (\<lambda>v.
     Ok ((b AND NOT msk) OR v))))))"

section \<open>Error codes\<close>

datatype KernelError =
    OutOfMemory | InvalidAddress | NotFound | PermissionDenied | Again | Io | BadFd | NoSys | Fault

fun i64_from :: "KernelError \<Rightarrow> int" where
  "i64_from NotFound = -2"
| "i64_from Again = -35"
| "i64_from BadFd = -9"
| "i64_from OutOfMemory = -12"
| "i64_from PermissionDenied = -1"
| "i64_from Fault = -14"
| "i64_from Io = -5"
| "i64_from InvalidAddress = -22"
| "i64_from NoSys = -78"

section \<open>OnceLock\<close>

record ('t, 'o) once_ops =
  once_new :: 'o
  call_once :: "(unit \<Rightarrow> 't) \<Rightarrow> 'o \<Rightarrow> 't \<times> 'o"
  once_get :: "'o \<Rightarrow> 't option"

definition OnceLock_new :: "('t, 'o) once_ops \<Rightarrow> 'o" where
  "OnceLock_new spin = once_new spin"

definition get_or_init :: "('t, 'o) once_ops \<Rightarrow> (unit \<Rightarrow> 't) \<Rightarrow> 'o \<Rightarrow> 't \<times> 'o" where
  "get_or_init spin f s = call_once spin f s"

definition OnceLock_get :: "('t, 'o) once_ops \<Rightarrow> 'o \<Rightarrow> 't option" where
  "OnceLock_get spin s = once_get spin s"

definition OnceLock_default :: "('t, 'o) once_ops \<Rightarrow> 'o" where
  "OnceLock_default spin = OnceLock_new spin"

section \<open>Properties\<close>

lemma field_width_Ok:
  assumes "low \<le> high" "high < 64"
  shows "\<exists>w. field_width high low = Ok w \<and> unat w = unat high - unat low + 1"
proof -
  have h: "unat high < 64" "unat low \<le> unat high"
    using assms by (simp_all add: word_less_nat_alt word_le_nat_alt)
  have d: "sub_panic high low = (Ok (high - low) :: (u64, unit) res)"
    using assms(1) h by (simp add: sub_panic_Ok unat_sub_le)
  have u: "unat (high - low) = unat high - unat low" using assms(1) by (simp add: unat_sub_le)
  have "add_panic (high - low) 1 = (Ok (high - low + 1) :: (u64, unit) res)"
    using h u by (simp add: add_panic_Ok unat_add_nowrap)
  moreover have "unat (high - low + 1) = unat high - unat low + 1"
    using h u by (simp add: unat_add_nowrap)
  ultimately show ?thesis by (simp add: field_width_def d)
qed

lemma low_mask_Ok: "unat w < 64 \<Longrightarrow> low_mask w = Ok (mask (unat w))"
proof -
  assume w: "unat w < 64"
  have "unat (2 ^ unat w :: u64) = 2 ^ unat w" using w by (simp add: unat_power_two)
  then have "1 \<le> (2 ^ unat w :: u64)" by (simp add: word_le_nat_alt)
  then show ?thesis
    using w by (simp add: low_mask_def shl_panic_def word_less_nat_alt push_bit_of_1 sub_panic_def
        checked_sub_def mask_eq_exp_minus_1)
qed

lemma low_mask_64: "unat w = 64 \<Longrightarrow> low_mask w = Panic"
  by (simp add: low_mask_def shl_panic_def word_less_nat_alt)

lemma bitfield_insert_eq:
  assumes "low \<le> high" "high < 64" "unat high - unat low + 1 < 64"
  shows "bitfield_insert b high low val =
    Ok ((b AND NOT (push_bit (unat low) (mask (unat high - unat low + 1)))) OR
        push_bit (unat low) (val AND mask (unat high - unat low + 1)))"
proof -
  obtain w where w: "field_width high low = Ok w" "unat w = unat high - unat low + 1"
    using field_width_Ok [OF assms(1,2)] by blast
  have "low < 64" using assms by simp
  with w assms(3) show ?thesis by (simp add: bitfield_insert_def low_mask_Ok shl_panic_def)
qed

lemma bitfield_extract_eq:
  assumes "low \<le> high" "high < 64" "unat high - unat low + 1 < 64"
  shows "bitfield_extract v high low = Ok (drop_bit (unat low) v AND mask (unat high - unat low + 1))"
proof -
  obtain w where w: "field_width high low = Ok w" "unat w = unat high - unat low + 1"
    using field_width_Ok [OF assms(1,2)] by blast
  have "low < 64" using assms by simp
  with w assms(3) show ?thesis by (simp add: bitfield_extract_def low_mask_Ok shr_panic_def)
qed

lemma insert_bits:
  fixes b v :: u64
  assumes "l + n \<le> 64"
  shows "bit ((b AND NOT (push_bit l (mask n))) OR push_bit l (v AND mask n)) i \<longleftrightarrow>
    (if l \<le> i \<and> i < l + n then bit v (i - l) else bit b i)"
  using assms bit_imp_le_length [of b i]
  by (auto simp: bit_or_iff bit_and_iff bit_not_iff bit_push_bit_iff bit_mask_iff)

text \<open>C36: the bit-field macros are inverse to each other on fields of up to 63 bits: inserting into
  bits \<open>high..low\<close> does not panic, changes no other bit, and extracting the same field
  afterwards returns the inserted value reduced to the field's width.\<close>

theorem bitfield_roundtrip:
  assumes "low \<le> high" "high < 64" "unat high - unat low < 63"
  shows "\<exists>r. bitfield_insert b high low v = Ok r \<and>
    bitfield_extract r high low = Ok (take_bit (unat high - unat low + 1) v) \<and>
    (\<forall>i. i < unat low \<or> unat high < i \<longrightarrow> bit r i = bit b i)"
proof -
  let ?n = "unat high - unat low + 1" and ?l = "unat low"
  have n: "?n < 64" using assms(3) by simp
  have h: "unat high < 64" "?l \<le> unat high"
    using assms(1,2) by (simp_all add: word_less_nat_alt word_le_nat_alt)
  define r where "r = ((b AND NOT (push_bit ?l (mask ?n))) OR push_bit ?l (v AND mask ?n))"
  have bits: "bit r i \<longleftrightarrow> (if ?l \<le> i \<and> i < ?l + ?n then bit v (i - ?l) else bit b i)" for i
    unfolding r_def by (rule insert_bits) (use h in simp)
  have "drop_bit ?l r AND mask ?n = take_bit ?n v"
  proof (rule bit_word_eqI)
    fix i
    assume "i < LENGTH(64)"
    then show "bit (drop_bit ?l r AND mask ?n) i = bit (take_bit ?n v) i"
      using h by (simp add: bit_and_iff bit_drop_bit_eq bits bit_mask_iff bit_take_bit_iff) auto
  qed
  moreover have "bit r i = bit b i" if "i < ?l \<or> unat high < i" for i
    using that h unfolding bits by auto
  ultimately show ?thesis
    using bitfield_insert_eq [OF assms(1,2) n, of b v, folded r_def] bitfield_extract_eq [OF assms(1,2) n, of r]
    by (intro exI [of _ r]) simp
qed

theorem bitfield_roundtrip_witness:
  "\<exists>r. bitfield_insert 0xFFFF 7 4 0x3A = Ok r \<and> bitfield_extract r 7 4 = Ok (take_bit 4 0x3A)"
  using bitfield_roundtrip [of 4 7 "0xFFFF" "0x3A"] by auto

text \<open>The full-width field panics: with \<open>high = 63\<close> and \<open>low = 0\<close> both macros shift \<open>1\<close> by 64, which an
  overflow-checked build rejects, for every argument.\<close>

theorem bitfield_full_width_panics:
  "bitfield_extract v 63 0 = Panic \<and> bitfield_insert b 63 0 v = Panic"
proof -
  obtain w where "field_width 63 0 = Ok w" "unat w = 64"
    using field_width_Ok [of 0 63] by auto
  then show ?thesis
    by (simp add: bitfield_extract_def bitfield_insert_def low_mask_64 shr_panic_def)
qed

text \<open>Every kernel error becomes a negative code that user code can tell from a result and from every
  other error: the codes are between -78 and -1 and no two errors share one.\<close>

theorem error_codes_distinct:
  "inj i64_from \<and> range i64_from \<subseteq> {-78..-1}"
proof
  show "inj i64_from"
  proof (rule injI)
    fix x y
    assume "i64_from x = i64_from y"
    then show "x = y" by (cases x; cases y) simp_all
  qed
  show "range i64_from \<subseteq> {-78..-1}"
  proof
    fix z
    assume "z \<in> range i64_from"
    then obtain e where "z = i64_from e" by blast
    then show "z \<in> {-78..-1}" by (cases e) simp_all
  qed
qed

text \<open>What \<open>spin::Once\<close> documents: the first \<open>call_once\<close> stores its result, later ones return it.\<close>

definition once_contract :: "('t, 'o) once_ops \<Rightarrow> bool" where
  "once_contract ops \<longleftrightarrow> once_get ops (once_new ops) = None \<and>
     (\<forall>f s. case once_get ops s of
        None \<Rightarrow> fst (call_once ops f s) = f () \<and> once_get ops (snd (call_once ops f s)) = Some (f ())
      | Some v \<Rightarrow> fst (call_once ops f s) = v \<and> once_get ops (snd (call_once ops f s)) = Some v)"

lemma once_contractD:
  assumes "once_contract ops"
  shows "once_get ops s = None \<Longrightarrow> fst (call_once ops f s) = f () \<and>
      once_get ops (snd (call_once ops f s)) = Some (f ())"
    "once_get ops s = Some v \<Longrightarrow> fst (call_once ops f s) = v \<and>
      once_get ops (snd (call_once ops f s)) = Some v"
  using assms [unfolded once_contract_def, THEN conjunct2, rule_format, of f s] by simp_all

text \<open>A \<open>OnceLock\<close> is initialised once: a fresh or default lock is empty, the first
  \<open>get_or_init\<close> decides the value, and any later \<open>get_or_init\<close> and \<open>get\<close> return that value.\<close>

theorem once_lock_first_wins:
  assumes "once_contract spin"
  shows "OnceLock_get spin (OnceLock_default spin) = None \<and>
    (let (v, s1) = get_or_init spin f (OnceLock_new spin); (w, s2) = get_or_init spin g s1 in
     v = f () \<and> w = f () \<and> OnceLock_get spin s1 = Some (f ()) \<and> OnceLock_get spin s2 = Some (f ()))"
proof -
  have n: "once_get spin (once_new spin) = None" using assms by (simp add: once_contract_def)
  note a = once_contractD(1) [OF assms n, of f]
  from a have "once_get spin (snd (call_once spin f (once_new spin))) = Some (f ())" by simp
  note b = once_contractD(2) [OF assms this, of g]
  from n a b show ?thesis
    by (simp add: OnceLock_default_def OnceLock_new_def OnceLock_get_def get_or_init_def Let_def split_beta)
qed

definition option_once :: "(nat, nat option) once_ops" where
  "option_once = \<lparr>once_new = None,
     call_once = (\<lambda>f s. case s of None \<Rightarrow> (f (), Some (f ())) | Some v \<Rightarrow> (v, s)), once_get = (\<lambda>s. s)\<rparr>"

lemma option_once_contract: "once_contract option_once"
  by (auto simp: once_contract_def option_once_def split: option.splits)

theorem once_lock_first_wins_witness:
  "OnceLock_get option_once (OnceLock_default option_once) = None \<and>
   fst (get_or_init option_once (\<lambda>_. 8) (snd (get_or_init option_once (\<lambda>_. 7) (OnceLock_new option_once)))) = 7"
  using once_lock_first_wins [OF option_once_contract, of "\<lambda>_. 7" "\<lambda>_. 8"]
  by (simp add: Let_def split_beta)

end
