(* ===== verification/Macho_Format.thy ===== *)
theory Macho_Format
  imports Goblin
begin

text \<open>
  The Mach-O file format, as far as the two programs of this repository that
  write such files use it: a 64-bit little-endian header, \<open>LC_SEGMENT_64\<close> commands
  without sections and \<open>LC_MAIN\<close>. \<open>decode_macho\<close> is the format's reading of a file; the
  third-party parser stays a parameter, and \<open>conforming\<close> states of it that it reads
  the files of this kind as the format says. Both writers (the kernel's built-in
  test program and the image builder) are shown to produce such files in the
  theories of their components.
\<close>

definition rd32 :: "bytes \<Rightarrow> nat \<Rightarrow> nat" where
  "rd32 bs off = le_val (map (\<lambda>i. bs ! (off + i)) [0..<4])"

definition rd64 :: "bytes \<Rightarrow> nat \<Rightarrow> nat" where
  "rd64 bs off = le_val (map (\<lambda>i. bs ! (off + i)) [0..<8])"

definition sub_bytes :: "bytes \<Rightarrow> nat \<Rightarrow> nat \<Rightarrow> bytes" where
  "sub_bytes bs off n = map (\<lambda>i. bs ! (off + i)) [0..<n]"

datatype command = SegmentCommand mach_segment | EntryCommand u64

definition c_name :: "bytes \<Rightarrow> bytes" where
  "c_name bs = takeWhile (\<lambda>b. b \<noteq> 0) bs"

definition decode_segment :: "bytes \<Rightarrow> nat \<Rightarrow> command option" where
  "decode_segment bs off =
     (if rd32 bs (off + 4) = 72 \<and> rd32 bs (off + 64) = 0 \<and>
         utf8_valid (c_name (sub_bytes bs (off + 8) 16)) \<and>
         rd64 bs (off + 40) + rd64 bs (off + 48) \<le> length bs
      then Some (SegmentCommand
        \<lparr>seg_name = Some (c_name (sub_bytes bs (off + 8) 16)),
         vmaddr = word_of_nat (rd64 bs (off + 24)), vmsize = word_of_nat (rd64 bs (off + 32)),
         fileoff = word_of_nat (rd64 bs (off + 40)), filesize = word_of_nat (rd64 bs (off + 48)),
         seg_data = sub_bytes bs (rd64 bs (off + 40)) (rd64 bs (off + 48))\<rparr>)
      else None)"

primrec decode_commands :: "nat \<Rightarrow> nat \<Rightarrow> bytes \<Rightarrow> command list option" where
  "decode_commands 0 off bs = Some []"
| "decode_commands (Suc n) off bs =
     (if rd32 bs off = 0x19 then
        (case decode_segment bs off of
           None \<Rightarrow> None
         | Some c \<Rightarrow> map_option ((#) c) (decode_commands n (off + 72) bs))
      else if rd32 bs off = 0x80000028 \<and> rd32 bs (off + 4) = 24 then
        map_option ((#) (EntryCommand (word_of_nat (rd64 bs (off + 8))))) (decode_commands n (off + 24) bs)
      else None)"

fun command_size :: "command \<Rightarrow> nat" where
  "command_size (SegmentCommand _) = 72"
| "command_size (EntryCommand _) = 24"

fun segment_of :: "command \<Rightarrow> mach_segment option" where
  "segment_of (SegmentCommand s) = Some s"
| "segment_of (EntryCommand _) = None"

fun entryoff_of :: "command \<Rightarrow> u64 option" where
  "entryoff_of (SegmentCommand _) = None"
| "entryoff_of (EntryCommand e) = Some e"

fun to_load_command :: "command \<Rightarrow> load_command" where
  "to_load_command (SegmentCommand _) = \<lparr>lc_cmd = LC_SEGMENT_64, lc_variant = OtherCommand\<rparr>"
| "to_load_command (EntryCommand e) = \<lparr>lc_cmd = LC_MAIN, lc_variant = MainCommand e\<rparr>"

text \<open>The entry address: the offset of the first \<open>LC_MAIN\<close>, mapped through the first \<open>__TEXT\<close> segment.\<close>

definition entry_address :: "command list \<Rightarrow> u64 option" where
  "entry_address cs =
     (case List.map_filter entryoff_of cs of
        [] \<Rightarrow> Some 0
      | off # _ \<Rightarrow>
          (case find (\<lambda>s. seg_name s = Some (ascii ''__TEXT'')) (List.map_filter segment_of cs) of
             None \<Rightarrow> None
           | Some tx \<Rightarrow>
               (if fileoff tx \<le> vmaddr tx \<and> unat (vmaddr tx - fileoff tx) + unat off < 2 ^ 64
                then Some (vmaddr tx - fileoff tx + off) else None)))"

definition decode_macho :: "bytes \<Rightarrow> mach_o option" where
  "decode_macho bs =
     (if 32 \<le> length bs \<and> rd32 bs 0 = 0xFEEDFACF \<and> 32 + rd32 bs 20 \<le> length bs
      then (case decode_commands (rd32 bs 16) 32 bs of
          None \<Rightarrow> None
        | Some cs \<Rightarrow>
            if sum_list (map command_size cs) = rd32 bs 20 then
              map_option (\<lambda>e. \<lparr>segments = List.map_filter segment_of cs,
                  load_commands = map to_load_command cs, entry = e\<rparr>) (entry_address cs)
            else None)
      else None)"

definition conforming :: "macho_parser \<Rightarrow> bool" where
  "conforming mp \<longleftrightarrow> (\<forall>bs m. decode_macho bs = Some m \<longrightarrow> mp bs = Ok m)"

text \<open>A conforming parser, for the witnesses: the format itself.\<close>

definition format_parser :: macho_parser where
  "format_parser bs = ok_or (decode_macho bs) ()"

lemma conformingD: "conforming mp \<Longrightarrow> decode_macho bs = Some m \<Longrightarrow> mp bs = Ok m"
  by (simp add: conforming_def)

lemma conforming_format_parser: "conforming format_parser"
  by (simp add: conforming_def format_parser_def)

section \<open>Reading bytes of a file\<close>

lemma sub_bytes_take_drop: "off + n \<le> length bs \<Longrightarrow> sub_bytes bs off n = take n (drop off bs)"
  unfolding sub_bytes_def by (rule nth_equalityI) simp_all

lemma rd32_sub: "rd32 bs off = le_val (sub_bytes bs off 4)"
  by (simp add: rd32_def sub_bytes_def)

lemma rd64_sub: "rd64 bs off = le_val (sub_bytes bs off 8)"
  by (simp add: rd64_def sub_bytes_def)

end
