(* ===== verification/Test_Program.thy ===== *)
theory Test_Program
  imports Macho_Format
begin

text \<open>
  The user program built into the kernel: \<open>make_test_macho\<close> of \<open>kernel/src/main.rs\<close>, byte by
  byte, and its reading by the Mach-O format.
\<close>

section \<open>The built-in user program\<close>

text \<open>The assignments \<open>buf[i] = v\<close> of \<open>make_test_macho\<close>, in order.\<close>

definition test_macho_writes :: "(nat \<times> u8) list" where
  "test_macho_writes =
     [(0, 0xCF), (1, 0xFA), (2, 0xED), (3, 0xFE), (4, 0x0C), (5, 0x00), (6, 0x00), (7, 0x01),
      (12, 0x02), (16, 0x02), (20, 0x60), (32, 0x19), (36, 0x48), (40, 0x5F), (41, 0x5F), (42, 0x54),
      (43, 0x45), (44, 0x58), (45, 0x54), (56, 0x00), (57, 0x00), (58, 0x00), (59, 0x00), (60, 0x01),
      (61, 0x00), (62, 0x00), (63, 0x00), (64, 0x00), (65, 0x10), (72, 0x00), (73, 0x10), (80, 0x30),
      (88, 0x05), (92, 0x05), (104, 0x28), (105, 0x00), (106, 0x00), (107, 0x80), (108, 0x18),
      (112, 0x00), (113, 0x10), (0x1000, 0x01), (0x1001, 0x01), (0x1002, 0x00), (0x1003, 0x10),
      (0x1004, 0x20), (0x1005, 0x00), (0x1006, 0x80), (0x1007, 0xD2), (0x1008, 0x02), (0x1009, 0x02),
      (0x100A, 0x80), (0x100B, 0xD2), (0x100C, 0x90), (0x100D, 0x00), (0x100E, 0x80), (0x100F, 0xD2),
      (0x1010, 0x01), (0x1011, 0x10), (0x1012, 0x00), (0x1013, 0xD4), (0x1014, 0x40), (0x1015, 0x05),
      (0x1016, 0x80), (0x1017, 0xD2), (0x1018, 0x30), (0x1019, 0x00), (0x101A, 0x80), (0x101B, 0xD2),
      (0x101C, 0x01), (0x101D, 0x10), (0x101E, 0x00), (0x101F, 0xD4), (0x1020, 0x48), (0x1021, 0x65),
      (0x1022, 0x6C), (0x1023, 0x6C), (0x1024, 0x6F), (0x1025, 0x20), (0x1026, 0x66), (0x1027, 0x72),
      (0x1028, 0x6F), (0x1029, 0x6D), (0x102A, 0x20), (0x102B, 0x45), (0x102C, 0x4C), (0x102D, 0x30),
      (0x102E, 0x21), (0x102F, 0x0A)]"

definition make_test_macho :: bytes where
  "make_test_macho = fold (\<lambda>(i, v) buf. buf[i := v]) test_macho_writes (replicate 0x1030 0)"

section \<open>The program file\<close>

lemma fold_updates_nth:
  assumes "distinct (map fst ws)" "i < length b"
  shows "fold (\<lambda>(i, v) buf. buf[i := v]) ws b ! i = (case map_of ws i of Some v \<Rightarrow> v | None \<Rightarrow> b ! i)"
  using assms
proof (induction ws arbitrary: b)
  case Nil
  then show ?case by simp
next
  case (Cons w ws)
  obtain j v where w: "w = (j, v)" by force
  have "map_of ws i = None" if "i = j" using Cons.prems(1) that by (simp add: w map_of_eq_None_iff)
  with Cons show ?case by (cases "i = j") (simp_all add: w split: option.splits)
qed

lemma length_fold_updates: "length (fold (\<lambda>(i, v) buf. buf[i := v]) ws b) = length b"
  by (induction ws arbitrary: b) (simp_all add: case_prod_beta)

lemma test_macho_nth:
  assumes "i < 0x1030"
  shows "make_test_macho ! i = (case map_of test_macho_writes i of Some v \<Rightarrow> v | None \<Rightarrow> 0)"
proof -
  have "distinct (map fst test_macho_writes)" by (simp add: test_macho_writes_def)
  from fold_updates_nth [OF this, of i "replicate 0x1030 0"] assms show ?thesis
    unfolding make_test_macho_def by (simp only: length_replicate nth_replicate)
qed

lemma length_test_macho: "length make_test_macho = 0x1030"
  unfolding make_test_macho_def by (simp only: length_fold_updates length_replicate)

text \<open>The program: eight instructions and the message.\<close>

definition test_code :: bytes where
  "test_code =
     [0x01, 0x01, 0x00, 0x10, 0x20, 0x00, 0x80, 0xD2, 0x02, 0x02, 0x80, 0xD2, 0x90, 0x00, 0x80, 0xD2,
      0x01, 0x10, 0x00, 0xD4, 0x40, 0x05, 0x80, 0xD2, 0x30, 0x00, 0x80, 0xD2, 0x01, 0x10, 0x00, 0xD4]
     @ ascii (''Hello from EL0!'' @ [CHR 0x0A])"

definition test_image :: mach_o where
  "test_image =
     \<lparr>segments = [\<lparr>seg_name = Some (ascii ''__TEXT''), vmaddr = 0x100000000, vmsize = 0x1000,
        fileoff = 0x1000, filesize = 48, seg_data = test_code\<rparr>],
      load_commands = [\<lparr>lc_cmd = LC_SEGMENT_64, lc_variant = OtherCommand\<rparr>,
        \<lparr>lc_cmd = LC_MAIN, lc_variant = MainCommand 0x1000\<rparr>],
      entry = 0x100000000\<rparr>"

lemmas read_test = test_macho_nth test_macho_writes_def length_test_macho

lemma upt_4_8_16: "[0..<4] = [0, 1, 2, 3]" "[0..<8] = [0, 1, 2, 3, 4, 5, 6, 7]"
  "[0..<16] = [0, 1, 2, 3, 4, 5, 6, 7, 8, 9, 10, 11, 12, 13, 14, 15]"
  by (simp_all add: upt_rec)

lemma test_header:
  "rd32 make_test_macho 0 = 0xFEEDFACF" "rd32 make_test_macho 16 = 2" "rd32 make_test_macho 20 = 96"
  by (simp_all add: rd32_def upt_4_8_16 read_test)

lemma test_commands:
  "rd32 make_test_macho 32 = 0x19" "rd32 make_test_macho 36 = 72" "rd32 make_test_macho 96 = 0"
  "rd64 make_test_macho 56 = 0x100000000" "rd64 make_test_macho 64 = 0x1000"
  "rd64 make_test_macho 72 = 0x1000" "rd64 make_test_macho 80 = 48"
  "rd32 make_test_macho 104 = 0x80000028" "rd32 make_test_macho 108 = 24"
  "rd64 make_test_macho 112 = 0x1000"
  "c_name (sub_bytes make_test_macho 40 16) = ascii ''__TEXT''"
  by (simp_all add: rd32_def rd64_def sub_bytes_def c_name_def upt_4_8_16 read_test ascii_def)

lemma test_body: "sub_bytes make_test_macho 0x1000 48 = test_code"
proof -
  have "[0..<48] = [0..<16] @ map ((+) 16) [0..<16] @ map ((+) 32) [0..<16 :: nat]"
    by (simp add: upt_rec)
  then show ?thesis
    by (simp add: sub_bytes_def upt_4_8_16 read_test test_code_def ascii_def)
qed

lemma test_macho_decodes: "decode_macho make_test_macho = Some test_image"
proof -
  have "decode_segment make_test_macho 32 = Some (SegmentCommand (hd (segments test_image)))"
    by (simp add: decode_segment_def test_commands length_test_macho test_body test_image_def
        utf8_valid_ascii ascii_def)
  then have "decode_commands 2 32 make_test_macho =
      Some [SegmentCommand (hd (segments test_image)), EntryCommand 0x1000]"
    by (simp add: numeral_2_eq_2 test_commands)
  then show ?thesis
    by (simp add: decode_macho_def test_header length_test_macho entry_address_def)
      (simp add: test_image_def)
qed

text \<open>The built-in user program is a well-formed executable: read by the Mach-O format, the 4144 bytes
  that \<open>make_test_macho\<close> fills in are one \<open>__TEXT\<close> segment at \<open>0x100000000\<close> holding the eight
  instructions and the message, with the entry point at its first instruction.\<close>

theorem test_program_well_formed: "decode_macho make_test_macho = Some test_image"
  by (rule test_macho_decodes)

end
