(* ===== verification/Kernel_Main.thy ===== *)
theory Kernel_Main
  imports Exec_Loader Test_Program Boot_El Adt_Roundtrip
begin

text \<open>
  The kernel entry: \<open>kernel/src/main.rs\<close> and the out-of-memory handler of
  \<open>kernel/src/lib.rs\<close>. \<open>start\<close> is \<open>_start\<close>: leave EL2, remember and validate the boot
  arguments, print the device tree, compute the load address and start the
  built-in user program. What \<open>&*boot_args\<close> reads is the parameter \<open>args_at\<close>; \<open>lbl\<close> is the address
  of the label after the exception return. A panic of any part ends in the
  panic handler.
\<close>

section \<open>Start-up\<close>

definition BOOT_ARGS_REVISION2 :: u16 where "BOOT_ARGS_REVISION2 = 2"
definition BOOT_ARGS_VERSION2 :: u16 where "BOOT_ARGS_VERSION2 = 2"

record kernel =
  ks :: kstate
  el :: el_state
  BOOT_ARGS_PTR :: u64

definition kernel_panic :: "'a kern" where
  "kernel_panic s =
     (Err Spinning, s\<lparr>k_log := write_str (ascii (''xnu-rs: kernel panic'' @ [CHR 0x0A])) (k_log s)\<rparr>)"

definition on_panic :: "'a kern \<Rightarrow> 'a kern" where
  "on_panic m s = (case m s of (Panic, s') \<Rightarrow> kernel_panic s' | (r, s') \<Rightarrow> (r, s'))"

definition handle_alloc_error :: "'a kern" where
  "handle_alloc_error s =
     (Err Spinning, s\<lparr>k_log := write_str (ascii (''xnu-rs: out of memory'' @ [CHR 0x0A])) (k_log s)\<rparr>)"

definition align_up_2m :: "u64 \<Rightarrow> (u64, stop) res" where
  "align_up_2m v =
     (let ALIGN = 2 * 1024 * 1024 in
      and_then (add_panic v ALIGN) (\<lambda>w. and_then (sub_panic w 1) (\<lambda>x. Ok (x AND NOT (ALIGN - 1)))))"

definition k_dump :: "bytes \<Rightarrow> unit kern" where
  "k_dump bs s =
     (let (log', r) = dump bs (k_log s) in
      (case r of Ok _ \<Rightarrow> Ok () | Err _ \<Rightarrow> Ok () | Panic \<Rightarrow> Panic | Diverge \<Rightarrow> Diverge, s\<lparr>k_log := log'\<rparr>))"

definition dump_apple_device_tree :: "boot_args \<Rightarrow> unit kern" where
  "dump_apple_device_tree args s =
     (if device_tree_p args = 0 \<or> device_tree_length args < 8 then (Ok (), s)
      else k_dump (mem_slice (k_mem s) (device_tree_p args) (unat (device_tree_length args))) s)"

definition print_boot_args :: "boot_args \<Rightarrow> mmio_log \<Rightarrow> mmio_log" where
  "print_boot_args args log =
     write_str (ascii [CHR 0x0A]) (write_hex_u64 (top_of_kernel_data args)
     (write_str (ascii '' top_of_kernel_data=0x'') (write_hex_u64 (mem_size args)
     (write_str (ascii '' mem_size=0x'') (write_hex_u64 (phys_base args)
     (write_str (ascii '' phys_base=0x'') (write_hex_u64 (ucast (version args))
     (write_str (ascii '' version='') (write_hex_u64 (ucast (revision args))
     (write_str (ascii ''xnu-rs: revision='') log))))))))))"

definition validate_boot_args :: "(u64 \<Rightarrow> boot_args) \<Rightarrow> u64 \<Rightarrow> boot_args option kern" where
  "validate_boot_args args_at boot_args =
     (if boot_args = 0 then
        k_then (k_print (write_str (ascii (''xnu-rs: boot_args=NULL'' @ [CHR 0x0A])))) (\<lambda>_. k_res (Ok None))
      else
        let args = args_at boot_args in
        k_then (k_print (print_boot_args args)) (\<lambda>_.
        if revision args \<noteq> BOOT_ARGS_REVISION2 \<or> version args \<noteq> BOOT_ARGS_VERSION2 then
          k_then (k_print (write_str (ascii (''xnu-rs: unsupported boot_args revision/version'' @ [CHR 0x0A]))))
            (\<lambda>_. k_res (Ok None))
        else k_then (dump_apple_device_tree args) (\<lambda>_. k_res (Ok (Some args)))))"

definition start_load_base :: "boot_args option \<Rightarrow> (u64, stop) res" where
  "start_load_base args =
     (case args of
        None \<Rightarrow> align_up_2m (0x40000000 + 64 * 1024 * 1024)
      | Some a \<Rightarrow> align_up_2m (top_of_kernel_data a))"

definition start_body :: "macho_parser \<Rightarrow> (u64 \<Rightarrow> boot_args) \<Rightarrow> u64 \<Rightarrow> trap_frame kern" where
  "start_body mp args_at boot_args =
     k_then (k_print (write_str (ascii (''xnu-rs: entered kernel _start'' @ [CHR 0x0A])))) (\<lambda>_.
     k_then (validate_boot_args args_at boot_args) (\<lambda>args.
     k_then (k_res (start_load_base args)) (\<lambda>load_base.
     k_then (k_print (write_str (ascii ''xnu-rs: launching test user binary at load_base=0x''))) (\<lambda>_.
     k_then (k_print (write_hex_u64 load_base)) (\<lambda>_.
     k_then (k_print (write_str (ascii [CHR 0x0A]))) (\<lambda>_.
     load_and_run mp make_test_macho load_base))))))"

definition start ::
  "macho_parser \<Rightarrow> (u64 \<Rightarrow> boot_args) \<Rightarrow> u64 \<Rightarrow> u64 \<Rightarrow> kernel \<Rightarrow> (trap_frame, stop) res \<times> kernel" where
  "start mp args_at lbl boot_args k =
     (let k = k\<lparr>el := drop_to_el1_if_needed lbl (el k)\<rparr>;
          k = k\<lparr>BOOT_ARGS_PTR := boot_args\<rparr>;
          (r, s) = on_panic (start_body mp args_at boot_args) (ks k)
      in (r, k\<lparr>ks := s\<rparr>))"

section \<open>The load address\<close>

lemma align_up_2m_formula:
  "res_ok (align_up_2m v) =
     (if unat v + (2 ^ 21 - 1) < 2 ^ 64 - 1 then Some ((v + (2 ^ 21 - 1)) AND NOT (2 ^ 21 - 1)) else None)"
  by (simp add: align_up_2m_def add_panic_def sub_panic_def checked_add_def
      checked_sub_def word_le_nat_alt unat_add_nowrap Let_def) (simp add: add.commute)

interpretation base_up: aligner "on_u64 (\<lambda>v. res_ok (align_up_2m v))" "2 ^ 21" "2 ^ 64 - 1"
  by (rule u64_aligner [OF _ _ align_up_2m_formula]) simp_all

lemma align_up_2m_ok:
  assumes "unat v + 0x200000 < 2 ^ 64"
  obtains r where "align_up_2m v = Ok r" "0x200000 dvd unat r" "unat v \<le> unat r" "unat r < unat v + 0x200000"
proof -
  obtain n where n: "on_u64 (\<lambda>v. res_ok (align_up_2m v)) (unat v) = Some n"
    using base_up.up_total [of "unat v"] assms by auto
  then obtain r where r: "align_up_2m v = Ok r" "n = unat r"
    unfolding on_u64_unat by (cases "align_up_2m v") auto
  from base_up.up_sound [OF n] that [OF r(1)] show thesis by (simp add: r(2))
qed

section \<open>Running \<open>_start\<close>\<close>

lemma k_dump_run: "k_dump bs s = (Ok (), s\<lparr>k_log := fst (dump bs (k_log s))\<rparr>)"
proof -
  have "returns (snd (dump bs (k_log s)))"
    using returns_dump_node [of bs 0 "write_str (ascii (''xnu-rs: Apple device tree'' @ [CHR 0x0A])) (k_log s)"]
    by (auto simp: dump_def AppleDeviceTree_new_def returns_iff split: prod.splits res.splits)
  then show ?thesis by (auto simp: k_dump_def split: prod.splits res.splits)
qed

text \<open>What start-up prints before it launches the program, and the arguments it accepts.\<close>

definition accepted_args :: "(u64 \<Rightarrow> boot_args) \<Rightarrow> u64 \<Rightarrow> boot_args option" where
  "accepted_args args_at p =
     (if p \<noteq> 0 \<and> revision (args_at p) = 2 \<and> version (args_at p) = 2 then Some (args_at p) else None)"

definition args_log :: "(u64 \<Rightarrow> boot_args) \<Rightarrow> u64 \<Rightarrow> memory \<Rightarrow> mmio_log \<Rightarrow> mmio_log" where
  "args_log args_at p m log =
     (let a = args_at p in
      if p = 0 then write_str (ascii (''xnu-rs: boot_args=NULL'' @ [CHR 0x0A])) log
      else if revision a \<noteq> 2 \<or> version a \<noteq> 2 then
        write_str (ascii (''xnu-rs: unsupported boot_args revision/version'' @ [CHR 0x0A])) (print_boot_args a log)
      else if device_tree_p a = 0 \<or> device_tree_length a < 8 then print_boot_args a log
      else fst (dump (mem_slice m (device_tree_p a) (unat (device_tree_length a))) (print_boot_args a log)))"

lemma validate_run:
  "validate_boot_args args_at p s = (Ok (accepted_args args_at p), s\<lparr>k_log := args_log args_at p (k_mem s) (k_log s)\<rparr>)"
  by (auto simp: validate_boot_args_def accepted_args_def args_log_def Let_def BOOT_ARGS_REVISION2_def
      BOOT_ARGS_VERSION2_def dump_apple_device_tree_def k_then_step [where m = "dump_apple_device_tree _"] k_dump_run k_res_def)

lemma test_image_parts:
  "present (segments test_image) = segments test_image"
  "link_base_of test_image = 0x100000000"
  "find_entry (segments test_image) (load_commands test_image) = Ok (Some 0x100000000)"
  "image_span (user_img test_image 0x100000000) = 0x1000"
  by (simp_all add: test_image_def present_def link_base_of_def LC_SEGMENT_64_def LC_MAIN_def text_segment_def
      saturating_sub_def add_panic_def checked_add_def image_span_def user_img_def saturating_add_def to_exec_def)

lemma length_test_code: "length test_code = 48"
  by (simp add: test_code_def)

lemma test_placeable: "unat lb + 0x12000 < 2 ^ 64 \<Longrightarrow> placeable (user_img test_image 0x100000000) lb"
  by (simp add: placeable_def test_image_parts) (simp add: test_image_def)

text \<open>Launching the built-in program at a page-aligned address.\<close>

lemma test_program_launched:
  assumes "conforming mp" "unat lb + 0x12000 < 2 ^ 64" "4096 dvd unat lb"
  obtains s' where
    "load_and_run mp make_test_macho lb s = (Ok (TrapFrame_new_user lb (lb + 0x11000)), s')"
    "mem_slice (k_mem s') lb 0x1000 = test_code @ replicate (0x1000 - 48) 0"
    "{x. k_mem s' x \<noteq> k_mem s x} \<subseteq> region lb 0x1000"
    "k_log s' = launch_log (user_img test_image 0x100000000) lb lb (lb + 0x11000) (k_log s)"
proof -
  have mp: "mp make_test_macho = Ok test_image"
    using conformingD [OF assms(1) test_macho_decodes] .
  obtain sb s' where r: "load_and_run mp make_test_macho lb s =
      (Ok (TrapFrame_new_user (lb + (0x100000000 - 0x100000000)) (sb + USER_STACK_SIZE)), s')"
    and m: "list_all (\<lambda>sg. mem_slice (k_mem s') (lb + (vmaddr sg - 0x100000000)) (unat (vmsize sg)) =
        take (unat (vmsize sg)) (seg_data sg) @ replicate (unat (vmsize sg) - length (seg_data sg)) 0)
       (present (segments test_image))"
    and o: "{x. k_mem s' x \<noteq> k_mem s x} \<subseteq> region lb (unat (0x1000 :: u64))"
    and l: "k_log s' = launch_log (user_img test_image 0x100000000) lb (lb + (0x100000000 - 0x100000000))
      (sb + USER_STACK_SIZE) (k_log s)"
    and sb: "4096 dvd unat sb" "unat lb + unat (0x1000 :: u64) \<le> unat sb"
      "unat sb < unat lb + unat (0x1000 :: u64) + 4096"
    using user_program_placed [of mp make_test_macho, OF mp test_image_parts(3) test_placeable [OF assms(2)], of s]
    unfolding test_image_parts(2,4) by blast
  have "unat sb = unat lb + 0x1000"
  proof -
    have "4096 dvd unat sb - (unat lb + 4096)" using sb(1) assms(3) by (simp add: dvd_diff_nat)
    with sb(2,3) show ?thesis by (auto dest!: dvd_imp_le)
  qed
  then have "unat sb = unat (lb + 0x1000)" using assms(2) by (simp add: unat_add_nowrap)
  then have "sb = lb + 0x1000" by (simp add: word_unat_eq_iff)
  then have sb': "sb + USER_STACK_SIZE = lb + 0x11000" by (simp add: USER_STACK_SIZE_def add.commute)
  have "mem_slice (k_mem s') lb 0x1000 = test_code @ replicate (0x1000 - 48) 0"
    using m by (simp add: test_image_parts(1)) (simp add: test_image_def length_test_code)
  with r o l show thesis by (intro that) (simp_all add: sb')
qed

text \<open>Where the program goes: past the kernel's data, or at a fixed address without usable arguments.\<close>

definition boot_target :: "boot_args option \<Rightarrow> u64" where
  "boot_target args = (case args of None \<Rightarrow> 0x44000000 | Some a \<Rightarrow> top_of_kernel_data a)"

lemma start_load_base_eq: "start_load_base args = align_up_2m (boot_target args)"
  by (simp add: start_load_base_def boot_target_def split: option.splits)

lemma dvd_2m_page: "0x200000 dvd n \<Longrightarrow> (4096 :: nat) dvd n"
  using dvd_trans [of 4096 "0x200000 :: nat" n] by simp

definition entry_log :: "mmio_log \<Rightarrow> mmio_log" where
  "entry_log log = write_str (ascii (''xnu-rs: entered kernel _start'' @ [CHR 0x0A])) log"

definition banner_log :: "u64 \<Rightarrow> mmio_log \<Rightarrow> mmio_log" where
  "banner_log load_base log = write_str (ascii [CHR 0x0A]) (write_hex_u64 load_base
     (write_str (ascii ''xnu-rs: launching test user binary at load_base=0x'') log))"

lemma start_run:
  assumes "conforming mp" "unat (boot_target (accepted_args args_at p)) + 0x300000 < 2 ^ 64"
  shows "\<exists>lb k'. start mp args_at lbl p k = (Ok (TrapFrame_new_user lb (lb + 0x11000)), k') \<and>
     0x200000 dvd unat lb \<and> unat (boot_target (accepted_args args_at p)) \<le> unat lb \<and>
     unat lb < unat (boot_target (accepted_args args_at p)) + 0x200000 \<and>
     mem_slice (k_mem (ks k')) lb 0x1000 = test_code @ replicate (0x1000 - 48) 0 \<and>
     {x. k_mem (ks k') x \<noteq> k_mem (ks k) x} \<subseteq> region lb 0x1000 \<and>
     el k' = drop_to_el1_if_needed lbl (el k) \<and> BOOT_ARGS_PTR k' = p \<and>
     k_log (ks k') = launch_log (user_img test_image 0x100000000) lb lb (lb + 0x11000)
       (banner_log lb (args_log args_at p (k_mem (ks k)) (entry_log (k_log (ks k)))))"
proof -
  let ?t = "boot_target (accepted_args args_at p)"
  obtain lb where lb: "align_up_2m ?t = Ok lb" "0x200000 dvd unat lb" "unat ?t \<le> unat lb"
    "unat lb < unat ?t + 0x200000"
    using align_up_2m_ok [of ?t] assms(2) by auto
  define s1 where
    "s1 = (ks k)\<lparr>k_log := banner_log lb (args_log args_at p (k_mem (ks k)) (entry_log (k_log (ks k))))\<rparr>"
  have body: "start_body mp args_at p (ks k) = load_and_run mp make_test_macho lb s1"
    by (simp add: start_body_def k_then_step [OF validate_run] start_load_base_eq lb(1) s1_def entry_log_def
        banner_log_def)
  have fits: "unat lb + 0x12000 < 2 ^ 64" using lb(4) assms(2) by simp
  obtain s' where s': "load_and_run mp make_test_macho lb s1 = (Ok (TrapFrame_new_user lb (lb + 0x11000)), s')"
    "mem_slice (k_mem s') lb 0x1000 = test_code @ replicate (0x1000 - 48) 0"
    "{x. k_mem s' x \<noteq> k_mem s1 x} \<subseteq> region lb 0x1000"
    "k_log s' = launch_log (user_img test_image 0x100000000) lb lb (lb + 0x11000) (k_log s1)"
    by (rule test_program_launched [OF assms(1) fits dvd_2m_page [OF lb(2)]])
  have s1: "k_mem s1 = k_mem (ks k)"
    "k_log s1 = banner_log lb (args_log args_at p (k_mem (ks k)) (entry_log (k_log (ks k))))"
    by (simp_all add: s1_def)
  have "start mp args_at lbl p k = (Ok (TrapFrame_new_user lb (lb + 0x11000)),
      k\<lparr>el := drop_to_el1_if_needed lbl (el k), BOOT_ARGS_PTR := p, ks := s'\<rparr>)"
    by (simp add: start_def on_panic_def body s'(1) Let_def)
  with lb(2-4) s'(2-4) show ?thesis
    unfolding s1 by (intro exI [of _ lb]) simp
qed

text \<open>C18: the kernel starts the built-in user program. Whatever the boot-argument pointer, with arguments that
  are missing, of an unknown version or good, as long as the end of the kernel's data they give leaves 3 MiB below the top
  of the address space (otherwise the rounding or the program's stack does not fit, and for the last 2 MiB the
  kernel panics, see below), \<open>_start\<close> ends by entering user mode at the first
  instruction of the program, which has been copied to the first 2 MiB boundary at or above the
  end of the kernel's data (above 64 MiB of RAM when there are no usable arguments), with its
  64 KiB stack right behind it. Nothing but that page of memory has changed, the processor has left EL2,
  and the console shows the argument report, the device tree and the load report.\<close>

theorem kernel_starts_user:
  assumes "conforming mp" "unat (boot_target (accepted_args args_at p)) + 0x300000 < 2 ^ 64"
  shows "\<exists>lb k'. start mp args_at lbl p k = (Ok (TrapFrame_new_user lb (lb + 0x11000)), k') \<and>
     0x200000 dvd unat lb \<and> unat (boot_target (accepted_args args_at p)) \<le> unat lb \<and>
     unat lb < unat (boot_target (accepted_args args_at p)) + 0x200000 \<and>
     mem_slice (k_mem (ks k')) lb 0x1000 = test_code @ replicate (0x1000 - 48) 0 \<and>
     {x. k_mem (ks k') x \<noteq> k_mem (ks k) x} \<subseteq> region lb 0x1000 \<and>
     el k' = drop_to_el1_if_needed lbl (el k) \<and> BOOT_ARGS_PTR k' = p \<and>
     k_log (ks k') = launch_log (user_img test_image 0x100000000) lb lb (lb + 0x11000)
       (banner_log lb (args_log args_at p (k_mem (ks k)) (entry_log (k_log (ks k)))))"
  using assms by (rule start_run)

definition sample_el :: el_state where
  "sample_el = \<lparr>CurrentEL = 8, cpu_sp = 0x40310000, cpu_pc = 0x1000, cpu_pstate = 0x3C9, cpu_il = False,
     hcr_el2 = 0x08000000, sp_el1 = 0, spsr_el2 = 0, elr_el2 = 0, el_x0 = 0, el_x1 = 0\<rparr>"

theorem kernel_starts_user_witness:
  "\<exists>lb k'. start format_parser (\<lambda>_. BootArgs_zeroed) 0x2000 0
       \<lparr>ks = sample_kstate, el = sample_el, BOOT_ARGS_PTR = 0\<rparr> = (Ok (TrapFrame_new_user lb (lb + 0x11000)), k') \<and>
     0x200000 dvd unat lb \<and> drop_bit 2 (CurrentEL (el k')) = 1"
proof -
  let ?k = "\<lparr>ks = sample_kstate, el = sample_el, BOOT_ARGS_PTR = 0\<rparr>"
  have "unat (boot_target (accepted_args (\<lambda>_. BootArgs_zeroed) 0)) + 0x300000 < 2 ^ 64"
    by (simp add: accepted_args_def boot_target_def)
  from kernel_starts_user [of format_parser "\<lambda>_. BootArgs_zeroed" 0 "0x2000" ?k, OF conforming_format_parser this] obtain lb k' where
    "start format_parser (\<lambda>_. BootArgs_zeroed) 0x2000 0 ?k = (Ok (TrapFrame_new_user lb (lb + 0x11000)), k')"
    "0x200000 dvd unat lb" "el k' = drop_to_el1_if_needed 0x2000 (el ?k)" by blast
  then show ?thesis
    by (intro exI [of _ lb] exI [of _ k'])
      (simp add: sample_el_def drop_to_el1_if_needed_def el2_to_el1_def eret_el2_def Let_def)
qed

text \<open>A start-up whose load address does not fit panics before anything is written: when the kernel
  end lies in the last 2 MiB of the address space the panic message is printed and the kernel stops.\<close>

theorem start_panics_at_top:
  assumes "p \<noteq> 0" "revision (args_at p) = 2" "version (args_at p) = 2"
    and "2 ^ 64 \<le> unat (top_of_kernel_data (args_at p)) + 0x200000"
  shows "\<exists>k'. start mp args_at lbl p k = (Err Spinning, k') \<and> k_mem (ks k') = k_mem (ks k) \<and>
     (\<exists>pre. uart_text (k_log (ks k')) = pre @ ascii (''xnu-rs: kernel panic'' @ [CHR 0x0A]))"
proof -
  have "align_up_2m (boot_target (accepted_args args_at p)) = Panic"
    using assms by (simp add: accepted_args_def boot_target_def align_up_2m_def add_panic_def checked_add_def)
  then have "start_body mp args_at p (ks k) =
      (Panic, (ks k)\<lparr>k_log := args_log args_at p (k_mem (ks k)) (entry_log (k_log (ks k)))\<rparr>)"
    by (simp add: start_body_def k_then_step [OF validate_run] start_load_base_eq entry_log_def)
  then show ?thesis
    by (simp add: start_def on_panic_def kernel_panic_def Let_def)
qed

definition top_args :: boot_args where
  "top_args = BootArgs_zeroed\<lparr>top_of_kernel_data := - 4096\<rparr>"

theorem start_panics_at_top_witness:
  "\<exists>k'. start format_parser (\<lambda>_. top_args) 0x2000 0x40200000
       \<lparr>ks = sample_kstate, el = sample_el, BOOT_ARGS_PTR = 0\<rparr> = (Err Spinning, k') \<and>
     k_mem (ks k') 0 = 0xFF"
proof -
  have "\<exists>k'. start format_parser (\<lambda>_. top_args) 0x2000 0x40200000
       \<lparr>ks = sample_kstate, el = sample_el, BOOT_ARGS_PTR = 0\<rparr> = (Err Spinning, k') \<and>
     k_mem (ks k') = k_mem (ks \<lparr>ks = sample_kstate, el = sample_el, BOOT_ARGS_PTR = 0\<rparr>) \<and>
     (\<exists>pre. uart_text (k_log (ks k')) = pre @ ascii (''xnu-rs: kernel panic'' @ [CHR 0x0A]))"
    by (rule start_panics_at_top)
      (simp_all add: top_args_def BootArgs_zeroed_def KBOOT_ARGS_REVISION2_def KBOOT_ARGS_VERSION2_def)
  then show ?thesis by (auto simp: sample_kstate_def)
qed

end
