(* ===== verification/User_Run.thy ===== *)
theory User_Run
  imports Kernel_Main
begin

text \<open>
  The built-in user program running at EL0. The four kinds of instruction it uses
  (\<open>ADR\<close>, \<open>MOVZ\<close>, \<open>SVC\<close>; everything else is undefined) are decoded and executed
  as the AArch64 manual defines them; a supervisor call goes through the
  kernel's vector table. The compiled handlers are the parameter \<open>call\<close>, as in
  the theory of the vectors; \<open>confined\<close> adds that they write no memory outside the kernel's stack.
\<close>

section \<open>User-mode instructions\<close>

datatype a64 = Adr nat u64 | Movz nat u64 | Svc u64 | Undefined

definition decode_a64 :: "u32 \<Rightarrow> a64" where
  "decode_a64 w =
     (let rd = unat (take_bit 5 w) in
      if drop_bit 24 w AND 0x9F = 0x10 then
        let imm = 4 * ucast (take_bit 19 (drop_bit 5 w)) + ucast (take_bit 2 (drop_bit 29 w)) :: u64
        in Adr rd (if bit imm 20 then imm - 2 ^ 21 else imm)
      else if drop_bit 23 w = 0x1A5 then
        Movz rd (push_bit (16 * unat (take_bit 2 (drop_bit 21 w))) (ucast (take_bit 16 (drop_bit 5 w))))
      else if w AND 0xFFE0001F = 0xD4000001 then Svc (ucast (take_bit 16 (drop_bit 5 w)))
      else Undefined)"

definition fetch :: "memory \<Rightarrow> u64 \<Rightarrow> u32" where
  "fetch m pc = word_of_nat (le_val (mem_slice m pc 4))"

text \<open>Register 31 is the zero register here.\<close>

definition set_reg :: "nat \<Rightarrow> u64 \<Rightarrow> cpu \<Rightarrow> cpu" where
  "set_reg rd v c = (if rd = 31 then c else c\<lparr>gpr := (gpr c)(rd := v)\<rparr>)"

definition step_pc :: "cpu \<Rightarrow> cpu" where
  "step_pc c = c\<lparr>cur_pc := cur_pc c + 4\<rparr>"

definition user_step :: "(handler \<Rightarrow> cpu \<Rightarrow> outcome) \<Rightarrow> cpu \<Rightarrow> outcome" where
  "user_step call c =
     (case decode_a64 (fetch (ram c) (cur_pc c)) of
        Adr rd imm \<Rightarrow> Running (step_pc (set_reg rd (cur_pc c + imm) c))
      | Movz rd v \<Rightarrow> Running (step_pc (set_reg rd v c))
      | Svc imm \<Rightarrow> take_trap call LowerA64 Synchronous (0x56000000 OR imm) (sysr c FAR_EL1) (step_pc c)
      | Undefined \<Rightarrow> take_trap call LowerA64 Synchronous 0x02000000 (sysr c FAR_EL1) c)"

primrec user_run :: "nat \<Rightarrow> (handler \<Rightarrow> cpu \<Rightarrow> outcome) \<Rightarrow> cpu \<Rightarrow> outcome" where
  "user_run 0 call c = Running c"
| "user_run (Suc n) call c =
     (case user_step call c of Running c' \<Rightarrow> user_run n call c' | Halted c' \<Rightarrow> Halted c')"

definition confined :: "u64 set \<Rightarrow> (handler \<Rightarrow> cpu \<Rightarrow> outcome) \<Rightarrow> bool" where
  "confined K call \<longleftrightarrow> (\<forall>h c c'. region (gpr c 0) 272 \<subseteq> K \<longrightarrow> call h c = Running c' \<longrightarrow>
     (\<forall>x. x \<notin> K \<longrightarrow> ram c' x = ram c x))"

section \<open>Traps and memory\<close>

lemma restore_frame_ram: "run call restore_frame c = Running c' \<Longrightarrow> ram c' = ram c"
  by (auto simp: restore_frame_def)

lemma trap_ram:
  assumes "confined K call" "region (sp_reg c - 272) 272 \<subseteq> K" "x \<notin> K"
    and "take_trap call LowerA64 Synchronous esr far c = Running c'"
  shows "ram c' x = ram c x"
proof -
  let ?c = "exception_entry esr far c"
  obtain c1 where c1: "run call save_frame ?c = Running c1" "sp_reg c1 = sp_reg ?c - 272"
    and m: "\<forall>x. x \<notin> region (sp_reg ?c - 272) 272 \<longrightarrow> ram c1 x = ram ?c x"
    using save_frame_run [of call ?c] by auto
  define c2 where "c2 = c1\<lparr>gpr := (gpr c1)(0 := sp_reg c1)\<rparr>"
  have "run call (save_restore_eret H_lower_el_sync) ?c =
      (case call H_lower_el_sync c2 of Running c3 \<Rightarrow> run call restore_frame c3 | Halted c3 \<Rightarrow> Halted c3)"
    by (simp add: save_restore_eret_def run_append c1(1) c2_def)
  with assms(4) obtain c3 where c3: "call H_lower_el_sync c2 = Running c3" "run call restore_frame c3 = Running c'"
    by (auto simp: take_trap_handler split: outcome.splits)
  have "region (gpr c2 0) 272 \<subseteq> K" using assms(2) by (simp add: c2_def c1(2) entry_simps)
  then have "ram c3 x = ram c2 x" using assms(1,3) c3(1) unfolding confined_def by blast
  moreover have "ram c1 x = ram c x" using m assms(2,3) by (auto simp: entry_simps)
  ultimately show ?thesis using restore_frame_ram [OF c3(2)] by (simp add: c2_def)
qed

lemma exit_trap:
  assumes "implements call" "drop_bit 26 esr AND 0x3f = 0x15" "gpr c 16 = 1"
  shows "\<exists>c'. take_trap call LowerA64 Synchronous esr far c = Halted c' \<and>
    uart_text (tty c') = uart_text (tty c) @ ascii ''xnu-rs: user exit('' @ hex_text (gpr c 0) @
      ascii ('')'' @ [CHR 0x0A])"
proof -
  obtain m1 log' fl where
    h: "exception_lower_el_sync esr far m1 (user_frame c) (tty c) = (log', fl)" and
    out: "trap_outcome (take_trap call LowerA64 Synchronous esr far c) c log' fl"
    using user_trap_run [OF assms(1), of c esr far] by auto
  have "fl = Spin" "uart_text log' = uart_text (tty c) @ ascii ''xnu-rs: user exit('' @ hex_text (gpr c 0) @
      ascii ('')'' @ [CHR 0x0A])"
    using h assms(2,3) by (auto simp: exception_lower_el_sync_def dispatch_def SYS_EXIT_def Let_def user_frame_x)
  with out show ?thesis by (auto simp: trap_outcome_def)
qed

section \<open>The program in memory\<close>

lemma mem_slice_sub:
  assumes "j + n \<le> N"
  shows "mem_slice m (a + word_of_nat j) n = take n (drop j (mem_slice m a N))"
  using assms by (intro nth_equalityI) (simp_all add: add.assoc)

lemma program_fetch:
  assumes "mem_slice m lb 48 = test_code" "4 * i + 4 \<le> 48"
  shows "fetch m (lb + word_of_nat (4 * i)) = word_of_nat (le_val (take 4 (drop (4 * i) test_code)))"
  unfolding fetch_def using assms mem_slice_sub [of "4 * i" 4 48 m lb] by simp

lemma program_words:
  assumes "mem_slice m lb 48 = test_code"
  shows "decode_a64 (fetch m lb) = Adr 1 32" "decode_a64 (fetch m (lb + 4)) = Movz 0 1"
    "decode_a64 (fetch m (8 + lb)) = Movz 2 16" "decode_a64 (fetch m (12 + lb)) = Movz 16 4"
    "decode_a64 (fetch m (16 + lb)) = Svc 0x80" "decode_a64 (fetch m (20 + lb)) = Movz 0 42"
    "decode_a64 (fetch m (24 + lb)) = Movz 16 1" "decode_a64 (fetch m (28 + lb)) = Svc 0x80"
  using program_fetch [OF assms, of 0] program_fetch [OF assms, of 1] program_fetch [OF assms, of 2]
    program_fetch [OF assms, of 3] program_fetch [OF assms, of 4] program_fetch [OF assms, of 5]
    program_fetch [OF assms, of 6] program_fetch [OF assms, of 7]
  by (simp_all add: test_code_def decode_a64_def Let_def add.commute [of _ lb])

lemma program_message:
  assumes "mem_slice m lb 48 = test_code"
  shows "mem_slice m (lb + 32) 16 = ascii (''Hello from EL0!'' @ [CHR 0x0A])"
  using assms mem_slice_sub [of 32 16 48 m lb] by (simp add: test_code_def)

lemma mem_slice_cong:
  assumes "\<And>x. x \<in> region a n \<Longrightarrow> m' x = m x" "n \<le> 2 ^ 64"
  shows "mem_slice m' a n = mem_slice m a n"
  using assms by (intro nth_equalityI) (simp_all add: region_offset)

lemma user_step_plain:
  assumes "decode_a64 (fetch (ram c) (cur_pc c)) = Movz rd v" "rd \<noteq> 31"
  shows "user_step call c = Running (c\<lparr>gpr := (gpr c)(rd := v), cur_pc := cur_pc c + 4\<rparr>)"
  using assms by (simp add: user_step_def set_reg_def step_pc_def)

lemma user_step_adr:
  assumes "decode_a64 (fetch (ram c) (cur_pc c)) = Adr rd v" "rd \<noteq> 31"
  shows "user_step call c = Running (c\<lparr>gpr := (gpr c)(rd := cur_pc c + v), cur_pc := cur_pc c + 4\<rparr>)"
  using assms by (simp add: user_step_def set_reg_def step_pc_def)

lemma user_run_numeral:
  "user_run (numeral v) call c =
     (case user_step call c of Running c' \<Rightarrow> user_run (pred_numeral v) call c' | Halted c' \<Rightarrow> Halted c')"
  by (simp add: numeral_eq_Suc)

lemma user_run_1: "user_run 1 call c = user_step call c"
  by (simp split: outcome.splits)

lemma svc_class: "drop_bit 26 (0x56000080 :: u64) AND 0x3f = 0x15"
  by (simp add: drop_bit_eq_div)

text \<open>The first half, up to the return of the \<open>write\<close> call.\<close>

lemma program_write:
  assumes "implements call" "confined K call" "region (sp_reg c - 272) 272 \<subseteq> K"
    and "K \<inter> region lb 48 = {}" "lb + 32 \<noteq> 0" "cur_pc c = lb" "mem_slice (ram c) lb 48 = test_code"
  shows "\<exists>c'. user_run 5 call c = Running c' \<and> cur_pc c' = 20 + lb \<and>
    mem_slice (ram c') lb 48 = test_code \<and>
    uart_text (tty c') = uart_text (tty c) @ ascii (''Hello from EL0!'' @ [CHR 0x0A])"
proof -
  note w = program_words [OF assms(7)]
  define c4 where "c4 = c\<lparr>gpr := (gpr c)(1 := lb + 32, 0 := 1, 2 := 16, 16 := 4), cur_pc := 16 + lb\<rparr>"
  have five: "user_run 5 call c = user_run 1 call c4"
    by (simp add: user_run_numeral user_step_adr user_step_plain w assms(6) c4_def)
  let ?t = "c4\<lparr>cur_pc := 20 + lb\<rparr>"
  have step: "user_step call c4 = take_trap call LowerA64 Synchronous 0x56000080 (sysr c4 FAR_EL1) ?t"
    by (simp add: user_step_def c4_def w step_pc_def)
  have sub: "region (lb + 32) 16 \<subseteq> region lb 48"
    using region_within [of 32 16 48 lb] by simp
  have "\<exists>c'. take_trap call LowerA64 Synchronous 0x56000080 (sysr c4 FAR_EL1) ?t = Running c' \<and> gpr c' 0 = gpr ?t 2 \<and>
      uart_text (tty c') = uart_text (tty ?t) @ mem_slice (ram ?t) (gpr ?t 1) (unat (gpr ?t 2))"
    by (rule write_trap [OF assms(1) svc_class]) (use sub assms(3-5) in \<open>auto simp: c4_def\<close>)
  then obtain c' where c': "take_trap call LowerA64 Synchronous 0x56000080 (sysr c4 FAR_EL1) ?t = Running c'"
    "uart_text (tty c') = uart_text (tty c) @ ascii (''Hello from EL0!'' @ [CHR 0x0A])"
    by (auto simp: c4_def program_message [OF assms(7)])
  have "mem_slice (ram c') lb 48 = mem_slice (ram ?t) lb 48"
  proof (rule mem_slice_cong)
    fix x
    assume "x \<in> region lb 48"
    then have "x \<notin> K" using assms(4) by blast
    then show "ram c' x = ram ?t x"
      using trap_ram [OF assms(2) _ _ c'(1), of x] assms(3) by (simp add: c4_def)
  qed simp
  moreover have "cur_pc c' = cur_pc ?t" using trap_preserved [OF assms(1) c'(1)] by simp
  moreover have "user_run 5 call c = Running c'" unfolding five user_run_1 step by (rule c'(1))
  ultimately show ?thesis using c'(2) assms(7) by (simp add: c4_def)
qed

text \<open>The second half: the exit call, which does not return.\<close>

lemma program_exit:
  assumes "implements call" "cur_pc c = 20 + lb" "mem_slice (ram c) lb 48 = test_code"
  shows "\<exists>c'. user_run 3 call c = Halted c' \<and>
    uart_text (tty c') = uart_text (tty c) @ ascii ''xnu-rs: user exit('' @ hex_text 42 @ ascii ('')'' @ [CHR 0x0A])"
proof -
  note w = program_words [OF assms(3)]
  define c2 where "c2 = c\<lparr>gpr := (gpr c)(0 := 42, 16 := 1), cur_pc := 28 + lb\<rparr>"
  have "user_run 3 call c = user_run 1 call c2"
    by (simp add: user_run_numeral user_step_plain w assms(2) c2_def)
  moreover have "user_step call c2 =
      take_trap call LowerA64 Synchronous 0x56000080 (sysr c2 FAR_EL1) (c2\<lparr>cur_pc := 32 + lb\<rparr>)"
    by (simp add: user_step_def c2_def w step_pc_def)
  moreover obtain c' where
    "take_trap call LowerA64 Synchronous 0x56000080 (sysr c2 FAR_EL1) (c2\<lparr>cur_pc := 32 + lb\<rparr>) = Halted c'"
    "uart_text (tty c') = uart_text (tty c) @ ascii ''xnu-rs: user exit('' @ hex_text 42 @ ascii ('')'' @ [CHR 0x0A])"
    using exit_trap [OF assms(1) svc_class, of "c2\<lparr>cur_pc := 32 + lb\<rparr>" "sysr c2 FAR_EL1"]
    by (auto simp: c2_def)
  ultimately show ?thesis by (simp add: user_run_1)
qed

lemma user_run_add:
  "user_run (m + n) call c =
     (case user_run m call c of Running c' \<Rightarrow> user_run n call c' | Halted c' \<Rightarrow> Halted c')"
  by (induction m arbitrary: c) (simp_all split: outcome.splits)

lemma program_runs:
  assumes "implements call" "confined K call" "region (sp_reg c - 272) 272 \<subseteq> K"
    and "K \<inter> region lb 48 = {}" "lb + 32 \<noteq> 0" "cur_pc c = lb" "mem_slice (ram c) lb 48 = test_code"
  shows "\<exists>c'. user_run 8 call c = Halted c' \<and>
    uart_text (tty c') = uart_text (tty c) @ ascii (''Hello from EL0!'' @ [CHR 0x0A]) @
      ascii ''xnu-rs: user exit('' @ hex_text 42 @ ascii ('')'' @ [CHR 0x0A])"
proof -
  obtain c1 where c1: "user_run 5 call c = Running c1" "cur_pc c1 = 20 + lb"
    "mem_slice (ram c1) lb 48 = test_code"
    "uart_text (tty c1) = uart_text (tty c) @ ascii (''Hello from EL0!'' @ [CHR 0x0A])"
    using program_write [OF assms] by blast
  from program_exit [OF assms(1) c1(2,3)] user_run_add [of 5 3 call c] c1(1,4) show ?thesis by auto
qed

section \<open>From \<open>_start\<close> to the exit of the program\<close>

lemma user_enter_sp: "run call user_enter c = Running c' \<Longrightarrow> sp_reg c' = sp_reg c"
  by (auto simp: user_enter_def)

lemma enter_user_run:
  assumes "frame_at (ram c) (gpr c 0) = f"
  obtains c' where "enter_user call table c = Running c'" "captured c' = f" "cur_pc c' = tf_pc f"
    "cur_pstate c' = tf_pstate f" "tty c' = tty c" "ram c' = ram c" "sysr c' VBAR_EL1 = table"
    "sp_reg c' = sp_reg c"
proof -
  let ?c = "install_vectors table c"
  have i: "ram ?c = ram c" "gpr ?c = gpr c" "tty ?c = tty c" "sp_reg ?c = sp_reg c" "sysr ?c VBAR_EL1 = table"
    by (simp_all add: install_vectors_def)
  obtain c' where r: "run call user_enter ?c = Running c'" "captured c' = frame_at (ram ?c) (gpr ?c 0)"
    "cur_pc c' = tf_pc (captured c')" "cur_pstate c' = tf_pstate (captured c')" "tty c' = tty ?c"
    "sysr c' VBAR_EL1 = sysr ?c VBAR_EL1" "ram c' = ram ?c"
    using user_enter_run [of call ?c] by auto
  show thesis
    using that [of c'] r user_enter_sp [OF r(1)] by (simp add: i assms enter_user_def)
qed

lemma user_from_start:
  assumes "conforming mp" "unat (boot_target (accepted_args args_at p)) + 0x300000 < 2 ^ 64"
    and "start mp args_at lbl p k = (Ok f, k')"
    and "implements call" "confined K call" "region (sp_reg c - 272) 272 \<subseteq> K"
    and "K \<inter> region (tf_pc f) 0x1000 = {}"
    and "frame_at (ram c) (gpr c 0) = f" "tty c = k_log (ks k')"
    and "\<And>x. x \<in> region (tf_pc f) 0x1000 \<Longrightarrow> ram c x = k_mem (ks k') x"
  shows "\<exists>c1 c2. enter_user call table c = Running c1 \<and> sysr c1 VBAR_EL1 = table \<and> cur_pstate c1 = 0 \<and>
    user_run 8 call c1 = Halted c2 \<and>
    uart_text (tty c2) = uart_text (k_log (ks k')) @ ascii (''Hello from EL0!'' @ [CHR 0x0A]) @
      ascii ''xnu-rs: user exit('' @ hex_text 42 @ ascii ('')'' @ [CHR 0x0A])"
proof -
  from start_run [OF assms(1,2), of lbl k] assms(3) obtain lb where
    f: "f = TrapFrame_new_user lb (lb + 0x11000)"
    and m: "mem_slice (k_mem (ks k')) lb 0x1000 = test_code @ replicate (0x1000 - 48) 0"
    and lb: "unat lb < unat (boot_target (accepted_args args_at p)) + 0x200000" by auto
  have pc: "tf_pc f = lb" "tf_pstate f = 0" by (simp_all add: f TrapFrame_new_user_def)
  obtain c1 where c1: "enter_user call table c = Running c1" "cur_pc c1 = lb" "cur_pstate c1 = 0"
    "tty c1 = tty c" "ram c1 = ram c" "sysr c1 VBAR_EL1 = table" "sp_reg c1 = sp_reg c"
    by (rule enter_user_run [OF assms(8), of call table]) (simp add: pc)
  have sub: "region lb 48 \<subseteq> region lb 0x1000" by (rule region_mono) simp
  have "mem_slice (ram c1) lb 48 = mem_slice (k_mem (ks k')) lb 48"
    using assms(10) sub by (intro mem_slice_cong) (auto simp: c1(5) pc)
  also have "\<dots> = test_code"
    using m mem_slice_sub [of 0 48 "0x1000" "k_mem (ks k')" lb] by (simp add: length_test_code)
  finally have code: "mem_slice (ram c1) lb 48 = test_code" .
  have "unat (lb + 32) = unat lb + 32" using lb assms(2) by (simp add: unat_add_nowrap)
  then have "lb + 32 \<noteq> 0" by (metis unat_0 add_is_0 zero_neq_numeral)
  moreover have "K \<inter> region lb 48 = {}" using assms(7) sub by (auto simp: pc)
  moreover have "region (sp_reg c1 - 272) 272 \<subseteq> K" using assms(6) c1(7) by simp
  ultimately obtain c2 where "user_run 8 call c1 = Halted c2"
    "uart_text (tty c2) = uart_text (tty c1) @ ascii (''Hello from EL0!'' @ [CHR 0x0A]) @
      ascii ''xnu-rs: user exit('' @ hex_text 42 @ ascii ('')'' @ [CHR 0x0A])"
    using program_runs [OF assms(4,5), of c1 lb] c1(2) code by blast
  with c1 assms(9) show ?thesis by auto
qed


text \<open>The concrete handler call stays within the frame it is given.\<close>

lemma fold_st64_out:
  assumes "8 * (k + length vs) \<le> 272" "x \<notin> region a 272"
  shows "fold (\<lambda>(i, v). st64 a (8 * i) v) (enumerate k vs) m x = m x"
  using assms(1)
proof (induction vs arbitrary: k m)
  case Nil
  then show ?case by simp
next
  case (Cons v vs)
  then show ?case using st64_out [of "8 * k" 272 x a v m] assms(2) by simp
qed

lemma confined_exact_call: "confined K exact_call"
  unfolding confined_def
proof (intro allI impI)
  fix h c c' x
  assume sub: "region (gpr c 0) 272 \<subseteq> K" and r: "exact_call h c = Running c'" and x: "x \<notin> K"
  have wf: "wf_frame (frame_at (ram c) (gpr c 0))" by (simp add: wf_frame_def frame_at_def)
  from r obtain log' f' where h: "rust_handler h (sysr c ESR_EL1) (sysr c FAR_EL1) (ram c)
      (frame_at (ram c) (gpr c 0)) (tty c) = (log', Return f')"
    and c': "ram c' = write_frame (gpr c 0) f' (ram c)"
    by (auto simp: exact_call_def split: prod.splits flow.splits)
  have "wf_frame f'" using rust_handler_wf [OF wf h] .
  then show "ram c' x = ram c x"
    unfolding c' write_frame_def using sub x by (intro fold_st64_out) (auto simp: wf_frame_def)
qed


end
