(* ===== verification/Macho_Writer.thy ===== *)
theory Macho_Writer
  imports Macho_Format Xnu_Align
begin

text \<open>
  The image builder's conversion of the kernel from ELF to Mach-O:
  \<open>convert_elf_to_macho\<close> of \<open>xtask/src/main.rs\<close> with its helpers, between reading the
  source file and writing the result. The ELF parser is a parameter. File offsets are
  64-bit words (\<open>usize\<close>), buffers are byte lists; an index out of range is a panic.
\<close>

section \<open>Definitions\<close>

datatype io_kind = Other | NotFound | InvalidInput

text \<open>An error of this program, or one passed on from a library or the operating system.\<close>

datatype io_error = IoError io_kind string | Foreign nat

abbreviation io_other :: "string \<Rightarrow> io_error" where
  "io_other msg \<equiv> IoError Other msg"

record mach_segment_layout =
  l_segname :: bytes
  l_vmaddr :: u64
  l_vmsize :: u64
  l_fileoff :: u64
  l_filesize :: u64
  l_maxprot :: u32
  l_initprot :: u32
  l_source_offset :: u64

fun decimal :: "nat \<Rightarrow> string" where
  "decimal n = (if n < 10 then [char_of (48 + n)] else decimal (n div 10) @ [char_of (48 + n mod 10)])"

declare decimal.simps [simp del]

definition segment_name :: "nat \<Rightarrow> u32 \<Rightarrow> bytes" where
  "segment_name index flags =
     (if flags AND 1 \<noteq> 0 then ascii ''__TEXT'' @ replicate 10 0
      else if flags AND 2 \<noteq> 0 then ascii ''__DATA'' @ replicate 10 0
      else let label = ascii (''__SEG'' @ decimal index); n = min (length label) 16 in
        take n label @ replicate (16 - n) 0)"

definition VM_PROT_READ :: u32 where "VM_PROT_READ = 1"
definition VM_PROT_WRITE :: u32 where "VM_PROT_WRITE = 2"
definition VM_PROT_EXECUTE :: u32 where "VM_PROT_EXECUTE = 4"

definition vm_prot :: "u32 \<Rightarrow> u32" where
  "vm_prot flags =
     (let prot = 0;
          prot = (if flags AND 4 \<noteq> 0 then prot OR VM_PROT_READ else prot);
          prot = (if flags AND 2 \<noteq> 0 then prot OR VM_PROT_WRITE else prot);
          prot = (if flags AND 1 \<noteq> 0 then prot OR VM_PROT_EXECUTE else prot)
      in prot)"

definition align_usize :: "u64 \<Rightarrow> u64 \<Rightarrow> (u64, io_error) res" where
  "align_usize value al =
     ok_or (map_option (\<lambda>v. v AND NOT (al - 1)) (checked_add value (al - 1))) (io_other ''alignment overflow'')"

type_synonym writer = "bytes \<times> nat \<Rightarrow> (bytes \<times> nat, io_error) res"

definition put_bytes :: "bytes \<Rightarrow> writer" where
  "put_bytes bs = (\<lambda>(buf, cursor).
     and_then (copy_from_slice buf cursor (cursor + length bs) bs) (\<lambda>buf'. Ok (buf', cursor + length bs)))"

definition write_u32 :: "u32 \<Rightarrow> writer" where
  "write_u32 v = put_bytes (u32_to_le_bytes v)"

definition write_u64 :: "u64 \<Rightarrow> writer" where
  "write_u64 v = put_bytes (u64_to_le_bytes v)"

definition wr_then :: "writer \<Rightarrow> writer \<Rightarrow> writer" where
  "wr_then f g s = and_then (f s) g"

definition loadable :: "elf \<Rightarrow> program_header list" where
  "loadable e = filter (\<lambda>h. p_type h = PT_LOAD \<and> p_memsz h \<noteq> 0) (program_headers e)"

definition SIZEOF_SEGMENT_COMMAND_64 :: nat where "SIZEOF_SEGMENT_COMMAND_64 = 72"
definition SIZEOF_ENTRY_POINT_COMMAND :: nat where "SIZEOF_ENTRY_POINT_COMMAND = 24"

definition size_of_cmds :: "nat \<Rightarrow> (u64, io_error) res" where
  "size_of_cmds n =
     (if n * SIZEOF_SEGMENT_COMMAND_64 + SIZEOF_ENTRY_POINT_COMMAND < 2 ^ 64
      then Ok (word_of_nat (n * SIZEOF_SEGMENT_COMMAND_64 + SIZEOF_ENTRY_POINT_COMMAND))
      else Err (io_other ''Mach-O command size overflow''))"

definition segment_layout :: "nat \<Rightarrow> u64 \<Rightarrow> program_header \<Rightarrow> mach_segment_layout" where
  "segment_layout index file_offset h =
     \<lparr>l_segname = segment_name index (p_flags h), l_vmaddr = p_vaddr h, l_vmsize = p_memsz h,
      l_fileoff = file_offset, l_filesize = p_filesz h, l_maxprot = vm_prot (p_flags h),
      l_initprot = vm_prot (p_flags h), l_source_offset = p_offset h\<rparr>"

primrec layout_loop ::
  "program_header list \<Rightarrow> nat \<Rightarrow> u64 \<Rightarrow> (u64 \<times> u64) option \<Rightarrow> mach_segment_layout list \<Rightarrow>
   (mach_segment_layout list \<times> u64 \<times> (u64 \<times> u64) option, io_error) res" where
  "layout_loop [] index file_offset text_base acc = Ok (acc, file_offset, text_base)"
| "layout_loop (h # hs) index file_offset text_base acc =
     and_then (align_usize file_offset 0x1000) (\<lambda>fo.
     let segname = segment_name index (p_flags h);
         text_base' = (if segname = ascii ''__TEXT'' @ replicate 10 0 then Some (p_vaddr h, fo) else text_base)
     in and_then (ok_or (checked_add fo (p_filesz h)) (io_other ''Mach-O file size overflow'')) (\<lambda>next.
        layout_loop hs (Suc index) next text_base' (acc @ [segment_layout index fo h])))"

definition u32_try :: "nat \<Rightarrow> string \<Rightarrow> (u32, io_error) res" where
  "u32_try n msg = (if n < 2 ^ 32 then Ok (word_of_nat n) else Err (io_other msg))"

definition try_then :: "(u32, io_error) res \<Rightarrow> (u32 \<Rightarrow> writer) \<Rightarrow> writer" where
  "try_then r f s = and_then r (\<lambda>v. f v s)"

definition write_header :: "nat \<Rightarrow> u64 \<Rightarrow> writer" where
  "write_header n sizeofcmds =
     wr_then (write_u32 0xFEEDFACF)
     (wr_then (write_u32 0x0100000C)
     (wr_then (write_u32 0)
     (wr_then (write_u32 2)
     (wr_then (try_then (u32_try (n + 1) ''too many Mach-O commands'') write_u32)
     (wr_then (try_then (u32_try (unat sizeofcmds) ''Mach-O commands too large'') write_u32)
     (wr_then (write_u32 1) (write_u32 0)))))))"

definition write_segment :: "mach_segment_layout \<Rightarrow> writer" where
  "write_segment sg =
     wr_then (write_u32 LC_SEGMENT_64)
     (wr_then (try_then (u32_try SIZEOF_SEGMENT_COMMAND_64 ''bad segment command size'') write_u32)
     (wr_then (put_bytes (l_segname sg))
     (wr_then (write_u64 (l_vmaddr sg))
     (wr_then (write_u64 (l_vmsize sg))
     (wr_then (write_u64 (l_fileoff sg))
     (wr_then (write_u64 (l_filesize sg))
     (wr_then (write_u32 (l_maxprot sg))
     (wr_then (write_u32 (l_initprot sg))
     (wr_then (write_u32 0) (write_u32 0))))))))))"

primrec write_segments :: "mach_segment_layout list \<Rightarrow> writer" where
  "write_segments [] = Ok"
| "write_segments (sg # sgs) = wr_then (write_segment sg) (write_segments sgs)"

definition write_main :: "u64 \<Rightarrow> writer" where
  "write_main entry_off =
     wr_then (write_u32 LC_MAIN)
     (wr_then (try_then (u32_try SIZEOF_ENTRY_POINT_COMMAND ''bad entry command size'') write_u32)
     (wr_then (write_u64 entry_off) (write_u64 0)))"

definition copy_segment :: "bytes \<Rightarrow> mach_segment_layout \<Rightarrow> bytes \<Rightarrow> (bytes, io_error) res" where
  "copy_segment elf_bytes sg macho =
     and_then (ok_or (checked_add (l_source_offset sg) (l_filesize sg)) (io_other ''Mach-O segment range overflow''))
       (\<lambda>src_end.
     and_then (ok_or (checked_add (l_fileoff sg) (src_end - l_source_offset sg))
       (io_other ''Mach-O output range overflow'')) (\<lambda>dst_end.
     and_then (index_range elf_bytes (unat (l_source_offset sg)) (unat src_end)) (\<lambda>src.
     copy_from_slice macho (unat (l_fileoff sg)) (unat dst_end) src)))"

primrec copy_segments_macho :: "bytes \<Rightarrow> mach_segment_layout list \<Rightarrow> bytes \<Rightarrow> (bytes, io_error) res" where
  "copy_segments_macho elf_bytes [] macho = Ok macho"
| "copy_segments_macho elf_bytes (sg # sgs) macho =
     and_then (copy_segment elf_bytes sg macho) (copy_segments_macho elf_bytes sgs)"

definition convert_bytes :: "elf_parser \<Rightarrow> bytes \<Rightarrow> (bytes, io_error) res" where
  "convert_bytes ep elf_bytes =
     and_then (map_err (\<lambda>_. Foreign 0) (ep elf_bytes)) (\<lambda>e.
     if loadable e = [] then Err (io_other ''ELF image has no PT_LOAD segments'')
     else
       and_then (size_of_cmds (length (loadable e))) (\<lambda>sizeofcmds.
       and_then (add_panic 32 sizeofcmds) (\<lambda>h.
       and_then (align_usize h 0x1000) (\<lambda>file_offset.
       and_then (layout_loop (loadable e) 0 file_offset None []) (\<lambda>(layout, final_size, text_base).
       and_then (ok_or text_base (io_other ''ELF image has no executable text segment'')) (\<lambda>(text_vmaddr, text_fileoff).
       and_then (ok_or (checked_sub (elf_entry e) (saturating_sub text_vmaddr text_fileoff))
         (io_other ''invalid ELF entry for Mach-O conversion'')) (\<lambda>entry_off.
       and_then (wr_then (write_header (length layout) sizeofcmds)
           (wr_then (write_segments layout) (write_main entry_off))
           (replicate (unat final_size) 0, 0)) (\<lambda>(macho, cursor).
       copy_segments_macho elf_bytes layout macho))))))))"

section \<open>Alignment\<close>

lemma align_usize_page:
  "res_ok (align_usize v 0x1000) =
     (if unat v + (2 ^ 12 - 1) < 2 ^ 64 then Some ((v + (2 ^ 12 - 1)) AND NOT (2 ^ 12 - 1)) else None)"
  by (simp add: align_usize_def checked_add_def)

interpretation file_up: aligner "on_u64 (\<lambda>v. res_ok (align_usize v 0x1000))" "2 ^ 12" "2 ^ 64"
  by (rule u64_aligner [OF _ _ align_usize_page]) simp_all

lemma align_usize_ok:
  assumes "unat v + 4096 \<le> 2 ^ 64"
  obtains r where "align_usize v 0x1000 = Ok r" "4096 dvd unat r" "unat v \<le> unat r" "unat r < unat v + 4096"
proof -
  obtain n where n: "on_u64 (\<lambda>v. res_ok (align_usize v 0x1000)) (unat v) = Some n"
    using file_up.up_total [of "unat v"] assms by auto
  then obtain r where r: "align_usize v 0x1000 = Ok r" "n = unat r"
    unfolding on_u64_unat by (cases "align_usize v 0x1000") auto
  from file_up.up_sound [OF n] that [OF r(1)] show thesis by (simp add: r(2))
qed

lemma align_usize_Ok:
  assumes "align_usize v 0x1000 = Ok r"
  shows "4096 dvd unat r" "unat v \<le> unat r" "unat r < unat v + 4096"
proof -
  have "on_u64 (\<lambda>v. res_ok (align_usize v 0x1000)) (unat v) = Some (unat r)"
    by (simp add: on_u64_unat assms)
  from file_up.up_sound [OF this]
  show "4096 dvd unat r" "unat v \<le> unat r" "unat r < unat v + 4096" by simp_all
qed

section \<open>Writing the commands\<close>

text \<open>A buffer of \<open>N\<close> bytes of which a prefix has been written.\<close>

definition filled :: "nat \<Rightarrow> bytes \<Rightarrow> bytes \<times> nat" where
  "filled N pre = (pre @ replicate (N - length pre) 0, length pre)"

lemma put_bytes_filled:
  assumes "length pre + length bs \<le> N"
  shows "put_bytes bs (filled N pre) = Ok (filled N (pre @ bs))"
proof -
  have "N - length pre = length bs + (N - (length pre + length bs))" using assms by simp
  then have "replicate (N - length pre) (0 :: u8) =
      replicate (length bs) 0 @ replicate (N - (length pre + length bs)) 0"
    by (metis replicate_add)
  then show ?thesis using assms by (simp add: put_bytes_def filled_def copy_from_slice_def)
qed

text \<open>\<open>emits w bs\<close>: the writer \<open>w\<close> appends \<open>bs\<close>, given the room.\<close>

definition emits :: "writer \<Rightarrow> bytes \<Rightarrow> bool" where
  "emits w bs \<longleftrightarrow> (\<forall>N pre. length pre + length bs \<le> N \<longrightarrow> w (filled N pre) = Ok (filled N (pre @ bs)))"

lemma emits_put: "emits (put_bytes bs) bs"
  by (simp add: emits_def put_bytes_filled)

lemma emits_u32: "emits (write_u32 v) (u32_to_le_bytes v)"
  and emits_u64: "emits (write_u64 w) (u64_to_le_bytes w)"
  by (simp_all add: write_u32_def write_u64_def emits_put)

lemma emits_then: "emits f as \<Longrightarrow> emits g bs \<Longrightarrow> emits (wr_then f g) (as @ bs)"
  by (auto simp: emits_def wr_then_def)

lemma emits_try:
  "n < 2 ^ 32 \<Longrightarrow> word_of_nat n = v \<Longrightarrow> emits (try_then (u32_try n msg) write_u32) (u32_to_le_bytes v)"
  using emits_u32 [of v] by (auto simp: emits_def try_then_def u32_try_def)

lemmas emits_intros = emits_then emits_u32 emits_u64 emits_put emits_try

definition header_bytes :: "nat \<Rightarrow> bytes" where
  "header_bytes n =
     u32_to_le_bytes 0xFEEDFACF @ u32_to_le_bytes 0x0100000C @ u32_to_le_bytes 0 @ u32_to_le_bytes 2 @
     u32_to_le_bytes (word_of_nat (n + 1)) @ u32_to_le_bytes (word_of_nat (72 * n + 24)) @
     u32_to_le_bytes 1 @ u32_to_le_bytes 0"

definition segment_bytes :: "mach_segment_layout \<Rightarrow> bytes" where
  "segment_bytes sg =
     u32_to_le_bytes LC_SEGMENT_64 @ u32_to_le_bytes 72 @ l_segname sg @ u64_to_le_bytes (l_vmaddr sg) @
     u64_to_le_bytes (l_vmsize sg) @ u64_to_le_bytes (l_fileoff sg) @ u64_to_le_bytes (l_filesize sg) @
     u32_to_le_bytes (l_maxprot sg) @ u32_to_le_bytes (l_initprot sg) @ u32_to_le_bytes 0 @ u32_to_le_bytes 0"

definition main_bytes :: "u64 \<Rightarrow> bytes" where
  "main_bytes entry_off =
     u32_to_le_bytes LC_MAIN @ u32_to_le_bytes 24 @ u64_to_le_bytes entry_off @ u64_to_le_bytes 0"

lemma emits_header:
  assumes "72 * n + 24 < 2 ^ 32"
  shows "emits (write_header n (word_of_nat (n * 72 + 24))) (header_bytes n)"
  unfolding write_header_def header_bytes_def
proof (intro emits_intros)
  have u: "unat (word_of_nat (n * 72 + 24) :: u64) = n * 72 + 24"
    using assms by (simp add: unat_of_nat del: of_nat_add of_nat_mult)
  show "n + 1 < 2 ^ 32" using assms by simp
  show "unat (word_of_nat (n * 72 + 24) :: u64) < 2 ^ 32" using assms unfolding u by simp
  show "word_of_nat (unat (word_of_nat (n * 72 + 24) :: u64)) = (word_of_nat (72 * n + 24) :: u32)"
    unfolding u by (simp add: mult.commute)
qed simp_all

lemma emits_segment: "emits (write_segment sg) (segment_bytes sg)"
  unfolding write_segment_def segment_bytes_def
  by (intro emits_intros) (simp_all add: SIZEOF_SEGMENT_COMMAND_64_def)

lemma emits_segments: "emits (write_segments sgs) (concat (map segment_bytes sgs))"
proof (induction sgs)
  case Nil
  then show ?case by (simp add: emits_def)
next
  case (Cons sg sgs)
  then show ?case by (simp add: emits_then emits_segment)
qed

lemma emits_main: "emits (write_main e) (main_bytes e)"
  unfolding write_main_def main_bytes_def
  by (intro emits_intros) (simp_all add: SIZEOF_ENTRY_POINT_COMMAND_def)

definition command_bytes :: "mach_segment_layout list \<Rightarrow> u64 \<Rightarrow> bytes" where
  "command_bytes sgs e = header_bytes (length sgs) @ concat (map segment_bytes sgs) @ main_bytes e"

lemma command_writer:
  assumes "72 * length sgs + 24 < 2 ^ 32" "length (command_bytes sgs e) \<le> N"
  shows "wr_then (write_header (length sgs) (word_of_nat (length sgs * 72 + 24)))
      (wr_then (write_segments sgs) (write_main e)) (replicate N 0, 0) =
    Ok (command_bytes sgs e @ replicate (N - length (command_bytes sgs e)) 0, length (command_bytes sgs e))"
proof -
  have "emits (wr_then (write_header (length sgs) (word_of_nat (length sgs * 72 + 24)))
      (wr_then (write_segments sgs) (write_main e))) (command_bytes sgs e)"
    unfolding command_bytes_def using assms(1)
    by (intro emits_then emits_header emits_segments emits_main)
  then show ?thesis using assms(2) unfolding emits_def filled_def
    by (metis append_Nil list.size(3) add_0 minus_nat.diff_0)
qed

section \<open>Copying the segments\<close>

definition splice :: "bytes \<Rightarrow> nat \<Rightarrow> bytes \<Rightarrow> bytes" where
  "splice buf a src = take a buf @ src @ drop (a + length src) buf"

lemma length_splice: "a + length src \<le> length buf \<Longrightarrow> length (splice buf a src) = length buf"
  by (simp add: splice_def)

lemma nth_splice:
  assumes "a + length src \<le> length buf" "i < length buf"
  shows "splice buf a src ! i = (if a \<le> i \<and> i < a + length src then src ! (i - a) else buf ! i)"
  using assms by (auto simp: splice_def nth_append min_def)

definition seg_start :: "mach_segment_layout \<Rightarrow> nat" where "seg_start sg = unat (l_fileoff sg)"
definition seg_size :: "mach_segment_layout \<Rightarrow> nat" where "seg_size sg = unat (l_filesize sg)"

definition seg_source :: "bytes \<Rightarrow> mach_segment_layout \<Rightarrow> bytes" where
  "seg_source elf_bytes sg = take (seg_size sg) (drop (unat (l_source_offset sg)) elf_bytes)"

definition in_range :: "bytes \<Rightarrow> nat \<Rightarrow> mach_segment_layout \<Rightarrow> bool" where
  "in_range elf_bytes N sg \<longleftrightarrow>
     unat (l_source_offset sg) + seg_size sg \<le> length elf_bytes \<and> seg_start sg + seg_size sg \<le> N"

lemma copy_segment_run:
  assumes "in_range elf_bytes (length macho) sg" "length elf_bytes < 2 ^ 64" "length macho < 2 ^ 64"
  shows "copy_segment elf_bytes sg macho = Ok (splice macho (seg_start sg) (seg_source elf_bytes sg))"
proof -
  let ?a = "l_source_offset sg" and ?n = "l_filesize sg"
  have le: "unat ?a + unat ?n < 2 ^ 64" "unat (l_fileoff sg) + unat ?n < 2 ^ 64"
    using assms by (simp_all add: in_range_def seg_size_def seg_start_def)
  then have c: "checked_add ?a ?n = Some (?a + ?n)" "checked_add (l_fileoff sg) ?n = Some (l_fileoff sg + ?n)"
    by (simp_all add: checked_add_def)
  have u: "unat (?a + ?n) = unat ?a + unat ?n" "unat (l_fileoff sg + ?n) = unat (l_fileoff sg) + unat ?n"
    using le by (simp_all add: unat_add_nowrap)
  have r: "unat ?a + unat ?n \<le> length elf_bytes" "unat (l_fileoff sg) + unat ?n \<le> length macho"
    using assms(1) by (simp_all add: in_range_def seg_size_def seg_start_def)
  then have "min (length elf_bytes - unat ?a) (unat ?n) = unat ?n" by linarith
  with r show ?thesis
    by (simp add: copy_segment_def c u index_range_def get_range_def seg_size_def seg_start_def
        copy_from_slice_def seg_source_def splice_def)
qed

lemma length_seg_source: "in_range elf_bytes N sg \<Longrightarrow> length (seg_source elf_bytes sg) = seg_size sg"
  by (auto simp: seg_source_def in_range_def min_def)

definition outside :: "mach_segment_layout list \<Rightarrow> nat \<Rightarrow> bool" where
  "outside sgs i \<longleftrightarrow> (\<forall>sg \<in> set sgs. i < seg_start sg \<or> seg_start sg + seg_size sg \<le> i)"

lemma copies_run:
  assumes "\<forall>sg \<in> set sgs. in_range elf_bytes (length macho) sg" "length elf_bytes < 2 ^ 64" "length macho < 2 ^ 64"
    and "sorted_wrt (\<lambda>a b. seg_start a + seg_size a \<le> seg_start b) sgs"
  shows "\<exists>out. copy_segments_macho elf_bytes sgs macho = Ok out \<and> length out = length macho \<and>
    (\<forall>i < length macho. outside sgs i \<longrightarrow> out ! i = macho ! i) \<and>
    (\<forall>sg \<in> set sgs. sub_bytes out (seg_start sg) (seg_size sg) = seg_source elf_bytes sg)"
  using assms
proof (induction sgs arbitrary: macho)
  case Nil
  then show ?case by simp
next
  case (Cons sg sgs)
  let ?m = "splice macho (seg_start sg) (seg_source elf_bytes sg)"
  have ir: "in_range elf_bytes (length macho) sg" using Cons.prems(1) by simp
  have fit: "seg_start sg + length (seg_source elf_bytes sg) \<le> length macho"
    using ir by (simp add: length_seg_source [OF ir] in_range_def)
  have len: "length ?m = length macho" by (rule length_splice [OF fit])
  obtain out where out: "copy_segments_macho elf_bytes sgs ?m = Ok out" "length out = length macho"
    "\<forall>i < length macho. outside sgs i \<longrightarrow> out ! i = ?m ! i"
    "\<forall>sg \<in> set sgs. sub_bytes out (seg_start sg) (seg_size sg) = seg_source elf_bytes sg"
    using Cons.IH [of ?m] Cons.prems len by auto
  have "out ! i = macho ! i" if "i < length macho" "outside (sg # sgs) i" for i
    using that out(3) nth_splice [OF fit that(1)] by (auto simp: outside_def length_seg_source [OF ir])
  moreover have "sub_bytes out (seg_start sg) (seg_size sg) = seg_source elf_bytes sg"
  proof (rule nth_equalityI)
    fix j
    assume "j < length (sub_bytes out (seg_start sg) (seg_size sg))"
    then have j: "j < seg_size sg" by (simp add: sub_bytes_def)
    have "outside sgs (seg_start sg + j)" using j Cons.prems(4) by (auto simp: outside_def)
    moreover have "seg_start sg + j < length macho" using j ir by (simp add: in_range_def)
    ultimately show "sub_bytes out (seg_start sg) (seg_size sg) ! j = seg_source elf_bytes sg ! j"
      using out(3) nth_splice [OF fit] j by (simp add: sub_bytes_def length_seg_source [OF ir])
  qed (simp add: sub_bytes_def length_seg_source [OF ir])
  ultimately show ?case
    using out copy_segment_run [OF ir Cons.prems(2,3)] by auto
qed

section \<open>Names\<close>

lemma length_segment_name [simp]: "length (segment_name i fl) = 16"
  by (simp add: segment_name_def Let_def)

lemma ascii_bytes_below:
  assumes "\<And>c. c \<in> set cs \<Longrightarrow> of_char c < (128 :: nat)" "b \<in> set (ascii cs)"
  shows "b < 0x80"
proof -
  from assms(2) obtain c where c: "c \<in> set cs" "b = word_of_nat (of_char c)" by (auto simp: ascii_def)
  have "unat b = of_char c" using assms(1) [OF c(1)] by (simp add: c(2) unat_of_nat)
  with assms(1) [OF c(1)] show ?thesis by (simp add: word_less_nat_alt)
qed

lemma decimal_below: "c \<in> set (decimal n) \<Longrightarrow> of_char c < (128 :: nat)"
proof (induction n rule: decimal.induct)
  case (1 n)
  have "(48 + n mod 10) mod 256 < 128" by simp
  with 1 show ?case by (subst (asm) decimal.simps) (auto split: if_splits)
qed

lemma segment_name_below:
  assumes "b \<in> set (segment_name i fl)"
  shows "b < 0x80"
proof -
  have "b = 0 \<or> b \<in> set (ascii ''__TEXT'') \<or> b \<in> set (ascii ''__DATA'') \<or> b \<in> set (ascii (''__SEG'' @ decimal i))"
    using assms by (auto simp: segment_name_def Let_def split: if_splits dest!: in_set_takeD)
  moreover have "b < 0x80" if "b \<in> set (ascii (''__SEG'' @ decimal i))"
    using that by (rule ascii_bytes_below [rotated]) (auto dest: decimal_below)
  moreover have "b < 0x80" if "b \<in> set (ascii ''__TEXT'')" using that by (rule ascii_bytes_below [rotated]) auto
  moreover have "b < 0x80" if "b \<in> set (ascii ''__DATA'')" using that by (rule ascii_bytes_below [rotated]) auto
  ultimately show ?thesis by (elim disjE) simp_all
qed

lemma segment_name_text: "c_name (segment_name i fl) = ascii ''__TEXT'' \<longleftrightarrow> fl AND 1 \<noteq> 0"
  by (auto simp: segment_name_def c_name_def ascii_def Let_def)

lemma segment_name_eq_text: "segment_name i fl = ascii ''__TEXT'' @ replicate 10 0 \<longleftrightarrow> fl AND 1 \<noteq> 0"
  by (auto simp: segment_name_def ascii_def Let_def)

lemma segment_name_utf8: "utf8_valid (c_name (segment_name i fl))"
  by (rule utf8_valid_ascii) (auto simp: c_name_def dest!: set_takeWhileD segment_name_below)

section \<open>Layout\<close>

text \<open>\<open>laid fo hs i ls fin\<close>: \<open>ls\<close> places the headers \<open>hs\<close>, numbered from \<open>i\<close>, one after the other at
  page-aligned offsets from \<open>fo\<close> on, ending at \<open>fin\<close>.\<close>

fun laid :: "nat \<Rightarrow> program_header list \<Rightarrow> nat \<Rightarrow> mach_segment_layout list \<Rightarrow> nat \<Rightarrow> bool" where
  "laid fo [] i [] fin \<longleftrightarrow> fin = fo"
| "laid fo (h # hs) i (l # ls) fin \<longleftrightarrow>
     l = segment_layout i (l_fileoff l) h \<and> 4096 dvd seg_start l \<and> fo \<le> seg_start l \<and>
     seg_start l < fo + 4096 \<and> laid (seg_start l + unat (p_filesz h)) hs (Suc i) ls fin"
| "laid _ _ _ _ _ \<longleftrightarrow> False"

definition is_exec :: "program_header \<Rightarrow> bool" where
  "is_exec h \<longleftrightarrow> p_flags h AND 1 \<noteq> 0"

primrec text_base_of :: "program_header list \<Rightarrow> mach_segment_layout list \<Rightarrow> (u64 \<times> u64) option \<Rightarrow> (u64 \<times> u64) option" where
  "text_base_of [] ls tb = tb"
| "text_base_of (h # hs) ls tb =
     text_base_of hs (tl ls) (if is_exec h then Some (p_vaddr h, l_fileoff (hd ls)) else tb)"

lemma layout_loop_run:
  assumes "unat fo + sum_list (map (\<lambda>h. unat (p_filesz h) + 4096) hs) < 2 ^ 64"
  shows "\<exists>ls fin. layout_loop hs i fo tb acc = Ok (acc @ ls, fin, text_base_of hs ls tb) \<and>
    laid (unat fo) hs i ls (unat fin) \<and>
    unat fin \<le> unat fo + sum_list (map (\<lambda>h. unat (p_filesz h) + 4096) hs)"
  using assms
proof (induction hs arbitrary: i fo tb acc)
  case Nil
  then show ?case by simp
next
  case (Cons h hs)
  then have "unat fo + 4096 \<le> 2 ^ 64" by simp
  then obtain r where r: "align_usize fo 0x1000 = Ok r" "4096 dvd unat r" "unat fo \<le> unat r"
    "unat r < unat fo + 4096" by (rule align_usize_ok)
  have lt: "unat r + unat (p_filesz h) < 2 ^ 64" using r(4) Cons.prems by simp
  then have c: "checked_add r (p_filesz h) = Some (r + p_filesz h)"
    "unat (r + p_filesz h) = unat r + unat (p_filesz h)"
    by (simp_all add: checked_add_def unat_add_nowrap)
  define tb' where "tb' = (if is_exec h then Some (p_vaddr h, r) else tb)"
  have "unat (r + p_filesz h) + sum_list (map (\<lambda>h. unat (p_filesz h) + 4096) hs) < 2 ^ 64"
    using Cons.prems r(4) c(2) by simp
  from Cons.IH [OF this, of "Suc i" tb' "acc @ [segment_layout i r h]"] obtain ls fin where
    ih: "layout_loop hs (Suc i) (r + p_filesz h) tb' (acc @ [segment_layout i r h]) =
      Ok ((acc @ [segment_layout i r h]) @ ls, fin, text_base_of hs ls tb')"
    "laid (unat (r + p_filesz h)) hs (Suc i) ls (unat fin)"
    "unat fin \<le> unat (r + p_filesz h) + sum_list (map (\<lambda>h. unat (p_filesz h) + 4096) hs)" by blast
  have "layout_loop (h # hs) i fo tb acc = layout_loop hs (Suc i) (r + p_filesz h) tb' (acc @ [segment_layout i r h])"
    by (simp add: r(1) c(1) segment_name_eq_text tb'_def is_exec_def)
  with ih r c(2) show ?case
    by (intro exI [of _ "segment_layout i r h # ls"] exI [of _ fin])
      (simp add: segment_layout_def seg_start_def tb'_def)
qed

lemma laid_facts:
  assumes "laid fo hs i ls fin"
  shows "length ls = length hs \<and> fo \<le> fin \<and>
    (\<forall>l \<in> set ls. fo \<le> seg_start l \<and> seg_start l + seg_size l \<le> fin) \<and>
    sorted_wrt (\<lambda>a b. seg_start a + seg_size a \<le> seg_start b) ls"
  using assms
proof (induction fo hs i ls fin rule: laid.induct)
  case (2 fo h hs i l ls fin)
  have l: "l = segment_layout i (l_fileoff l) h" and ge: "fo \<le> seg_start l"
    and rest: "laid (seg_start l + unat (p_filesz h)) hs (Suc i) ls fin" using "2.prems" by auto
  have sz: "seg_size l = unat (p_filesz h)" by (subst l) (simp add: seg_size_def segment_layout_def)
  note ih = "2.IH" [OF rest]
  show ?case using ih ge sz l by auto
qed simp_all

lemma laid_list_all2:
  "laid fo hs i ls fin \<Longrightarrow>
   list_all2 (\<lambda>h l. 4096 dvd seg_start l \<and> (\<exists>j. l = segment_layout j (l_fileoff l) h)) hs ls"
  by (induction fo hs i ls fin rule: laid.induct) auto

lemma laid_header:
  assumes "laid fo hs i ls fin" "l \<in> set ls"
  obtains j h where "h \<in> set hs" "l = segment_layout j (l_fileoff l) h"
proof -
  from assms(2) obtain k where k: "k < length ls" "l = ls ! k" by (auto simp: in_set_conv_nth)
  with list_all2_nthD2 [OF laid_list_all2 [OF assms(1)] k(1)] obtain j where
    "l = segment_layout j (l_fileoff l) (hs ! k)" by auto
  moreover have "hs ! k \<in> set hs" using k(1) laid_facts [OF assms(1)] by simp
  ultimately show thesis using that by blast
qed

section \<open>Reading the commands back\<close>

lemma sub_bytes_sub: "k + n \<le> N \<Longrightarrow> sub_bytes bs (off + k) n = take n (drop k (sub_bytes bs off N))"
  by (intro nth_equalityI) (simp_all add: sub_bytes_def add.assoc)

lemma u32_val: "le_val (u32_to_le_bytes v) = unat v"
  using unat_bound [of v] by (simp add: u32_to_le_bytes_def le_val_to_le)

lemma u64_val: "le_val (u64_to_le_bytes v) = unat v"
  using unat_bound [of v] by (simp add: u64_to_le_bytes_def le_val_to_le)

lemma length_segment_bytes: "length (l_segname sg) = 16 \<Longrightarrow> length (segment_bytes sg) = 72"
  by (simp add: segment_bytes_def)

lemma length_main_bytes: "length (main_bytes e) = 24"
  by (simp add: main_bytes_def)

lemma length_header_bytes: "length (header_bytes n) = 32"
  by (simp add: header_bytes_def)

definition decoded :: "bytes \<Rightarrow> mach_segment_layout \<Rightarrow> mach_segment" where
  "decoded out sg = \<lparr>seg_name = Some (c_name (l_segname sg)), vmaddr = l_vmaddr sg, vmsize = l_vmsize sg,
     fileoff = l_fileoff sg, filesize = l_filesize sg, seg_data = sub_bytes out (seg_start sg) (seg_size sg)\<rparr>"

lemma decoded_sel:
  "vmaddr (decoded out sg) = l_vmaddr sg" "fileoff (decoded out sg) = l_fileoff sg"
  by (simp_all add: decoded_def)

lemma decode_segment_back:
  assumes "sub_bytes out off 72 = segment_bytes sg" "length (l_segname sg) = 16"
    and "utf8_valid (c_name (l_segname sg))" "seg_start sg + seg_size sg \<le> length out"
  shows "rd32 out off = 0x19" "decode_segment out off = Some (SegmentCommand (decoded out sg))"
proof -
  note f = sub_bytes_sub [of _ _ 72 out off, unfolded assms(1)]
  have w: "rd32 out off = 0x19" "rd32 out (off + 4) = 72" "rd32 out (off + 64) = 0"
    using f [of 0 4] f [of 4 4] f [of 64 4] assms(2)
    by (simp_all add: rd32_sub segment_bytes_def u32_val LC_SEGMENT_64_def)
  have n: "sub_bytes out (off + 8) 16 = l_segname sg"
    using f [of 8 16] assms(2) by (simp add: segment_bytes_def)
  have d: "rd64 out (off + 24) = unat (l_vmaddr sg)" "rd64 out (off + 32) = unat (l_vmsize sg)"
    "rd64 out (off + 40) = unat (l_fileoff sg)" "rd64 out (off + 48) = unat (l_filesize sg)"
    using f [of 24 8] f [of 32 8] f [of 40 8] f [of 48 8] assms(2)
    by (simp_all add: rd64_sub segment_bytes_def u64_val)
  show "rd32 out off = 0x19" by (rule w(1))
  show "decode_segment out off = Some (SegmentCommand (decoded out sg))"
    using assms(3,4) by (simp add: decode_segment_def w n d decoded_def seg_start_def seg_size_def)
qed

lemma decode_commands_back:
  assumes "sub_bytes out off (72 * length sgs + 24) = concat (map segment_bytes sgs) @ main_bytes e"
    and "\<forall>sg \<in> set sgs. length (l_segname sg) = 16 \<and> utf8_valid (c_name (l_segname sg)) \<and>
      seg_start sg + seg_size sg \<le> length out"
  shows "decode_commands (length sgs + 1) off out =
    Some (map (\<lambda>sg. SegmentCommand (decoded out sg)) sgs @ [EntryCommand e])"
  using assms
proof (induction sgs arbitrary: off)
  case Nil
  then have m: "sub_bytes out off 24 = main_bytes e" by simp
  note f = sub_bytes_sub [of _ _ 24 out off, unfolded m]
  have "rd32 out off = 0x80000028" "rd32 out (off + 4) = 24" "rd64 out (off + 8) = unat e"
    using f [of 0 4] f [of 4 4] f [of 8 8] by (simp_all add: rd32_sub rd64_sub main_bytes_def u32_val u64_val LC_MAIN_def)
  then show ?case by simp
next
  case (Cons sg sgs)
  have l: "length (segment_bytes sg) = 72" using Cons.prems(2) by (simp add: length_segment_bytes)
  have a: "sub_bytes out off 72 = segment_bytes sg"
    using sub_bytes_sub [of 0 72 "72 * length (sg # sgs) + 24" out off] Cons.prems(1) l by simp
  have b: "sub_bytes out (off + 72) (72 * length sgs + 24) = concat (map segment_bytes sgs) @ main_bytes e"
    using sub_bytes_sub [of 72 "72 * length sgs + 24" "72 * length (sg # sgs) + 24" out off] Cons.prems(1) l
    by (simp add: sub_bytes_def)
  note ds = decode_segment_back [OF a] and ih = Cons.IH [OF b]
  show ?case using ds ih Cons.prems(2) by simp
qed

section \<open>The text segment\<close>

lemma text_base_none: "filter is_exec hs = [] \<Longrightarrow> text_base_of hs ls tb = tb"
  by (induction hs arbitrary: ls tb) (auto split: if_splits)

lemma decoded_text: "seg_name (decoded out (segment_layout j fo h)) = Some (ascii ''__TEXT'') \<longleftrightarrow> is_exec h"
  by (simp add: decoded_def segment_layout_def segment_name_text is_exec_def)

lemma single_text:
  assumes "laid fo hs i ls fin" "filter is_exec hs = [tx]"
  obtains lx j where "lx \<in> set ls" "lx = segment_layout j (l_fileoff lx) tx"
    "text_base_of hs ls tb = Some (p_vaddr tx, l_fileoff lx)"
    "\<And>out. find (\<lambda>s. seg_name s = Some (ascii ''__TEXT'')) (map (decoded out) ls) = Some (decoded out lx)"
proof -
  have "\<exists>lx j. lx \<in> set ls \<and> lx = segment_layout j (l_fileoff lx) tx \<and>
      text_base_of hs ls tb = Some (p_vaddr tx, l_fileoff lx) \<and>
      (\<forall>out. find (\<lambda>s. seg_name s = Some (ascii ''__TEXT'')) (map (decoded out) ls) = Some (decoded out lx))"
    using assms
  proof (induction fo hs i ls fin arbitrary: tb rule: laid.induct)
    case (2 fo h hs i l ls fin)
    have l: "l = segment_layout i (l_fileoff l) h"
      and rest: "laid (seg_start l + unat (p_filesz h)) hs (Suc i) ls fin" using "2.prems"(1) by auto
    have nm: "seg_name (decoded out l) = Some (ascii ''__TEXT'') \<longleftrightarrow> is_exec h" for out
      by (subst l) (rule decoded_text)
    show ?case
    proof (cases "is_exec h")
      case True
      with "2.prems"(2) have "tx = h" "filter is_exec hs = []" by auto
      with True l nm show ?thesis
        by (intro exI [of _ l] exI [of _ i]) (simp add: text_base_none)
    next
      case False
      with "2.IH" [OF rest] "2.prems"(2) nm show ?thesis by fastforce
    qed
  qed simp_all
  then show thesis using that by blast
qed

section \<open>The round trip\<close>

text \<open>An upper bound of the output size: commands and, for each segment, its bytes and one page of padding.\<close>

definition macho_bound :: "program_header list \<Rightarrow> nat" where
  "macho_bound hs = 72 * length hs + 56 + 4096 + sum_list (map (\<lambda>h. unat (p_filesz h) + 4096) hs)"

text \<open>A kernel the builder is meant for: at least one loadable segment, segment data inside the file,
  one executable segment, linked above the size of the output file, with the entry point
  not below it.\<close>

definition convertible :: "bytes \<Rightarrow> elf \<Rightarrow> bool" where
  "convertible elf_bytes e \<longleftrightarrow>
     length elf_bytes < 2 ^ 64 \<and> 72 * length (loadable e) + 24 < 2 ^ 32 \<and>
     list_all (\<lambda>h. unat (p_offset h) + unat (p_filesz h) \<le> length elf_bytes) (loadable e) \<and>
     (case filter is_exec (loadable e) of
        [tx] \<Rightarrow> macho_bound (loadable e) \<le> unat (p_vaddr tx) \<and> p_vaddr tx \<le> elf_entry e
      | _ \<Rightarrow> False)"

definition carries :: "bytes \<Rightarrow> program_header \<Rightarrow> mach_segment \<Rightarrow> bool" where
  "carries elf_bytes h sg \<longleftrightarrow>
     vmaddr sg = p_vaddr h \<and> vmsize sg = p_memsz h \<and> filesize sg = p_filesz h \<and>
     4096 dvd unat (fileoff sg) \<and> (seg_name sg = Some (ascii ''__TEXT'') \<longleftrightarrow> is_exec h) \<and>
     seg_data sg = take (unat (p_filesz h)) (drop (unat (p_offset h)) elf_bytes)"

lemma length_command_bytes:
  "\<forall>sg \<in> set sgs. length (l_segname sg) = 16 \<Longrightarrow> length (command_bytes sgs e) = 72 * length sgs + 56"
proof -
  assume a: "\<forall>sg \<in> set sgs. length (l_segname sg) = 16"
  then have "length (concat (map segment_bytes sgs)) = 72 * length sgs"
    by (induction sgs) (simp_all add: length_segment_bytes)
  then show ?thesis by (simp add: command_bytes_def length_header_bytes length_main_bytes)
qed

lemma laid_segname: "laid fo hs i ls fin \<Longrightarrow> l \<in> set ls \<Longrightarrow>
    length (l_segname l) = 16 \<and> utf8_valid (c_name (l_segname l))"
  by (erule (1) laid_header) (metis length_segment_name segment_name_utf8 mach_segment_layout.select_convs(1) segment_layout_def)

text \<open>The written file, for a given layout.\<close>

lemma written_file:
  fixes fo fin :: u64
  assumes ls: "laid (unat fo) hs 0 ls (unat fin)" and fo: "72 * length hs + 56 \<le> unat fo"
    and n: "72 * length hs + 24 < 2 ^ 32" and elf: "length elf_bytes < 2 ^ 64"
    and src: "list_all (\<lambda>h. unat (p_offset h) + unat (p_filesz h) \<le> length elf_bytes) hs"
  shows "\<exists>out. copy_segments_macho elf_bytes ls
      (command_bytes ls e @ replicate (unat fin - length (command_bytes ls e)) 0) = Ok out \<and>
    length out = unat fin \<and> sub_bytes out 0 (length (command_bytes ls e)) = command_bytes ls e \<and>
    (\<forall>l \<in> set ls. sub_bytes out (seg_start l) (seg_size l) = seg_source elf_bytes l)"
proof -
  let ?c = "command_bytes ls e"
  let ?m = "?c @ replicate (unat fin - length ?c) 0"
  note lf = laid_facts [OF ls]
  have c: "length ?c = 72 * length hs + 56"
    using laid_segname [OF ls] lf by (simp add: length_command_bytes)
  have m: "length ?m = unat fin" using c fo lf by simp
  have "in_range elf_bytes (unat fin) l" if l: "l \<in> set ls" for l
  proof -
    obtain j h where h: "h \<in> set hs" "l = segment_layout j (l_fileoff l) h" using laid_header [OF ls l] .
    have "l_source_offset l = p_offset h" "l_filesize l = p_filesz h"
      by (subst h(2), simp add: segment_layout_def)+
    moreover have "seg_start l + seg_size l \<le> unat fin" using lf l by blast
    ultimately show ?thesis using src h(1) by (simp add: in_range_def list_all_iff seg_size_def)
  qed
  moreover have "unat fin < 2 ^ 64" using unat_bound [of fin] by simp
  ultimately obtain out where out: "copy_segments_macho elf_bytes ls ?m = Ok out" "length out = unat fin"
    "\<forall>i < unat fin. outside ls i \<longrightarrow> out ! i = ?m ! i"
    "\<forall>l \<in> set ls. sub_bytes out (seg_start l) (seg_size l) = seg_source elf_bytes l"
    using copies_run [of ls elf_bytes ?m] lf elf unfolding m by blast
  have "out ! i = ?c ! i" if "i < length ?c" for i
  proof -
    have "outside ls i" using that c fo lf by (fastforce simp: outside_def)
    with out(3) that m show ?thesis by (simp add: nth_append)
  qed
  then have "sub_bytes out 0 (length ?c) = ?c" by (intro nth_equalityI) (simp_all add: sub_bytes_def)
  with out show ?thesis by blast
qed

text \<open>Reading the written file.\<close>

lemma written_decodes:
  assumes ls: "laid fo hs 0 ls fin" and n: "72 * length hs + 24 < 2 ^ 32"
    and out: "sub_bytes out 0 (length (command_bytes ls e)) = command_bytes ls e" "length out = fin"
      "72 * length hs + 56 \<le> fin"
    and ent: "entry_address (map (\<lambda>l. SegmentCommand (decoded out l)) ls @ [EntryCommand e]) = Some en"
  shows "decode_macho out = Some \<lparr>segments = map (decoded out) ls,
    load_commands = map (\<lambda>_. \<lparr>lc_cmd = LC_SEGMENT_64, lc_variant = OtherCommand\<rparr>) ls @
      [\<lparr>lc_cmd = LC_MAIN, lc_variant = MainCommand e\<rparr>], entry = en\<rparr>"
proof -
  note lf = laid_facts [OF ls]
  have len: "length ls = length hs" using lf by blast
  have c: "length (command_bytes ls e) = 72 * length ls + 56"
    using laid_segname [OF ls] by (simp add: length_command_bytes)
  note f = sub_bytes_sub [of _ _ "72 * length ls + 56" out 0, unfolded out(1) [unfolded c]]
  have small: "length hs + 1 < 2 ^ 32" using n by simp
  have h: "rd32 out 0 = 0xFEEDFACF" "rd32 out 16 = length hs + 1" "rd32 out 20 = 72 * length hs + 24"
    using f [of 0 4] f [of 16 4] f [of 20 4] n small len
    by (simp_all add: rd32_sub command_bytes_def header_bytes_def u32_val unat_of_nat
        del: of_nat_add of_nat_mult of_nat_Suc)
  have "sub_bytes out 32 (72 * length ls + 24) = concat (map segment_bytes ls) @ main_bytes e"
    using f [of 32 "72 * length ls + 24"] c by (simp add: command_bytes_def length_header_bytes length_main_bytes)
  then have d: "decode_commands (length hs + 1) 32 out =
      Some (map (\<lambda>l. SegmentCommand (decoded out l)) ls @ [EntryCommand e])"
    using decode_commands_back [of out 32 ls e] laid_segname [OF ls] lf out(2) len by auto
  have sz: "sum_list (map command_size (map (\<lambda>l. SegmentCommand (decoded out l)) ls @ [EntryCommand e])) =
      72 * length hs + 24"
    using len by (simp add: comp_def sum_list_triv)
  have mf: "List.map_filter segment_of (map (\<lambda>l. SegmentCommand (decoded out l)) ls @ [EntryCommand e]) =
      map (decoded out) ls"
    by (induction ls) simp_all
  show ?thesis
    unfolding decode_macho_def h d option.case sz mf using out(2,3) ent by (simp add: comp_def)
qed

lemma entry_of_text:
  assumes "find (\<lambda>s. seg_name s = Some (ascii ''__TEXT'')) (map (decoded out) ls) = Some (decoded out lx)"
    and "l_fileoff lx \<le> l_vmaddr lx" "l_vmaddr lx - l_fileoff lx \<le> en"
  shows "entry_address (map (\<lambda>l. SegmentCommand (decoded out l)) ls @
    [EntryCommand (en - (l_vmaddr lx - l_fileoff lx))]) = Some en"
proof -
  let ?b = "l_vmaddr lx - l_fileoff lx"
  have mf: "List.map_filter segment_of (map (\<lambda>l. SegmentCommand (decoded out l)) ls @ [EntryCommand (en - ?b)]) =
      map (decoded out) ls"
    by (induction ls) simp_all
  have me: "List.map_filter entryoff_of (map (\<lambda>l. SegmentCommand (decoded out l)) ls @ [EntryCommand (en - ?b)]) =
      [en - ?b]"
    by (induction ls) simp_all
  have "unat ?b + unat (en - ?b) < 2 ^ 64"
    using assms(3) unat_bound [of en] by (simp add: unat_sub_le word_le_nat_alt)
  then show ?thesis
    using assms by (simp add: entry_address_def mf me decoded_sel)
qed

lemma carries_decoded:
  assumes "sub_bytes out (seg_start l) (seg_size l) = seg_source elf_bytes l" "4096 dvd seg_start l"
    and "\<exists>j. l = segment_layout j (l_fileoff l) h"
  shows "carries elf_bytes h (decoded out l)"
proof -
  from assms(3) obtain j where l: "l = segment_layout j (l_fileoff l) h" by blast
  have sel: "l_vmaddr l = p_vaddr h" "l_vmsize l = p_memsz h" "l_filesize l = p_filesz h" "l_source_offset l = p_offset h"
    by (subst l, simp add: segment_layout_def)+
  have "seg_name (decoded out l) = Some (ascii ''__TEXT'') \<longleftrightarrow> is_exec h"
    by (subst l) (rule decoded_text)
  with assms(1,2) sel show ?thesis
    by (simp add: carries_def decoded_def seg_source_def seg_size_def seg_start_def)
qed

text \<open>The layout computed for a convertible file.\<close>

lemma converted_layout:
  assumes "convertible elf_bytes e"
  obtains sz fo ls fin lx and tx :: program_header where
    "sz = word_of_nat (length (loadable e) * 72 + 24)" "size_of_cmds (length (loadable e)) = Ok sz"
    "add_panic 32 sz = (Ok (32 + sz) :: (u64, io_error) res)" "align_usize (32 + sz) 0x1000 = Ok fo"
    "72 * length (loadable e) + 56 \<le> unat fo" "laid (unat fo) (loadable e) 0 ls (unat fin)"
    "layout_loop (loadable e) 0 fo None [] = Ok (ls, fin, Some (p_vaddr tx, l_fileoff lx))"
    "l_vmaddr lx = p_vaddr tx" "l_fileoff lx \<le> p_vaddr tx" "p_vaddr tx - l_fileoff lx \<le> elf_entry e"
    "\<forall>out. find (\<lambda>s. seg_name s = Some (ascii ''__TEXT'')) (map (decoded out) ls) = Some (decoded out lx)"
proof -
  let ?hs = "loadable e" and ?n = "length (loadable e)"
  obtain tx where tx: "filter is_exec ?hs = [tx]" "macho_bound ?hs \<le> unat (p_vaddr tx)" "p_vaddr tx \<le> elf_entry e"
    and n: "72 * ?n + 24 < 2 ^ 32"
    using assms by (auto simp: convertible_def split: list.splits)
  define sz :: u64 where "sz = word_of_nat (?n * 72 + 24)"
  have sz: "unat sz = ?n * 72 + 24" using n by (simp add: sz_def unat_of_nat del: of_nat_add of_nat_mult)
  have cmds: "size_of_cmds ?n = Ok sz"
    using n by (simp add: size_of_cmds_def sz_def SIZEOF_SEGMENT_COMMAND_64_def SIZEOF_ENTRY_POINT_COMMAND_def)
  have h: "add_panic 32 sz = (Ok (32 + sz) :: (u64, io_error) res)" "unat (32 + sz) = 72 * ?n + 56"
    using sz n by (simp_all add: add_panic_def checked_add_def unat_add_nowrap)
  obtain fo where fo: "align_usize (32 + sz) 0x1000 = Ok fo" "72 * ?n + 56 \<le> unat fo" "unat fo < 72 * ?n + 56 + 4096"
    using align_usize_ok [of "32 + sz"] h(2) n by auto
  have "unat fo + sum_list (map (\<lambda>h. unat (p_filesz h) + 4096) ?hs) < 2 ^ 64"
    using fo(3) tx(2) unat_bound [of "p_vaddr tx"] by (simp add: macho_bound_def)
  from layout_loop_run [OF this, of 0 None "[]"] obtain ls fin where
    ll: "layout_loop ?hs 0 fo None [] = Ok (ls, fin, text_base_of ?hs ls None)"
    and laid: "laid (unat fo) ?hs 0 ls (unat fin)"
    and fin: "unat fin \<le> unat fo + sum_list (map (\<lambda>h. unat (p_filesz h) + 4096) ?hs)" by auto
  from single_text [OF laid tx(1), of None] obtain lx j where
    lx: "lx \<in> set ls" "lx = segment_layout j (l_fileoff lx) tx"
      "text_base_of ?hs ls None = Some (p_vaddr tx, l_fileoff lx)"
      "\<forall>out. find (\<lambda>s. seg_name s = Some (ascii ''__TEXT'')) (map (decoded out) ls) = Some (decoded out lx)" by metis
  have va: "l_vmaddr lx = p_vaddr tx" by (subst lx(2)) (simp add: segment_layout_def)
  have "unat (l_fileoff lx) \<le> unat fin" using laid_facts [OF laid] lx(1) by (fastforce simp: seg_start_def)
  then have off: "l_fileoff lx \<le> p_vaddr tx" "p_vaddr tx - l_fileoff lx \<le> elf_entry e"
    using fin fo(3) tx(2,3) by (simp_all add: word_le_nat_alt macho_bound_def unat_sub_le)
  show thesis
    by (rule that [OF sz_def cmds h(1) fo(1,2) laid ll [unfolded lx(3)] va off lx(4)])
qed

lemma converted:
  assumes "ep elf_bytes = Ok e" "convertible elf_bytes e"
  shows "\<exists>out m. convert_bytes ep elf_bytes = Ok out \<and> decode_macho out = Some m \<and>
    entry m = elf_entry e \<and> list_all2 (carries elf_bytes) (loadable e) (segments m)"
proof -
  let ?hs = "loadable e" and ?n = "length (loadable e)"
  have c: "?hs \<noteq> []" "length elf_bytes < 2 ^ 64" "72 * ?n + 24 < 2 ^ 32"
    "list_all (\<lambda>h. unat (p_offset h) + unat (p_filesz h) \<le> length elf_bytes) ?hs"
    using assms(2) by (auto simp: convertible_def split: list.splits)
  obtain sz fo ls fin lx and tx :: program_header where l: "sz = word_of_nat (?n * 72 + 24)" "size_of_cmds ?n = Ok sz"
    "add_panic 32 sz = (Ok (32 + sz) :: (u64, io_error) res)" "align_usize (32 + sz) 0x1000 = Ok fo"
    "72 * ?n + 56 \<le> unat fo" and laid: "laid (unat fo) ?hs 0 ls (unat fin)"
    and ll: "layout_loop ?hs 0 fo None [] = Ok (ls, fin, Some (p_vaddr tx, l_fileoff lx))"
      "l_vmaddr lx = p_vaddr tx" "l_fileoff lx \<le> p_vaddr tx" "p_vaddr tx - l_fileoff lx \<le> elf_entry e"
      "\<forall>out. find (\<lambda>s. seg_name s = Some (ascii ''__TEXT'')) (map (decoded out) ls) = Some (decoded out lx)"
    by (rule converted_layout [OF assms(2)])
  define eo where "eo = elf_entry e - (l_vmaddr lx - l_fileoff lx)"
  have sub: "checked_sub (elf_entry e) (saturating_sub (p_vaddr tx) (l_fileoff lx)) = Some eo"
    using ll(3,4) by (simp add: saturating_sub_def checked_sub_def eo_def ll(2))
  have room: "72 * ?n + 56 \<le> unat fin" using l(5) laid_facts [OF laid] by simp
  then have wr: "wr_then (write_header (length ls) sz) (wr_then (write_segments ls) (write_main eo))
      (replicate (unat fin) 0, 0) = Ok (command_bytes ls eo @
        replicate (unat fin - length (command_bytes ls eo)) 0, length (command_bytes ls eo))"
    using command_writer [of ls eo "unat fin"] c(3) laid_segname [OF laid] laid_facts [OF laid]
    by (simp add: length_command_bytes l(1))
  from written_file [OF laid l(5) c(3,2,4), of eo] obtain out where
    out: "copy_segments_macho elf_bytes ls (command_bytes ls eo @
        replicate (unat fin - length (command_bytes ls eo)) 0) = Ok out" "length out = unat fin"
      "sub_bytes out 0 (length (command_bytes ls eo)) = command_bytes ls eo"
      "\<forall>l \<in> set ls. sub_bytes out (seg_start l) (seg_size l) = seg_source elf_bytes l" by blast
  have conv: "convert_bytes ep elf_bytes = Ok out"
    using c(1) by (simp add: convert_bytes_def assms(1) l(2-4) ll(1) sub wr out(1))
  have ent: "entry_address (map (\<lambda>l. SegmentCommand (decoded out l)) ls @ [EntryCommand eo]) = Some (elf_entry e)"
    unfolding eo_def by (rule entry_of_text [OF ll(5) [rule_format]]) (use ll in simp_all)
  have "list_all2 (carries elf_bytes) ?hs (map (decoded out) ls)"
    using laid_list_all2 [OF laid] out(4) by (simp add: list_all2_conv_all_nth carries_decoded)
  with conv written_decodes [OF laid c(3) out(3,2) room ent] show ?thesis by auto
qed

text \<open>C13: the image builder's Mach-O file is the kernel it was given. For every convertible ELF file the
  conversion succeeds, and read by the Mach-O format the output has one segment per loadable
  program header, in order, with its address, memory size and exactly its bytes, at page-aligned
  file offsets; the executable segment is the one named \<open>__TEXT\<close>, and the entry address computed from
  \<open>LC_MAIN\<close> is the ELF entry point.\<close>

theorem converted_kernel_reads_back:
  assumes "ep elf_bytes = Ok e" "convertible elf_bytes e"
  shows "\<exists>out m. convert_bytes ep elf_bytes = Ok out \<and> decode_macho out = Some m \<and>
    entry m = elf_entry e \<and> list_all2 (carries elf_bytes) (loadable e) (segments m)"
  using assms by (rule converted)

text \<open>A two-segment kernel: code at \<open>0x40080000\<close> and zero-extended data.\<close>

definition sample_elf :: elf where
  "sample_elf = \<lparr>elf_entry = 0x40080004, program_headers =
     [\<lparr>p_type = 6, p_flags = 4, p_offset = 0, p_vaddr = 0, p_filesz = 0, p_memsz = 0\<rparr>,
      \<lparr>p_type = 1, p_flags = 5, p_offset = 1, p_vaddr = 0x40080000, p_filesz = 8, p_memsz = 8\<rparr>,
      \<lparr>p_type = 1, p_flags = 6, p_offset = 9, p_vaddr = 0x40081000, p_filesz = 2, p_memsz = 0x100\<rparr>]\<rparr>"

definition sample_elf_bytes :: bytes where
  "sample_elf_bytes = [0x7F, 1, 2, 3, 4, 5, 6, 7, 8, 0xAA, 0xBB]"

lemma sample_elf_convertible: "convertible sample_elf_bytes sample_elf"
  by (simp add: convertible_def sample_elf_def sample_elf_bytes_def loadable_def PT_LOAD_def is_exec_def macho_bound_def)

theorem converted_kernel_reads_back_witness:
  "\<exists>out m. convert_bytes (\<lambda>_. Ok sample_elf) sample_elf_bytes = Ok out \<and> decode_macho out = Some m \<and>
    entry m = 0x40080004 \<and> map seg_data (segments m) = [[1, 2, 3, 4, 5, 6, 7, 8], [0xAA, 0xBB]]"
proof -
  let ?ep = "\<lambda>_. Ok sample_elf"
  from converted_kernel_reads_back [of ?ep sample_elf_bytes, OF refl sample_elf_convertible] obtain out m where
    "convert_bytes ?ep sample_elf_bytes = Ok out" "decode_macho out = Some m" "entry m = elf_entry sample_elf"
    "list_all2 (carries sample_elf_bytes) (loadable sample_elf) (segments m)" by blast
  then show ?thesis
    by (auto simp: sample_elf_def loadable_def PT_LOAD_def list_all2_Cons1 carries_def sample_elf_bytes_def)
qed

end
