(* ===== verification/Partition_Io.thy ===== *)
theory Partition_Io
  imports Macho_Writer
begin

text \<open>
  \<open>PartitionIo\<close> of \<open>xtask/src/main.rs\<close>: a window \<open>[base, base + len)\<close> of a backing file presented as a file
  of its own to the FAT formatter. The backing object \<open>T: Read + Write + Seek\<close> is a record of
  operations; the locale \<open>block_store\<close> states what such an object promises (short transfers and
  errors included), \<open>std_file\<close> is \<open>std::fs::File\<close>, and both the file and the partition over
  it are shown to satisfy the contract: the partition is again such an object.
\<close>

section \<open>Backing objects\<close>

type_synonym ('a, 's) io = "'s \<Rightarrow> ('a, io_error) res \<times> 's"

fun io_then :: "('a, 's) io \<Rightarrow> ('a \<Rightarrow> ('b, 's) io) \<Rightarrow> ('b, 's) io" where
  "io_then m k s =
     (case m s of
        (Ok a, s') \<Rightarrow> k a s'
      | (Err e, s') \<Rightarrow> (Err e, s')
      | (Panic, s') \<Rightarrow> (Panic, s')
      | (Diverge, s') \<Rightarrow> (Diverge, s'))"

definition io_res :: "('a, io_error) res \<Rightarrow> ('a, 's) io" where
  "io_res r s = (r, s)"

text \<open>A relative offset is an \<open>i64\<close>, read from its 64 bits by \<open>sint\<close>.\<close>

type_synonym i64 = "64 word"

datatype seek_from = SeekStart u64 | SeekCurrent i64 | SeekEnd i64

text \<open>\<open>st_read n\<close> is \<open>read\<close> into a buffer of \<open>n\<close> bytes and gives the bytes read; \<open>st_write\<close> gives the
  number of bytes written.\<close>

record 's store_ops =
  st_seek :: "seek_from \<Rightarrow> (u64, 's) io"
  st_read :: "nat \<Rightarrow> (bytes, 's) io"
  st_write :: "bytes \<Rightarrow> (nat, 's) io"
  st_flush :: "(unit, 's) io"

section \<open>The partition\<close>

record 's partition_io =
  inner :: 's
  pbase :: u64
  plen :: u64
  ppos :: u64

definition PartitionIo_new :: "'s \<Rightarrow> u64 \<Rightarrow> u64 \<Rightarrow> 's partition_io" where
  "PartitionIo_new i base len = \<lparr>inner = i, pbase = base, plen = len, ppos = 0\<rparr>"

definition on_inner :: "('a, 's) io \<Rightarrow> ('a, 's partition_io) io" where
  "on_inner m p = (let (r, i) = m (inner p) in (r, p\<lparr>inner := i\<rparr>))"

definition advance :: "nat \<Rightarrow> (unit, 's partition_io) io" where
  "advance n p =
     (case add_panic (ppos p) (word_of_nat n) of
        Ok q \<Rightarrow> (Ok (), p\<lparr>ppos := q\<rparr>)
      | Err e \<Rightarrow> (Err e, p)
      | Panic \<Rightarrow> (Panic, p)
      | Diverge \<Rightarrow> (Diverge, p))"

definition partition_read :: "'s store_ops \<Rightarrow> nat \<Rightarrow> (bytes, 's partition_io) io" where
  "partition_read ops buf_len p =
     (if ppos p \<ge> plen p then (Ok [], p)
      else
        let remaining = plen p - ppos p; count = min (unat remaining) buf_len in
        io_then (io_res (add_panic (pbase p) (ppos p))) (\<lambda>a.
        io_then (on_inner (st_seek ops (SeekStart a))) (\<lambda>_.
        io_then (on_inner (st_read ops count)) (\<lambda>bs.
        io_then (advance (length bs)) (\<lambda>_. io_res (Ok bs))))) p)"

definition partition_write :: "'s store_ops \<Rightarrow> bytes \<Rightarrow> (nat, 's partition_io) io" where
  "partition_write ops buf p =
     (if ppos p \<ge> plen p then (Ok 0, p)
      else
        let remaining = plen p - ppos p; count = min (unat remaining) (length buf) in
        io_then (io_res (add_panic (pbase p) (ppos p))) (\<lambda>a.
        io_then (on_inner (st_seek ops (SeekStart a))) (\<lambda>_.
        io_then (on_inner (st_write ops (take count buf))) (\<lambda>written.
        io_then (advance written) (\<lambda>_. io_res (Ok written))))) p)"

definition partition_flush :: "'s store_ops \<Rightarrow> (unit, 's partition_io) io" where
  "partition_flush ops = on_inner (st_flush ops)"

definition seek_by :: "u64 \<Rightarrow> i64 \<Rightarrow> (u64, io_error) res" where
  "seek_by from delta =
     ok_or (if sint delta \<ge> 0 then checked_add from delta else checked_sub from (- delta))
       (IoError InvalidInput ''seek outside partition'')"

definition partition_seek :: "seek_from \<Rightarrow> (u64, 's partition_io) io" where
  "partition_seek pos p =
     io_then (io_res
       (case pos of
          SeekStart off \<Rightarrow> Ok off
        | SeekCurrent delta \<Rightarrow> seek_by (ppos p) delta
        | SeekEnd delta \<Rightarrow> seek_by (plen p) delta)) (\<lambda>next p.
     if next > plen p then (Err (IoError InvalidInput ''seek outside partition''), p)
     else (Ok next, p\<lparr>ppos := next\<rparr>)) p"

definition partition_ops :: "'s store_ops \<Rightarrow> 's partition_io store_ops" where
  "partition_ops ops = \<lparr>st_seek = partition_seek, st_read = partition_read ops,
     st_write = partition_write ops, st_flush = partition_flush ops\<rparr>"

section \<open>\<open>std::fs::File\<close>\<close>

text \<open>Data and position; \<open>cap n\<close> bounds how much of a request for \<open>n\<close> bytes one call transfers.
  Writing past the end fills the gap with zeros.\<close>

record std_file =
  f_data :: bytes
  f_pos :: u64

definition file_seek :: "seek_from \<Rightarrow> (u64, std_file) io" where
  "file_seek pos f =
     (case (case pos of
        SeekStart off \<Rightarrow> Some off
      | SeekCurrent d \<Rightarrow> (if sint d \<ge> 0 then checked_add (f_pos f) d else checked_sub (f_pos f) (- d))
      | SeekEnd d \<Rightarrow> (if sint d \<ge> 0 then checked_add (word_of_nat (length (f_data f))) d
          else checked_sub (word_of_nat (length (f_data f))) (- d))) of
        Some q \<Rightarrow> (Ok q, f\<lparr>f_pos := q\<rparr>)
      | None \<Rightarrow> (Err (IoError InvalidInput ''invalid seek''), f))"

definition file_read :: "(nat \<Rightarrow> nat) \<Rightarrow> nat \<Rightarrow> (bytes, std_file) io" where
  "file_read cap n f =
     (let bs = take (min n (cap n)) (drop (unat (f_pos f)) (f_data f))
      in (Ok bs, f\<lparr>f_pos := f_pos f + word_of_nat (length bs)\<rparr>))"

definition file_write :: "(nat \<Rightarrow> nat) \<Rightarrow> bytes \<Rightarrow> (nat, std_file) io" where
  "file_write cap bs f =
     (let k = min (length bs) (cap (length bs)); a = unat (f_pos f) in
      if a + k < 2 ^ 64 then
        (Ok k, f\<lparr>f_data := take a (f_data f @ replicate (a - length (f_data f)) 0) @ take k bs @ drop (a + k) (f_data f),
                 f_pos := f_pos f + word_of_nat k\<rparr>)
      else (Err (Foreign 1), f))"

definition file_flush :: "(unit, std_file) io" where
  "file_flush f = (Ok (), f)"

definition file_ops :: "(nat \<Rightarrow> nat) \<Rightarrow> std_file store_ops" where
  "file_ops cap = \<lparr>st_seek = file_seek, st_read = file_read cap, st_write = file_write cap, st_flush = file_flush\<rparr>"

section \<open>The contract\<close>

definition overwrite :: "nat \<Rightarrow> bytes \<Rightarrow> (nat \<Rightarrow> u8) \<Rightarrow> nat \<Rightarrow> u8" where
  "overwrite a bs m i = (if a \<le> i \<and> i < a + length bs then bs ! (i - a) else m i)"

lemma overwrite_Nil [simp]: "overwrite a [] m = m"
  by (auto simp: overwrite_def fun_eq_iff)

locale block_store =
  fixes ops :: "'s store_ops" and inv :: "'s \<Rightarrow> bool" and content :: "'s \<Rightarrow> nat \<Rightarrow> u8" and pos :: "'s \<Rightarrow> nat"
  assumes seek_law: "inv s \<Longrightarrow> st_seek ops sf s = (rs, s') \<Longrightarrow> inv s' \<and> content s' = content s \<and> returns rs \<and>
      (\<forall>q. rs = Ok q \<longrightarrow> pos s' = unat q \<and> (\<forall>off. sf = SeekStart off \<longrightarrow> q = off))"
    and read_law: "inv s \<Longrightarrow> st_read ops n s = (rr, s') \<Longrightarrow> inv s' \<and> content s' = content s \<and> returns rr \<and>
      (\<forall>bs. rr = Ok bs \<longrightarrow> length bs \<le> n \<and> pos s' = pos s + length bs \<and>
        bs = map (content s) [pos s..<pos s + length bs])"
    and write_law: "inv s \<Longrightarrow> st_write ops bs s = (rw, s') \<Longrightarrow> inv s' \<and> returns rw \<and>
      (\<forall>i. i < pos s \<or> pos s + length bs \<le> i \<longrightarrow> content s' i = content s i) \<and>
      (\<forall>k. rw = Ok k \<longrightarrow> k \<le> length bs \<and> pos s' = pos s + k \<and> content s' = overwrite (pos s) (take k bs) (content s))"
    and flush_law: "inv s \<Longrightarrow> st_flush ops s = (rf, s') \<Longrightarrow> inv s' \<and> content s' = content s \<and> returns rf"
begin

definition part_inv :: "'s partition_io \<Rightarrow> bool" where
  "part_inv p \<longleftrightarrow> inv (inner p) \<and> unat (pbase p) + unat (plen p) < 2 ^ 64 \<and> ppos p \<le> plen p"

definition part_content :: "'s partition_io \<Rightarrow> nat \<Rightarrow> u8" where
  "part_content p i = (if i < unat (plen p) then content (inner p) (unat (pbase p) + i) else 0)"

definition part_pos :: "'s partition_io \<Rightarrow> nat" where
  "part_pos p = unat (ppos p)"

text \<open>What an operation on the partition leaves alone: its bounds, and the backing content outside them.\<close>

definition keeps_out :: "'s partition_io \<Rightarrow> 's partition_io \<Rightarrow> bool" where
  "keeps_out p p' \<longleftrightarrow> pbase p' = pbase p \<and> plen p' = plen p \<and>
     (\<forall>i. i < unat (pbase p) \<or> unat (pbase p) + unat (plen p) \<le> i \<longrightarrow> content (inner p') i = content (inner p) i)"

lemma advance_ok:
  assumes "part_inv p" "n \<le> unat (plen p) - unat (ppos p)"
  shows "add_panic (ppos p) (word_of_nat n) = (Ok (ppos p + word_of_nat n) :: (u64, io_error) res)"
    "unat (ppos p + word_of_nat n) = unat (ppos p) + n" "ppos p + word_of_nat n \<le> plen p"
proof -
  have le: "unat (ppos p) \<le> unat (plen p)" using assms(1) by (simp add: part_inv_def word_le_nat_alt)
  have n: "unat (word_of_nat n :: u64) = n" using assms(2) unat_bound [of "plen p"] by (simp add: unat_of_nat)
  have "unat (ppos p) + n \<le> unat (plen p)" using assms(2) le by simp
  then have lt: "unat (ppos p) + unat (word_of_nat n :: u64) < 2 ^ 64"
    using unat_bound [of "plen p"] by (simp add: n)
  show u: "unat (ppos p + word_of_nat n) = unat (ppos p) + n" using lt n by (simp add: unat_add_nowrap)
  show "add_panic (ppos p) (word_of_nat n) = (Ok (ppos p + word_of_nat n) :: (u64, io_error) res)"
    using lt by (simp add: add_panic_def checked_add_def)
  show "ppos p + word_of_nat n \<le> plen p"
    using \<open>unat (ppos p) + n \<le> unat (plen p)\<close> u by (simp add: word_le_nat_alt)
qed

lemma base_ok:
  assumes "part_inv p" "ppos p < plen p"
  shows "add_panic (pbase p) (ppos p) = (Ok (pbase p + ppos p) :: (u64, io_error) res)"
    "unat (pbase p + ppos p) = unat (pbase p) + unat (ppos p)"
  using assms by (simp_all add: part_inv_def word_less_nat_alt add_panic_def checked_add_def unat_add_nowrap)

text \<open>One transfer: after the seek, \<open>m\<close> runs on the backing object at \<open>base + pos\<close>.\<close>

lemma transfer_run:
  assumes i: "part_inv p" and lt: "ppos p < plen p"
    and sk: "st_seek ops (SeekStart (pbase p + ppos p)) (inner p) = (q, s1)" and m: "m s1 = (b, s2)"
    and b: "\<And>v. b = Ok v \<Longrightarrow> f v \<le> unat (plen p) - unat (ppos p)"
  shows "io_then (io_res (add_panic (pbase p) (ppos p))) (\<lambda>a.
      io_then (on_inner (st_seek ops (SeekStart a))) (\<lambda>_. io_then (on_inner m) (\<lambda>v.
      io_then (advance (f v)) (\<lambda>_. io_res (Ok v))))) p =
    (case q of
       Ok _ \<Rightarrow> (case b of Ok v \<Rightarrow> (Ok v, p\<lparr>inner := s2, ppos := ppos p + word_of_nat (f v)\<rparr>)
          | Err e \<Rightarrow> (Err e, p\<lparr>inner := s2\<rparr>) | Panic \<Rightarrow> (Panic, p\<lparr>inner := s2\<rparr>) | Diverge \<Rightarrow> (Diverge, p\<lparr>inner := s2\<rparr>))
     | Err e \<Rightarrow> (Err e, p\<lparr>inner := s1\<rparr>) | Panic \<Rightarrow> (Panic, p\<lparr>inner := s1\<rparr>) | Diverge \<Rightarrow> (Diverge, p\<lparr>inner := s1\<rparr>))"
proof -
  have "advance (f v) (p\<lparr>inner := s2\<rparr>) = (Ok (), p\<lparr>inner := s2, ppos := ppos p + word_of_nat (f v)\<rparr>)" if "b = Ok v" for v
    using advance_ok(1) [OF i b [OF that]] by (simp add: advance_def)
  with base_ok(1) [OF i lt] show ?thesis
    by (simp add: io_res_def on_inner_def sk m split: res.splits)
qed

text \<open>The state after a transfer of \<open>n\<close> bytes keeps the invariant.\<close>

lemma part_inv_step:
  assumes "part_inv p" "inv s" "n \<le> unat (plen p) - unat (ppos p)"
  shows "part_inv (p\<lparr>inner := s, ppos := ppos p + word_of_nat n\<rparr>)" "part_inv (p\<lparr>inner := s\<rparr>)"
    "part_pos (p\<lparr>inner := s, ppos := ppos p + word_of_nat n\<rparr>) = part_pos p + n"
  using assms advance_ok(2,3) [OF assms(1,3)] by (simp_all add: part_inv_def part_pos_def)

lemma part_same:
  assumes "content s = content (inner p)"
  shows "part_content (p\<lparr>inner := s, ppos := x\<rparr>) = part_content p" "part_content (p\<lparr>inner := s\<rparr>) = part_content p"
    "keeps_out p (p\<lparr>inner := s, ppos := x\<rparr>)" "keeps_out p (p\<lparr>inner := s\<rparr>)"
  using assms by (simp_all add: part_content_def fun_eq_iff keeps_out_def)

lemma window_map:
  assumes "n \<le> unat (plen p) - unat (ppos p)"
  shows "map (content (inner p)) [unat (pbase p) + unat (ppos p)..<unat (pbase p) + unat (ppos p) + n] =
    map (part_content p) [part_pos p..<part_pos p + n]"
  using assms by (intro nth_equalityI) (auto simp: part_content_def part_pos_def add.assoc)

lemma partition_read_law:
  assumes i: "part_inv p" and r: "partition_read ops n p = (r, p')"
  shows "part_inv p' \<and> part_content p' = part_content p \<and> keeps_out p p' \<and> returns r \<and>
    (\<forall>bs. r = Ok bs \<longrightarrow> length bs \<le> n \<and> part_pos p' = part_pos p + length bs \<and>
        bs = map (part_content p) [part_pos p..<part_pos p + length bs]) \<and>
    (\<forall>e. r = Err e \<longrightarrow> part_pos p' = part_pos p)"
proof (cases "ppos p < plen p")
  case False
  then have "plen p \<le> ppos p" by simp
  then show ?thesis using i r by (auto simp: partition_read_def keeps_out_def)
next
  case True
  let ?c = "min (unat (plen p - ppos p)) n"
  from True have nle: "(plen p \<le> ppos p) = False" by simp
  have inn: "inv (inner p)" using i by (simp add: part_inv_def)
  have rem: "unat (plen p - ppos p) = unat (plen p) - unat (ppos p)" using True by (simp add: unat_sub_le)
  obtain q s1 where sk: "st_seek ops (SeekStart (pbase p + ppos p)) (inner p) = (q, s1)" by force
  note sl = seek_law [OF inn sk]
  obtain b s2 where rd: "st_read ops ?c s1 = (b, s2)" by force
  have s1: "inv s1" "content s1 = content (inner p)" "returns q" using sl by blast+
  note rl = read_law [OF s1(1) rd]
  have s2: "inv s2" "content s2 = content (inner p)" "returns b" using rl s1 by simp_all
  have lb: "length v \<le> ?c" if "b = Ok v" for v using rl that by blast
  then have lb': "length v \<le> unat (plen p) - unat (ppos p)" if "b = Ok v" for v
    using lb [OF that] rem by simp
  note run = transfer_run [where f = length and m = "st_read ops ?c", OF i True sk rd lb']
  have out: "(r, p') = (case q of
       Ok _ \<Rightarrow> (case b of Ok v \<Rightarrow> (Ok v, p\<lparr>inner := s2, ppos := ppos p + word_of_nat (length v)\<rparr>)
          | Err e \<Rightarrow> (Err e, p\<lparr>inner := s2\<rparr>) | Panic \<Rightarrow> (Panic, p\<lparr>inner := s2\<rparr>) | Diverge \<Rightarrow> (Diverge, p\<lparr>inner := s2\<rparr>))
     | Err e \<Rightarrow> (Err e, p\<lparr>inner := s1\<rparr>) | Panic \<Rightarrow> (Panic, p\<lparr>inner := s1\<rparr>) | Diverge \<Rightarrow> (Diverge, p\<lparr>inner := s1\<rparr>))"
    using r run nle by (simp only: partition_read_def Let_def if_False)
  show ?thesis
  proof (cases "\<exists>x v. q = Ok x \<and> b = Ok v")
    case True
    then obtain x v where qv: "q = Ok x" "b = Ok v" by blast
    have eq: "r = Ok v" "p' = p\<lparr>inner := s2, ppos := ppos p + word_of_nat (length v)\<rparr>" using out qv by simp_all
    have "pos s1 = unat (pbase p) + unat (ppos p)"
      using sl qv(1) base_ok(2) [OF i \<open>ppos p < plen p\<close>] by auto
    moreover have "v = map (content s1) [pos s1..<pos s1 + length v]" using rl qv(2) by blast
    ultimately have "v = map (part_content p) [part_pos p..<part_pos p + length v]"
      using window_map [OF lb' [OF qv(2)]] s1(2) by simp
    then show ?thesis
      using eq part_inv_step [OF i s2(1) lb' [OF qv(2)]] part_same [OF s2(2)] lb [OF qv(2)] by simp
  next
    case False
    then show ?thesis
      using out s1(3) s2(3) part_inv_step(2) [OF i s1(1), of 0] part_inv_step(2) [OF i s2(1), of 0]
        part_same [OF s1(2)] part_same [OF s2(2)]
      by (auto simp: part_pos_def split: res.splits)
  qed
qed

text \<open>Content of the window and of the rest after bytes were written inside it.\<close>

lemma part_written:
  assumes "unat (ppos p) + n \<le> unat (plen p)"
    and "\<And>i. i < unat (pbase p) + unat (ppos p) \<or> unat (pbase p) + unat (ppos p) + n \<le> i \<Longrightarrow>
      content s i = content (inner p) i"
  shows "keeps_out p (p\<lparr>inner := s\<rparr>)" "keeps_out p (p\<lparr>inner := s, ppos := x\<rparr>)"
    "i < part_pos p \<or> part_pos p + n \<le> i \<Longrightarrow> part_content (p\<lparr>inner := s\<rparr>) i = part_content p i"
proof -
  have out: "content s i = content (inner p) i" if "i < unat (pbase p) \<or> unat (pbase p) + unat (plen p) \<le> i" for i
    using that assms(1) by (intro assms(2)) auto
  then show "keeps_out p (p\<lparr>inner := s\<rparr>)" "keeps_out p (p\<lparr>inner := s, ppos := x\<rparr>)"
    by (auto simp: keeps_out_def)
  show "part_content (p\<lparr>inner := s\<rparr>) i = part_content p i" if "i < part_pos p \<or> part_pos p + n \<le> i"
    using assms(2) [of "unat (pbase p) + i"] that by (auto simp: part_content_def part_pos_def)
qed

lemma part_overwritten:
  assumes "content s = overwrite (unat (pbase p) + unat (ppos p)) bs (content (inner p))"
    and "length bs \<le> unat (plen p) - unat (ppos p)"
  shows "part_content (p\<lparr>inner := s, ppos := x\<rparr>) = overwrite (part_pos p) bs (part_content p)"
proof
  fix i
  show "part_content (p\<lparr>inner := s, ppos := x\<rparr>) i = overwrite (part_pos p) bs (part_content p) i"
    using assms(2) by (auto simp: part_content_def overwrite_def assms(1) part_pos_def)
qed

lemma partition_write_law:
  assumes i: "part_inv p" and r: "partition_write ops bs p = (r, p')"
  shows "part_inv p' \<and> keeps_out p p' \<and> returns r \<and>
    (\<forall>i. i < part_pos p \<or> part_pos p + length bs \<le> i \<longrightarrow> part_content p' i = part_content p i) \<and>
    (\<forall>k. r = Ok k \<longrightarrow> k \<le> length bs \<and> part_pos p' = part_pos p + k \<and>
       part_content p' = overwrite (part_pos p) (take k bs) (part_content p)) \<and>
    (\<forall>e. r = Err e \<longrightarrow> part_pos p' = part_pos p)"
proof (cases "ppos p < plen p")
  case False
  then have "plen p \<le> ppos p" by simp
  then show ?thesis using i r by (auto simp: partition_write_def keeps_out_def overwrite_def)
next
  case True
  let ?c = "min (unat (plen p - ppos p)) (length bs)"
  from True have nle: "(plen p \<le> ppos p) = False" by simp
  have inn: "inv (inner p)" using i by (simp add: part_inv_def)
  have rem: "unat (plen p - ppos p) = unat (plen p) - unat (ppos p)" using True by (simp add: unat_sub_le)
  obtain q s1 where sk: "st_seek ops (SeekStart (pbase p + ppos p)) (inner p) = (q, s1)" by force
  note sl = seek_law [OF inn sk]
  obtain b s2 where wr: "st_write ops (take ?c bs) s1 = (b, s2)" by force
  have s1: "inv s1" "content s1 = content (inner p)" "returns q" using sl by blast+
  note wl = write_law [OF s1(1) wr]
  have c: "?c \<le> unat (plen p) - unat (ppos p)" "length (take ?c bs) = ?c" using rem by simp_all
  have lb: "v \<le> ?c" if "b = Ok v" for v using wl that c(2) by auto
  have lb': "v \<le> unat (plen p) - unat (ppos p)" if "b = Ok v" for v
    by (rule le_trans [OF lb [OF that] c(1)])
  note run = transfer_run [where f = "\<lambda>v. v" and m = "st_write ops (take ?c bs)", OF i True sk wr lb']
  have out: "(r, p') = (case q of
       Ok _ \<Rightarrow> (case b of Ok v \<Rightarrow> (Ok v, p\<lparr>inner := s2, ppos := ppos p + word_of_nat v\<rparr>)
          | Err e \<Rightarrow> (Err e, p\<lparr>inner := s2\<rparr>) | Panic \<Rightarrow> (Panic, p\<lparr>inner := s2\<rparr>) | Diverge \<Rightarrow> (Diverge, p\<lparr>inner := s2\<rparr>))
     | Err e \<Rightarrow> (Err e, p\<lparr>inner := s1\<rparr>) | Panic \<Rightarrow> (Panic, p\<lparr>inner := s1\<rparr>) | Diverge \<Rightarrow> (Diverge, p\<lparr>inner := s1\<rparr>))"
    using r run nle by (simp only: partition_write_def Let_def if_False)
  have at: "pos s1 = unat (pbase p) + unat (ppos p)" if "q = Ok x" for x
    using sl that base_ok(2) [OF i True] by auto
  have lim: "unat (ppos p) + ?c \<le> unat (plen p)" using c(1) True by (simp add: word_less_nat_alt)
  show ?thesis
  proof (cases q)
    case (Ok x)
    note a = at [OF Ok]
    have io: "content s2 i = content (inner p) i"
      if "i < unat (pbase p) + unat (ppos p) \<or> unat (pbase p) + unat (ppos p) + ?c \<le> i" for i
      using wl that c(2) s1(2) a by auto
    note w = part_written [OF lim, of s2, OF io]
    have cc: "i < part_pos p \<or> part_pos p + ?c \<le> i" if "i < part_pos p \<or> part_pos p + length bs \<le> i" for i
      using that by auto
    show ?thesis
    proof (cases b)
      case v: (Ok v)
      have eq: "r = Ok v" "p' = p\<lparr>inner := s2, ppos := ppos p + word_of_nat v\<rparr>" using out Ok v by simp_all
      have "content s2 = overwrite (unat (pbase p) + unat (ppos p)) (take v (take ?c bs)) (content (inner p))"
        using wl v a s1(2) by simp
      moreover have "take v (take ?c bs) = take v bs" using lb [OF v] by (simp add: min_def)
      ultimately have "part_content p' = overwrite (part_pos p) (take v bs) (part_content p)"
        using part_overwritten [of s2 p "take v bs" "ppos p + word_of_nat v"] lb' [OF v] by (simp add: eq(2))
      moreover have "v \<le> length bs" using lb [OF v] by simp
      ultimately show ?thesis
        using part_inv_step [OF i _ lb' [OF v]] wl w(2) eq by (auto simp: overwrite_def)
    next
      case (Err e)
      then have "r = Err e" "p' = p\<lparr>inner := s2\<rparr>" using out Ok by simp_all
      then show ?thesis using part_inv_step(2) [OF i, of s2 0] wl w(1,3) cc by (auto simp: part_pos_def)
    qed (use wl in simp_all)
  next
    case (Err e)
    then have "r = Err e" "p' = p\<lparr>inner := s1\<rparr>" using out by simp_all
    then show ?thesis using part_inv_step(2) [OF i s1(1), of 0] part_same [OF s1(2)] by (simp add: part_pos_def)
  qed (use s1(3) in simp_all)
qed

lemma partition_seek_law:
  assumes "part_inv p" "partition_seek sf p = (r, p')"
  shows "part_inv p' \<and> part_content p' = part_content p \<and> keeps_out p p' \<and> returns r \<and>
    (\<forall>q. r = Ok q \<longrightarrow> part_pos p' = unat q \<and> (\<forall>off. sf = SeekStart off \<longrightarrow> q = off))"
  using assms
  by (auto simp: partition_seek_def io_res_def seek_by_def part_inv_def part_content_def part_pos_def keeps_out_def
      ok_or_def fun_eq_iff split: seek_from.splits res.splits if_splits option.splits)

lemma partition_flush_law:
  assumes "part_inv p" "partition_flush ops p = (r, p')"
  shows "part_inv p' \<and> part_content p' = part_content p \<and> keeps_out p p' \<and> returns r"
proof -
  obtain f s where f: "st_flush ops (inner p) = (f, s)" by force
  have i: "inv (inner p)" using assms(1) by (simp add: part_inv_def)
  have "r = f" "p' = p\<lparr>inner := s\<rparr>" using assms(2) by (simp_all add: partition_flush_def on_inner_def f)
  then show ?thesis
    using flush_law [OF i f] part_same [of s p] part_inv_step(2) [OF assms(1), of s 0] by simp
qed

text \<open>The partition is itself a backing object, for the window's content.\<close>

lemma partition_is_store: "block_store (partition_ops ops) part_inv part_content part_pos"
proof (rule block_store.intro)
  fix s sf rs s'
  assume "part_inv s" "st_seek (partition_ops ops) sf s = (rs, s')"
  then show "part_inv s' \<and> part_content s' = part_content s \<and> returns rs \<and>
      (\<forall>q. rs = Ok q \<longrightarrow> part_pos s' = unat q \<and> (\<forall>off. sf = SeekStart off \<longrightarrow> q = off))"
    using partition_seek_law [of s sf rs s'] by (simp add: partition_ops_def)
next
  fix s n rr s'
  assume "part_inv s" "st_read (partition_ops ops) n s = (rr, s')"
  then show "part_inv s' \<and> part_content s' = part_content s \<and> returns rr \<and>
      (\<forall>bs. rr = Ok bs \<longrightarrow> length bs \<le> n \<and> part_pos s' = part_pos s + length bs \<and>
        bs = map (part_content s) [part_pos s..<part_pos s + length bs])"
    using partition_read_law [of s n rr s'] unfolding partition_ops_def store_ops.simps by blast
next
  fix s bs rw s'
  assume "part_inv s" "st_write (partition_ops ops) bs s = (rw, s')"
  then show "part_inv s' \<and> returns rw \<and>
      (\<forall>i. i < part_pos s \<or> part_pos s + length bs \<le> i \<longrightarrow> part_content s' i = part_content s i) \<and>
      (\<forall>k. rw = Ok k \<longrightarrow> k \<le> length bs \<and> part_pos s' = part_pos s + k \<and>
        part_content s' = overwrite (part_pos s) (take k bs) (part_content s))"
    using partition_write_law [of s bs rw s'] unfolding partition_ops_def store_ops.simps by blast
next
  fix s rf s'
  assume "part_inv s" "st_flush (partition_ops ops) s = (rf, s')"
  then show "part_inv s' \<and> part_content s' = part_content s \<and> returns rf"
    using partition_flush_law [of s rf s'] by (simp add: partition_ops_def)
qed

lemma new_part_inv:
  "inv s \<Longrightarrow> unat base + unat len < 2 ^ 64 \<Longrightarrow> part_inv (PartitionIo_new s base len)"
  by (simp add: part_inv_def PartitionIo_new_def)

end

section \<open>The file as a backing object\<close>

definition file_content :: "std_file \<Rightarrow> nat \<Rightarrow> u8" where
  "file_content f i = (if i < length (f_data f) then f_data f ! i else 0)"

definition file_pos :: "std_file \<Rightarrow> nat" where
  "file_pos f = unat (f_pos f)"

definition file_inv :: "std_file \<Rightarrow> bool" where
  "file_inv f \<longleftrightarrow> length (f_data f) < 2 ^ 64"

lemma file_seek_law:
  assumes "file_inv f" "file_seek sf f = (r, f')"
  shows "file_inv f' \<and> file_content f' = file_content f \<and> returns r \<and>
    (\<forall>q. r = Ok q \<longrightarrow> file_pos f' = unat q \<and> (\<forall>off. sf = SeekStart off \<longrightarrow> q = off))"
  using assms
  by (auto simp: file_seek_def file_inv_def file_content_def file_pos_def fun_eq_iff
      split: seek_from.splits option.splits if_splits)

lemma file_read_law:
  assumes "file_inv f" "file_read cap n f = (r, f')"
  shows "file_inv f' \<and> file_content f' = file_content f \<and> returns r \<and>
    (\<forall>bs. r = Ok bs \<longrightarrow> length bs \<le> n \<and> file_pos f' = file_pos f + length bs \<and>
      bs = map (file_content f) [file_pos f..<file_pos f + length bs])"
proof -
  define bs where "bs = take (min n (cap n)) (drop (unat (f_pos f)) (f_data f))"
  have r: "r = Ok bs" "f' = f\<lparr>f_pos := f_pos f + word_of_nat (length bs)\<rparr>"
    using assms(2) by (simp_all add: file_read_def Let_def bs_def)
  have le: "unat (f_pos f) + length bs \<le> max (unat (f_pos f)) (length (f_data f))" by (simp add: bs_def)
  then have "unat (f_pos f) + length bs < 2 ^ 64"
    using assms(1) unat_bound [of "f_pos f"] by (simp add: file_inv_def)
  then have "unat (f_pos f + word_of_nat (length bs)) = unat (f_pos f) + length bs"
    by (subst unat_add_nowrap) (simp_all add: unat_of_nat)
  moreover have "bs = map (file_content f) [file_pos f..<file_pos f + length bs]"
    by (rule nth_equalityI) (auto simp: bs_def file_content_def file_pos_def)
  ultimately show ?thesis
    using assms(1) by (simp add: r file_inv_def file_content_def file_pos_def fun_eq_iff bs_def)
qed

lemma file_write_law:
  assumes "file_inv f" "file_write cap bs f = (r, f')"
  shows "file_inv f' \<and> returns r \<and>
    (\<forall>i. i < file_pos f \<or> file_pos f + length bs \<le> i \<longrightarrow> file_content f' i = file_content f i) \<and>
    (\<forall>k. r = Ok k \<longrightarrow> k \<le> length bs \<and> file_pos f' = file_pos f + k \<and>
      file_content f' = overwrite (file_pos f) (take k bs) (file_content f))"
proof -
  define k where "k = min (length bs) (cap (length bs))"
  define a where "a = unat (f_pos f)"
  have kb: "k \<le> length bs" by (simp add: k_def)
  show ?thesis
  proof (cases "a + k < 2 ^ 64")
    case False
    then have "r = Err (Foreign 1)" "f' = f" using assms(2) by (simp_all add: file_write_def Let_def k_def a_def)
    then show ?thesis using assms(1) by simp
  next
    case True
    have r: "r = Ok k" "f' = f\<lparr>f_data := take a (f_data f @ replicate (a - length (f_data f)) 0) @ take k bs @ drop (a + k) (f_data f),
        f_pos := f_pos f + word_of_nat k\<rparr>"
      using assms(2) True by (simp_all add: file_write_def Let_def k_def a_def)
    have "unat (f_pos f + word_of_nat k) = a + k"
      using True by (subst unat_add_nowrap) (simp_all add: unat_of_nat a_def)
    then have at: "file_pos f' = file_pos f + k" by (simp add: r file_pos_def a_def)
    have c: "file_content f' = overwrite (file_pos f) (take k bs) (file_content f)"
      using kb by (intro ext) (auto simp: r file_content_def overwrite_def file_pos_def nth_append a_def [symmetric] min_def)
    have "file_inv f'" using assms(1) True kb by (auto simp: r file_inv_def min_def)
    then show ?thesis using r(1) at c kb by (auto simp: overwrite_def)
  qed
qed

interpretation file_store: block_store "file_ops cap" file_inv file_content file_pos for cap
  by (rule block_store.intro; unfold file_ops_def store_ops.simps)
    ((rule file_seek_law file_read_law file_write_law; assumption) | (auto simp: file_flush_def))+

text \<open>The EFI system partition of the image file is a backing object in turn.\<close>

interpretation esp_store: block_store "partition_ops (file_ops cap)" "file_store.part_inv" "file_store.part_content"
  "file_store.part_pos" for cap
  by (rule file_store.partition_is_store)

section \<open>Requests of the formatter\<close>

datatype io_req = ReqSeek seek_from | ReqRead nat | ReqWrite bytes | ReqFlush

datatype io_rep =
    RepSeek "(u64, io_error) res"
  | RepRead "(bytes, io_error) res"
  | RepWrite "(nat, io_error) res"
  | RepFlush "(unit, io_error) res"

fun serve :: "'s store_ops \<Rightarrow> io_req \<Rightarrow> 's \<Rightarrow> io_rep \<times> 's" where
  "serve ops (ReqSeek sf) s = (let (r, s') = st_seek ops sf s in (RepSeek r, s'))"
| "serve ops (ReqRead n) s = (let (r, s') = st_read ops n s in (RepRead r, s'))"
| "serve ops (ReqWrite bs) s = (let (r, s') = st_write ops bs s in (RepWrite r, s'))"
| "serve ops ReqFlush s = (let (r, s') = st_flush ops s in (RepFlush r, s'))"

fun serve_all :: "'s store_ops \<Rightarrow> io_req list \<Rightarrow> 's \<Rightarrow> io_rep list \<times> 's" where
  "serve_all ops [] s = ([], s)"
| "serve_all ops (q # qs) s =
     (let (r, s') = serve ops q s; (rs, s'') = serve_all ops qs s' in (r # rs, s''))"

fun answered :: "io_rep \<Rightarrow> bool" where
  "answered (RepSeek r) = returns r"
| "answered (RepRead r) = returns r"
| "answered (RepWrite r) = returns r"
| "answered (RepFlush r) = returns r"

section \<open>The abstract window\<close>

text \<open>A fixed-size array of bytes with a cursor. Transfers may be short or fail; the cursor never
  leaves \<open>[0, length w_data]\<close>; a seek succeeds exactly when its target does not either.\<close>

record window =
  w_data :: bytes
  w_at :: nat

fun seek_target :: "seek_from \<Rightarrow> window \<Rightarrow> int" where
  "seek_target (SeekStart off) w = uint off"
| "seek_target (SeekCurrent d) w = int (w_at w) + sint d"
| "seek_target (SeekEnd d) w = int (length (w_data w)) + sint d"

inductive window_step :: "io_req \<Rightarrow> io_rep \<Rightarrow> window \<Rightarrow> window \<Rightarrow> bool" where
  w_seek: "t = seek_target sf w \<Longrightarrow> 0 \<le> t \<Longrightarrow> t \<le> int (length (w_data w)) \<Longrightarrow>
    window_step (ReqSeek sf) (RepSeek (Ok (word_of_int t))) w (w\<lparr>w_at := nat t\<rparr>)"
| w_seek_out: "seek_target sf w < 0 \<or> int (length (w_data w)) < seek_target sf w \<Longrightarrow>
    window_step (ReqSeek sf) (RepSeek (Err (IoError InvalidInput ''seek outside partition''))) w w"
| w_read: "k \<le> n \<Longrightarrow> k \<le> length (w_data w) - w_at w \<Longrightarrow>
    window_step (ReqRead n) (RepRead (Ok (take k (drop (w_at w) (w_data w))))) w (w\<lparr>w_at := w_at w + k\<rparr>)"
| w_read_err: "window_step (ReqRead n) (RepRead (Err e)) w w"
| w_write: "k \<le> length bs \<Longrightarrow> k \<le> length (w_data w) - w_at w \<Longrightarrow>
    window_step (ReqWrite bs) (RepWrite (Ok k)) w
      (w\<lparr>w_data := take (w_at w) (w_data w) @ take k bs @ drop (w_at w + k) (w_data w), w_at := w_at w + k\<rparr>)"
| w_write_err: "length d = length (w_data w) \<Longrightarrow>
    (\<And>i. i < length d \<Longrightarrow> i < w_at w \<or> w_at w + length bs \<le> i \<Longrightarrow> d ! i = w_data w ! i) \<Longrightarrow>
    window_step (ReqWrite bs) (RepWrite (Err e)) w (w\<lparr>w_data := d\<rparr>)"
| w_flush: "returns r \<Longrightarrow> window_step ReqFlush (RepFlush r) w w"

inductive window_run :: "io_req list \<Rightarrow> io_rep list \<Rightarrow> window \<Rightarrow> window \<Rightarrow> bool" where
  run_done: "window_run [] [] w w"
| run_step: "window_step q r w v \<Longrightarrow> window_run qs rs v u \<Longrightarrow> window_run (q # qs) (r # rs) w u"

definition partition_window :: "('s \<Rightarrow> nat \<Rightarrow> u8) \<Rightarrow> 's partition_io \<Rightarrow> window" where
  "partition_window content p =
     \<lparr>w_data = map (\<lambda>i. content (inner p) (unat (pbase p) + i)) [0..<unat (plen p)], w_at = unat (ppos p)\<rparr>"

text \<open>Signed offsets.\<close>

lemma sint_bounds: "- (2 ^ 63) \<le> sint d" "sint d < 2 ^ 63" for d :: i64
  using sint_greater_eq [of d] sint_less [of d] by simp_all

lemma uint_of_sint:
  fixes d :: i64
  shows "0 \<le> sint d \<Longrightarrow> uint d = sint d" "sint d < 0 \<Longrightarrow> uint (- d) = - sint d"
proof -
  have "uint d = sint d mod 2 ^ 64" using uint_word_of_int [of "sint d", where 'a = 64] by simp
  then show "uint d = sint d" if "0 \<le> sint d"
    using that sint_bounds [of d] by simp
  have "uint (- d) = (- sint d) mod 2 ^ 64" using uint_word_of_int [of "- sint d", where 'a = 64] by simp
  then show "uint (- d) = - sint d" if "sint d < 0"
    using that sint_bounds [of d] by simp
qed

lemma seek_by_exact:
  "seek_by a d =
     (if 0 \<le> uint a + sint d \<and> uint a + sint d < 2 ^ 64 then Ok (word_of_int (uint a + sint d))
      else Err (IoError InvalidInput ''seek outside partition''))"
proof (cases "0 \<le> sint d")
  case True
  have "int (unat a + unat d) = uint a + sint d" using uint_of_sint(1) [OF True] by simp
  then have "unat a + unat d < 2 ^ 64 \<longleftrightarrow> uint a + sint d < 2 ^ 64"
    using of_nat_less_iff [of "unat a + unat d" "2 ^ 64", where 'a = int] by (simp del: of_nat_add)
  then show ?thesis using True by (simp add: seek_by_def checked_add_def ok_or_def)
next
  case False
  have "- d \<le> a \<longleftrightarrow> 0 \<le> uint a + sint d" using uint_of_sint(2) [of d] False by (simp add: word_le_def) linarith
  moreover have "uint a + sint d < 2 ^ 64" using False uint_lt2p [of a] by simp
  ultimately show ?thesis using False by (simp add: seek_by_def checked_sub_def ok_or_def)
qed

text \<open>A partition seek is the abstract one.\<close>

lemma partition_seek_exact:
  fixes p :: "'s partition_io" and content :: "'s \<Rightarrow> nat \<Rightarrow> u8"
  defines "w \<equiv> partition_window content p"
  shows "partition_seek sf p =
     (if 0 \<le> seek_target sf w \<and> seek_target sf w \<le> uint (plen p)
      then (Ok (word_of_int (seek_target sf w)), p\<lparr>ppos := word_of_int (seek_target sf w)\<rparr>)
      else (Err (IoError InvalidInput ''seek outside partition''), p))"
proof -
  have *: "(case seek_by a d of Ok q \<Rightarrow> if plen p < q then (Err e, p) else (Ok q, p\<lparr>ppos := q\<rparr>) | Err e \<Rightarrow> (Err e, p)
      | Panic \<Rightarrow> (Panic, p) | Diverge \<Rightarrow> (Diverge, p)) =
    (if 0 \<le> uint a + sint d \<and> uint a + sint d \<le> uint (plen p)
      then (Ok (word_of_int (uint a + sint d)), p\<lparr>ppos := word_of_int (uint a + sint d)\<rparr>)
      else (Err e, p))" if "e = IoError InvalidInput ''seek outside partition''" for a d e
  proof (cases "0 \<le> uint a + sint d \<and> uint a + sint d < 2 ^ 64")
    case True
    then have "uint (word_of_int (uint a + sint d) :: u64) = uint a + sint d" using uint_word_of_int [of "uint a + sint d", where 'a = 64] by (simp del: of_int_add)
    then show ?thesis using True by (simp only: seek_by_exact word_less_def res.simps) auto
  next
    case False
    then show ?thesis using that uint_lt2p [of "plen p"] by (auto simp: seek_by_exact)
  qed
  show ?thesis
  proof (cases sf)
    case (SeekStart off)
    then show ?thesis by (simp add: partition_seek_def io_res_def word_less_def not_le)
  qed (simp_all add: partition_seek_def io_res_def * w_def partition_window_def)
qed

section \<open>The partition refines the window\<close>

context block_store
begin

lemma window_parts:
  assumes "part_inv p"
  shows "w_data (partition_window content p) = map (part_content p) [0..<unat (plen p)]"
    "w_at (partition_window content p) = part_pos p" "part_pos p \<le> unat (plen p)"
  using assms by (auto simp: partition_window_def part_content_def part_pos_def part_inv_def word_le_nat_alt)

lemma part_same_window:
  assumes "part_inv p" "part_inv p'" "keeps_out p p'" "part_content p' = part_content p"
  shows "partition_window content p' = (partition_window content p)\<lparr>w_at := part_pos p'\<rparr>"
  using window_parts [OF assms(1)] window_parts [OF assms(2)] assms(3,4) by (simp add: keeps_out_def)

lemma window_overwrite:
  assumes "a + length bs \<le> n"
  shows "map (overwrite a bs f) [0..<n] = take a (map f [0..<n]) @ bs @ drop (a + length bs) (map f [0..<n])"
  using assms by (intro nth_equalityI) (auto simp: overwrite_def nth_append min_def)

definition part_ok :: "io_req \<Rightarrow> io_rep \<Rightarrow> 's partition_io \<Rightarrow> 's partition_io \<Rightarrow> bool" where
  "part_ok q r p p' \<longleftrightarrow> part_inv p' \<and> keeps_out p p' \<and> answered r \<and>
     window_step q r (partition_window content p) (partition_window content p')"

lemma seek_refines:
  assumes i: "part_inv p" and r: "partition_seek sf p = (r, p')"
  shows "part_ok (ReqSeek sf) (RepSeek r) p p'"
proof -
  let ?w = "partition_window content p"
  let ?t = "seek_target sf ?w"
  note law = partition_seek_law [OF i r]
  have len: "int (length (w_data ?w)) = uint (plen p)" by (simp add: partition_window_def)
  have "window_step (ReqSeek sf) (RepSeek r) ?w (partition_window content p')"
  proof (cases "0 \<le> ?t \<and> ?t \<le> uint (plen p)")
    case True
    then have rp: "r = Ok (word_of_int ?t)" using r by (simp add: partition_seek_exact [of sf p content])
    have "unat (word_of_int ?t :: u64) = nat ?t"
      using True uint_lt2p [of "plen p"] by (simp add: unat_eq_nat_uint uint_word_of_int)
    then have "partition_window content p' = ?w\<lparr>w_at := nat ?t\<rparr>"
      using part_same_window [OF i, of p'] law rp by simp
    then show ?thesis using w_seek [OF refl, of sf ?w] True rp len by simp
  next
    case False
    then have "r = Err (IoError InvalidInput ''seek outside partition'')" "p' = p"
      using r by (auto simp: partition_seek_exact [of sf p content])
    then show ?thesis using w_seek_out [of sf ?w] False len by auto
  qed
  then show ?thesis using law by (simp add: part_ok_def)
qed

lemma read_refines:
  assumes i: "part_inv p" and r: "partition_read ops n p = (r, p')"
  shows "part_ok (ReqRead n) (RepRead r) p p'"
proof -
  let ?w = "partition_window content p"
  note law = partition_read_law [OF i r]
  have p': "part_inv p'" "keeps_out p p'" "part_content p' = part_content p" "returns r" using law by blast+
  note same = part_same_window [OF i p'(1-3)] and w = window_parts [OF i]
  have "window_step (ReqRead n) (RepRead r) ?w (partition_window content p')"
  proof (cases r)
    case (Ok bs)
    have len: "length bs \<le> n" "part_pos p' = part_pos p + length bs" using law Ok by blast+
    have "plen p' = plen p" using p'(2) by (simp add: keeps_out_def)
    then have le: "part_pos p + length bs \<le> unat (plen p)" using window_parts(3) [OF p'(1)] len(2) by simp
    have "bs = map (part_content p) [part_pos p..<part_pos p + length bs]" using law Ok by blast
    also have "\<dots> = take (length bs) (drop (w_at ?w) (w_data ?w))"
      using le w(2) by (simp add: w(1) drop_map take_map take_upt)
    finally have "bs = take (length bs) (drop (w_at ?w) (w_data ?w))" .
    then show ?thesis
      using w_read [OF len(1), of ?w] le w same len(2) Ok by simp
  next
    case (Err e)
    then have "part_pos p' = part_pos p" using law by blast
    then have "partition_window content p' = ?w" using same w(2) by (intro window.equality) simp_all
    then show ?thesis using Err w_read_err by simp
  qed (use p' in simp_all)
  then show ?thesis using p' by (simp add: part_ok_def)
qed

lemma write_refines:
  assumes i: "part_inv p" and r: "partition_write ops bs p = (r, p')"
  shows "part_ok (ReqWrite bs) (RepWrite r) p p'"
proof -
  let ?w = "partition_window content p"
  note law = partition_write_law [OF i r]
  have p': "part_inv p'" "keeps_out p p'" "returns r" using law by blast+
  have pl: "plen p' = plen p" using p'(2) by (simp add: keeps_out_def)
  note w = window_parts [OF i] and w' = window_parts [OF p'(1), unfolded pl]
  have "window_step (ReqWrite bs) (RepWrite r) ?w (partition_window content p')"
  proof (cases r)
    case (Ok k)
    have k: "k \<le> length bs" "part_pos p' = part_pos p + k"
      "part_content p' = overwrite (part_pos p) (take k bs) (part_content p)" using law Ok by blast+
    have le: "part_pos p + k \<le> unat (plen p)" using w'(3) k(2) by simp
    have "w_data (partition_window content p') = take (w_at ?w) (w_data ?w) @ take k bs @ drop (w_at ?w + k) (w_data ?w)"
      using window_overwrite [of "part_pos p" "take k bs" "unat (plen p)" "part_content p"] k(1) le
      by (simp add: w w' k(3) min_def)
    then have "partition_window content p' = ?w\<lparr>w_data := take (w_at ?w) (w_data ?w) @ take k bs @ drop (w_at ?w + k) (w_data ?w),
        w_at := w_at ?w + k\<rparr>"
      using w(2) w'(2) k(2) by (intro window.equality) simp_all
    moreover have "k \<le> length (w_data ?w) - w_at ?w" using le by (simp add: w)
    ultimately show ?thesis using w_write [OF k(1), of ?w] Ok by simp
  next
    case (Err e)
    have at: "part_pos p' = part_pos p" using law Err by blast
    have "window_step (ReqWrite bs) (RepWrite (Err e)) ?w (?w\<lparr>w_data := w_data (partition_window content p')\<rparr>)"
      using law by (intro w_write_err) (auto simp: w w')
    moreover have "partition_window content p' = ?w\<lparr>w_data := w_data (partition_window content p')\<rparr>"
      using at w(2) w'(2) by (intro window.equality) simp_all
    ultimately show ?thesis using Err by simp
  qed (use p' in simp_all)
  then show ?thesis using p' by (simp add: part_ok_def)
qed

lemma flush_refines:
  assumes i: "part_inv p" and r: "partition_flush ops p = (r, p')"
  shows "part_ok ReqFlush (RepFlush r) p p'"
proof -
  note law = partition_flush_law [OF i r]
  have "ppos p' = ppos p" using r by (auto simp: partition_flush_def on_inner_def split: prod.splits)
  then have "partition_window content p' = partition_window content p"
    using part_same_window [OF i, of p'] law window_parts(2) [OF i] by (simp add: part_pos_def)
  then show ?thesis using law by (simp add: part_ok_def w_flush)
qed

lemma serve_refines:
  assumes i: "part_inv p" and r: "serve (partition_ops ops) q p = (r, p')"
  shows "part_ok q r p p'"
  using r seek_refines [OF i] read_refines [OF i] write_refines [OF i] flush_refines [OF i]
  by (cases q) (auto simp: partition_ops_def split: prod.splits)

lemma run_refines:
  assumes "part_inv p" "serve_all (partition_ops ops) qs p = (rs, p')"
  shows "part_inv p' \<and> keeps_out p p' \<and> list_all answered rs \<and>
    window_run qs rs (partition_window content p) (partition_window content p')"
  using assms
proof (induction qs arbitrary: p rs)
  case Nil
  then show ?case by (simp add: keeps_out_def run_done)
next
  case (Cons q qs)
  obtain r v where s: "serve (partition_ops ops) q p = (r, v)" by force
  obtain rs' where a: "rs = r # rs'" "serve_all (partition_ops ops) qs v = (rs', p')"
    using Cons.prems(2) s by (auto split: prod.splits)
  have ok: "part_ok q r p v" by (rule serve_refines [OF Cons.prems(1) s])
  then have "part_inv v" by (simp add: part_ok_def)
  from Cons.IH [OF this a(2)] ok show ?case
    by (auto simp: a(1) part_ok_def keeps_out_def intro: run_step)
qed

lemma write_read_back:
  assumes i: "part_inv p" and w: "partition_write ops bs p = (Ok k, p1)"
    and s: "partition_seek (SeekStart (ppos p)) p1 = (q, p2)" and r: "partition_read ops n p2 = (Ok r, p3)" and n: "n \<le> k"
  shows "q = Ok (ppos p) \<and> r = take (length r) bs"
proof -
  have 1: "part_inv p1" "keeps_out p p1" "k \<le> length bs" "part_content p1 = overwrite (part_pos p) (take k bs) (part_content p)"
    using partition_write_law [OF i w] by blast+
  have "ppos p \<le> plen p1" using 1(2) i by (simp add: keeps_out_def part_inv_def)
  then have q: "q = Ok (ppos p)" "p2 = p1\<lparr>ppos := ppos p\<rparr>"
    using s by (simp_all add: partition_seek_def io_res_def not_less [symmetric])
  have 2: "part_inv p2" "part_content p2 = part_content p1" "part_pos p2 = part_pos p"
    using partition_seek_law [OF 1(1) s] q by (simp_all add: part_pos_def)
  have 3: "length r \<le> n" "r = map (part_content p2) [part_pos p2..<part_pos p2 + length r]"
    using partition_read_law [OF 2(1) r] by blast+
  have "r ! j = bs ! j" if "j < length r" for j
    using arg_cong [OF 3(2), of "\<lambda>l. l ! j"] that 3(1) n 1(3) by (simp add: 2 1(4) overwrite_def)
  then show ?thesis using q(1) 3(1) n 1(3) by (auto intro!: nth_equalityI)
qed

end

section \<open>Properties\<close>

definition sample_disk :: std_file where
  "sample_disk = \<lparr>f_data = [1, 2, 3, 4, 5, 6, 7, 8], f_pos = 0\<rparr>"

definition sample_reqs :: "io_req list" where
  "sample_reqs = [ReqWrite [10, 11, 12, 13, 14, 15], ReqWrite [16, 17], ReqWrite [18], ReqSeek (SeekEnd (- 4)),
     ReqRead 9, ReqSeek (SeekCurrent 2), ReqFlush]"

text \<open>C15: Whatever sequence of seeks, reads, writes and flushes the formatter makes on a partition window, over any
  backing object that keeps the \<open>Read + Write + Seek\<close> contract (short transfers and errors included), every call
  returns, the window keeps its bounds, the cursor stays inside them, and no byte of the backing object outside
  \<open>[base, base + len)\<close> changes.\<close>

theorem partition_confined:
  assumes "block_store ops ok content pos" "ok s" "unat base + unat len < 2 ^ 64"
    and "serve_all (partition_ops ops) qs (PartitionIo_new s base len) = (rs, p')"
  shows "list_all answered rs \<and> pbase p' = base \<and> plen p' = len \<and> ppos p' \<le> len \<and>
    (\<forall>i. i < unat base \<or> unat base + unat len \<le> i \<longrightarrow> content (inner p') i = content s i)"
  using block_store.run_refines [OF assms(1) block_store.new_part_inv [OF assms(1-3)] assms(4)]
  unfolding block_store.keeps_out_def [OF assms(1)] block_store.part_inv_def [OF assms(1)]
  by (auto simp: PartitionIo_new_def)

text \<open>A transfer of at most three bytes a call; the third write and the last seek fall outside the window.\<close>

lemma sample_disk_inv: "file_inv sample_disk"
  by (simp add: file_inv_def sample_disk_def)

lemmas partition_eval = partition_ops_def partition_write_def partition_read_def partition_seek_def partition_flush_def
  on_inner_def io_res_def advance_def add_panic_def checked_add_def checked_sub_def seek_by_def ok_or_def PartitionIo_new_def
  file_ops_def file_seek_def file_read_def file_write_def file_flush_def Let_def

lemma sample_run:
  "serve_all (partition_ops (file_ops (\<lambda>_. 3))) sample_reqs (PartitionIo_new sample_disk 2 4) =
    ([RepWrite (Ok 3), RepWrite (Ok 1), RepWrite (Ok 0), RepSeek (Ok 0), RepRead (Ok [10, 11, 12]),
      RepSeek (Err (IoError InvalidInput ''seek outside partition'')), RepFlush (Ok ())],
     \<lparr>inner = \<lparr>f_data = [1, 2, 10, 11, 12, 16, 7, 8], f_pos = 5\<rparr>, pbase = 2, plen = 4, ppos = 3\<rparr>)"
  by (simp add: sample_reqs_def sample_disk_def partition_eval)

theorem partition_confined_witness:
  "file_content (inner (snd (serve_all (partition_ops (file_ops (\<lambda>_. 3))) sample_reqs (PartitionIo_new sample_disk 2 4)))) 6 =
     file_content sample_disk 6 \<and>
   ppos (snd (serve_all (partition_ops (file_ops (\<lambda>_. 3))) sample_reqs (PartitionIo_new sample_disk 2 4))) \<le> 4"
  using partition_confined [OF file_store.block_store_axioms sample_disk_inv _ sample_run] by (simp add: sample_run)

text \<open>C14: Seen through its bounds, the partition is a file of its own: every run of requests on it is a run of
  the abstract window (a fixed-size byte array with a cursor), with the same replies. In particular a seek succeeds
  exactly when its target, as an integer, lies in \<open>[0, len]\<close>, and gives that target; a read gives the window's bytes
  at the cursor, a write replaces them, neither crosses the end of the window; a failed call leaves the cursor.\<close>

theorem partition_refines_window:
  assumes "block_store ops ok content pos" "ok s" "unat base + unat len < 2 ^ 64"
    and "serve_all (partition_ops ops) qs (PartitionIo_new s base len) = (rs, p')"
  shows "window_run qs rs \<lparr>w_data = map (\<lambda>i. content s (unat base + i)) [0..<unat len], w_at = 0\<rparr>
    (partition_window content p')"
  using block_store.run_refines [OF assms(1) block_store.new_part_inv [OF assms(1-3)] assms(4)]
  by (simp add: partition_window_def PartitionIo_new_def)

theorem partition_refines_window_witness:
  "window_run sample_reqs
    [RepWrite (Ok 3), RepWrite (Ok 1), RepWrite (Ok 0), RepSeek (Ok 0), RepRead (Ok [10, 11, 12]),
      RepSeek (Err (IoError InvalidInput ''seek outside partition'')), RepFlush (Ok ())]
    \<lparr>w_data = [3, 4, 5, 6], w_at = 0\<rparr> \<lparr>w_data = [10, 11, 12, 16], w_at = 3\<rparr>"
  using partition_refines_window [OF file_store.block_store_axioms sample_disk_inv _ sample_run]
  by (simp add: sample_disk_def file_content_def partition_window_def upt_rec)

text \<open>C32: What was written is read back: after a write of \<open>k\<close> bytes at the cursor, seeking back to where it was
  succeeds, and a read of at most \<open>k\<close> bytes there gives the written bytes, however short the transfers are.\<close>

theorem partition_write_reads_back:
  assumes "block_store ops ok content pos" "ok (inner p)" "unat (pbase p) + unat (plen p) < 2 ^ 64" "ppos p \<le> plen p"
    and "partition_write ops bs p = (Ok k, p1)" "partition_seek (SeekStart (ppos p)) p1 = (q, p2)"
    and "partition_read ops n p2 = (Ok r, p3)" "n \<le> k"
  shows "q = Ok (ppos p) \<and> r = take (length r) bs"
  using assms(2-4) block_store.write_read_back [OF assms(1) _ assms(5-8)]
  by (simp add: block_store.part_inv_def [OF assms(1)])

theorem partition_write_reads_back_witness:
  "\<exists>p1 p2 p3. partition_write (file_ops (\<lambda>_. 3)) [9, 8, 7, 6] (PartitionIo_new sample_disk 2 4) = (Ok 3, p1) \<and>
     partition_seek (SeekStart 0) p1 = (Ok 0, p2) \<and> partition_read (file_ops (\<lambda>_. 3)) 2 p2 = (Ok [9, 8], p3) \<and>
     [9, 8] = take (length [9, 8 :: u8]) [9, 8, 7, 6 :: u8]"
proof -
  let ?p = "PartitionIo_new sample_disk 2 4"
  let ?p1 = "\<lparr>inner = \<lparr>f_data = [1, 2, 9, 8, 7, 6, 7, 8], f_pos = 5\<rparr>, pbase = 2, plen = 4, ppos = 3\<rparr>"
  let ?p3 = "\<lparr>inner = \<lparr>f_data = [1, 2, 9, 8, 7, 6, 7, 8], f_pos = 4\<rparr>, pbase = 2, plen = 4, ppos = 2\<rparr>"
  have w: "partition_write (file_ops (\<lambda>_. 3)) [9, 8, 7, 6] ?p = (Ok 3, ?p1)"
    by (simp add: sample_disk_def partition_eval)
  have s: "partition_seek (SeekStart (ppos ?p)) ?p1 = (Ok 0, ?p1\<lparr>ppos := 0\<rparr>)" by (simp add: partition_eval)
  have r: "partition_read (file_ops (\<lambda>_. 3)) 2 (?p1\<lparr>ppos := 0\<rparr>) = (Ok [9, 8], ?p3)" by (simp add: partition_eval)
  have "[9, 8] = take (length [9, 8 :: u8]) [9, 8, 7, 6 :: u8]"
    using partition_write_reads_back [OF file_store.block_store_axioms _ _ _ w s r]
    by (simp add: PartitionIo_new_def sample_disk_inv)
  moreover have "ppos ?p = 0" by (simp add: PartitionIo_new_def)
  ultimately show ?thesis using w s r by metis
qed

end
