(* ===== verification/Xtask_Host.thy ===== *)
theory Xtask_Host
  imports Partition_Io
begin

text \<open>
  The host that \<open>xtask\<close> runs on, as far as \<open>xtask/src/main.rs\<close> uses it: the file system through \<open>std::fs\<close>, the
  environment, child processes and the console. Paths are byte strings. What the operating system decides is a
  record of parameters \<open>os\<close>: how a child process changes the host and ends, what a directory listing returns, and
  which file operation fails, with the state a failed operation leaves behind, and the text of its own errors. The log
  is what \<open>xtask\<close> itself did: neither children nor failures change it.
\<close>

type_synonym path = bytes

definition join :: "path \<Rightarrow> string \<Rightarrow> path" where
  "join p s = p @ ascii (''/'' @ s)"

datatype fs_op =
    CreateDirAll path
  | ReadFile path
  | WriteFile path
  | CopyFile path path
  | ReadDir path
  | Stat path
  | OpenFile path
  | ReadOpen path
  | CreateFile path
  | SetLen path

text \<open>What a run leaves behind besides files: programs started, in order, and console output.\<close>

datatype event = Ran "bytes list" | Stdout bytes | Stderr bytes

record host =
  hfiles :: "path \<rightharpoonup> bytes"
  hdirs :: "path set"
  henv :: "string \<rightharpoonup> bytes"
  hlog :: "event list"

text \<open>A directory entry: its file name, and the modification time its metadata gives (\<open>None\<close> where the
  platform has none).\<close>

record dir_entry =
  de_name :: bytes
  de_meta :: "(int option, io_error) res"

record os =
  os_status :: "bytes list \<Rightarrow> host \<Rightarrow> (bool, io_error) res \<times> host"
  os_listing :: "path \<Rightarrow> host \<Rightarrow> (dir_entry, io_error) res list"
  os_fault :: "fs_op \<Rightarrow> host \<Rightarrow> (io_error \<times> host) option"
  os_text :: "nat \<Rightarrow> bytes"

definition emit :: "event \<Rightarrow> host \<Rightarrow> host" where
  "emit e h = h\<lparr>hlog := hlog h @ [e]\<rparr>"

definition faulty :: "os \<Rightarrow> fs_op \<Rightarrow> ('a, host) io \<Rightarrow> ('a, host) io" where
  "faulty w op m h = (case os_fault w op h of Some (e, h') \<Rightarrow> (Err e, h'\<lparr>hlog := hlog h\<rparr>) | None \<Rightarrow> m h)"

definition run_command :: "os \<Rightarrow> bytes list \<Rightarrow> (bool, host) io" where
  "run_command w args h =
     (let (r, h') = os_status w args h in (r, h'\<lparr>hlog := hlog h @ [Ran args]\<rparr>))"

definition ancestors :: "path \<Rightarrow> path set" where
  "ancestors p = set (p # map (\<lambda>i. take i p) (filter (\<lambda>i. p ! i = 47) [0..<length p]))"

definition create_dir_all :: "os \<Rightarrow> path \<Rightarrow> (unit, host) io" where
  "create_dir_all w p = faulty w (CreateDirAll p) (\<lambda>h. (Ok (), h\<lparr>hdirs := hdirs h \<union> ancestors p\<rparr>))"

definition file_not_found :: io_error where
  "file_not_found = IoError NotFound ''No such file or directory''"

definition fs_read :: "os \<Rightarrow> path \<Rightarrow> (bytes, host) io" where
  "fs_read w p = faulty w (ReadFile p) (\<lambda>h. (ok_or (hfiles h p) file_not_found, h))"

definition fs_write :: "os \<Rightarrow> path \<Rightarrow> bytes \<Rightarrow> (unit, host) io" where
  "fs_write w p bs = faulty w (WriteFile p) (\<lambda>h. (Ok (), h\<lparr>hfiles := (hfiles h)(p \<mapsto> bs)\<rparr>))"

definition fs_copy :: "os \<Rightarrow> path \<Rightarrow> path \<Rightarrow> (nat, host) io" where
  "fs_copy w p q = faulty w (CopyFile p q) (\<lambda>h.
     case hfiles h p of
       None \<Rightarrow> (Err file_not_found, h)
     | Some bs \<Rightarrow> (Ok (length bs), h\<lparr>hfiles := (hfiles h)(q \<mapsto> bs)\<rparr>))"

definition fs_read_dir :: "os \<Rightarrow> path \<Rightarrow> ((dir_entry, io_error) res list, host) io" where
  "fs_read_dir w p = faulty w (ReadDir p) (\<lambda>h. (Ok (os_listing w p h), h))"

text \<open>\<open>Path::exists\<close> is false when the metadata cannot be read; \<open>env::var\<close> fails on a value that is not Unicode.\<close>

definition path_exists :: "os \<Rightarrow> path \<Rightarrow> host \<Rightarrow> bool" where
  "path_exists w p h \<longleftrightarrow> os_fault w (Stat p) h = None \<and> (hfiles h p \<noteq> None \<or> p \<in> hdirs h)"

definition env_var :: "string \<Rightarrow> host \<Rightarrow> bytes option" where
  "env_var k h = Option.bind (henv h k) from_utf8"

text \<open>Bind and success.\<close>

lemma io_then_OkE:
  assumes "io_then m k s = (Ok b, s')"
  obtains a s1 where "m s = (Ok a, s1)" "k a s1 = (Ok b, s')"
  using assms by (cases "m s") (auto split: res.splits)

lemma io_then_step:
  assumes "m s = (Ok a, s1)"
  shows "io_then m k s = k a s1"
  using assms by simp

lemma io_then_res [simp]:
  "io_then (io_res (Ok a)) k s = k a s"
  "io_then (io_res (Err e)) k s = (Err e, s)"
  by (simp_all add: io_res_def)

declare io_then.simps [simp del]

lemma faulty_OkE:
  assumes "faulty w op m h = (Ok a, h')"
  obtains "os_fault w op h = None" "m h = (Ok a, h')"
  using assms by (auto simp: faulty_def split: option.splits)

lemma fs_read_Ok:
  assumes "fs_read w p h = (Ok bs, h')"
  shows "hfiles h p = Some bs \<and> h' = h"
  using assms by (auto simp: fs_read_def ok_or_def elim!: faulty_OkE split: option.splits)

lemma fs_write_Ok:
  assumes "fs_write w p bs h = (Ok u, h')"
  shows "h' = h\<lparr>hfiles := (hfiles h)(p \<mapsto> bs)\<rparr>"
  using assms by (auto simp: fs_write_def elim!: faulty_OkE)

lemma fs_copy_Ok:
  assumes "fs_copy w p q h = (Ok n, h')"
  obtains bs where "hfiles h p = Some bs" "n = length bs" "h' = h\<lparr>hfiles := (hfiles h)(q \<mapsto> bs)\<rparr>"
  using assms by (auto simp: fs_copy_def elim!: faulty_OkE split: option.splits)

lemma create_dir_all_Ok:
  assumes "create_dir_all w p h = (Ok u, h')"
  shows "h' = h\<lparr>hdirs := hdirs h \<union> ancestors p\<rparr>"
  using assms by (auto simp: create_dir_all_def elim!: faulty_OkE)

end
