(* ===== verification/Disk_Image.thy ===== *)
theory Disk_Image
  imports Xtask_Host "HOL-Library.AList"
begin

text \<open>
  \<open>build_uefi_disk_image\<close>, \<open>populate_esp\<close>, \<open>copy_into_fat_file\<close> and \<open>gpt_error\<close> of \<open>xtask/src/main.rs\<close>: the disk image with
  its GUID partition table and the FAT32 volume of the EFI system partition. The \<open>gpt\<close> and \<open>fatfs\<close> crates are a record of
  parameters; a call that fails includes what dropping its objects writes. \<open>through_window\<close> says that a volume operation
  touches the image only by the calls it makes on the \<open>PartitionIo\<close> it was given, and \<open>fat_laws\<close> is what the file-system
  crate documents: which files a volume holds after each call, and that an unmounted volume reads back.
\<close>

section \<open>The crates\<close>

type_synonym esp = "std_file partition_io"

record ('d, 'p, 'v, 'h) disk_lib =
  lib_mbr :: "u32 \<Rightarrow> std_file \<Rightarrow> (unit, string) res \<times> std_file"
  lib_create :: "std_file \<Rightarrow> ('d, string) res \<times> std_file"
  lib_add_partition :: "string \<Rightarrow> u64 \<Rightarrow> 'd \<Rightarrow> std_file \<Rightarrow> (u32 \<times> 'd, string) res \<times> std_file"
  lib_partition :: "'d \<Rightarrow> u32 \<Rightarrow> 'p option"
  lib_write_inplace :: "'d \<Rightarrow> std_file \<Rightarrow> ('d, string) res \<times> std_file"
  lib_write_disk :: "'d \<Rightarrow> std_file \<Rightarrow> (unit, string) res \<times> std_file"
  lib_bytes_start :: "'p \<Rightarrow> (u64, string) res"
  lib_bytes_len :: "'p \<Rightarrow> (u64, string) res"
  lib_format :: "(unit, esp) io"
  lib_mount :: "('v, esp) io"
  lib_create_dir :: "string \<Rightarrow> 'v \<Rightarrow> ('v, esp) io"
  lib_create_file :: "string \<Rightarrow> 'v \<Rightarrow> ('h \<times> 'v, esp) io"
  lib_write_all :: "'h \<Rightarrow> bytes \<Rightarrow> 'v \<Rightarrow> ('v, esp) io"
  lib_unmount :: "'v \<Rightarrow> (unit, esp) io"

section \<open>Operations\<close>

definition IMAGE_SIZE :: u64 where "IMAGE_SIZE = 256 * 1024 * 1024"
definition ESP_PARTITION_SIZE :: u64 where "ESP_PARTITION_SIZE = 224 * 1024 * 1024"

definition zero_image :: bytes where
  "zero_image = replicate (unat IMAGE_SIZE) 0"

definition gpt_error :: "string \<Rightarrow> io_error" where
  "gpt_error msg = io_other msg"

text \<open>Errors of the partition-table crate through \<open>gpt_error\<close>.\<close>

definition gpt_call :: "(std_file \<Rightarrow> ('a, string) res \<times> std_file) \<Rightarrow> ('a, std_file) io" where
  "gpt_call m f = (let (r, f') = m f in (map_err gpt_error r, f'))"

text \<open>The image up to the point where the partition window is created: its bounds.\<close>

definition partition_disk :: "('d, 'p, 'v, 'h) disk_lib \<Rightarrow> (u64 \<times> u64, std_file) io" where
  "partition_disk lib =
     io_then (io_res (u32_try (unat (saturating_sub (IMAGE_SIZE div 512) 1)) ''image too large for protective MBR'')) (\<lambda>lb_size.
     io_then (gpt_call (lib_mbr lib lb_size)) (\<lambda>_.
     io_then (gpt_call (lib_create lib)) (\<lambda>disk.
     io_then (gpt_call (lib_add_partition lib ''ESP'' ESP_PARTITION_SIZE disk)) (\<lambda>(part_id, disk).
     io_then (io_res (ok_or (lib_partition lib disk part_id) (io_other ''missing GPT partition after creation''))) (\<lambda>partition.
     io_then (gpt_call (lib_write_inplace lib disk)) (\<lambda>disk.
     io_then (gpt_call (lib_write_disk lib disk)) (\<lambda>_.
     io_then (io_res (map_err gpt_error (lib_bytes_start lib partition))) (\<lambda>start.
     io_then (io_res (map_err gpt_error (lib_bytes_len lib partition))) (\<lambda>len.
     io_res (Ok (start, len)))))))))))"

text \<open>The volume is filled while the host's files are read: the state is the pair of both.\<close>

definition on_esp :: "('a, esp) io \<Rightarrow> ('a, host \<times> esp) io" where
  "on_esp m = (\<lambda>(h, p). let (r, p') = m p in (r, (h, p')))"

definition on_host :: "('a, host) io \<Rightarrow> ('a, host \<times> esp) io" where
  "on_host m = (\<lambda>(h, p). let (r, h') = m h in (r, (h', p)))"

definition file_open :: "os \<Rightarrow> path \<Rightarrow> (bytes, host) io" where
  "file_open w p = faulty w (OpenFile p) (\<lambda>h. (ok_or (hfiles h p) file_not_found, h))"

text \<open>\<open>io::copy\<close> of the standard library: the open file is read into a buffer of 8 KiB, and each full or partial
  buffer is written out before the next read, until a read gives nothing. An error of a read or a write ends
  the copy with what was written so far.\<close>

definition COPY_BUF :: nat where "COPY_BUF = 8192"

function io_copy ::
  "('d, 'p, 'v, 'h) disk_lib \<Rightarrow> os \<Rightarrow> path \<Rightarrow> 'h \<Rightarrow> bytes \<Rightarrow> u64 \<Rightarrow> 'v \<Rightarrow> (u64 \<times> 'v, host \<times> esp) io" where
  "io_copy lib w src dst rest count v =
     io_then (on_host (faulty w (ReadOpen src) (\<lambda>h. (Ok (), h)))) (\<lambda>_.
       if rest = [] then io_res (Ok (count, v))
       else io_then (on_esp (lib_write_all lib dst (take COPY_BUF rest) v)) (\<lambda>v.
         io_copy lib w src dst (drop COPY_BUF rest) (count + word_of_nat (length (take COPY_BUF rest))) v))"
  by pat_completeness auto
termination
  by (relation "measure (\<lambda>(_, _, _, _, rest, _). length rest)") (auto simp: COPY_BUF_def)

declare io_copy.simps [simp del]

definition copy_into_fat_file ::
  "('d, 'p, 'v, 'h) disk_lib \<Rightarrow> os \<Rightarrow> path \<Rightarrow> 'h \<Rightarrow> 'v \<Rightarrow> (u64 \<times> 'v, host \<times> esp) io" where
  "copy_into_fat_file lib w src dst v =
     io_then (on_host (file_open w src)) (\<lambda>src_file. io_copy lib w src dst src_file 0 v)"

definition startup_command :: string where
  "startup_command = [CHR 0x5C] @ ''EFI'' @ [CHR 0x5C] @ ''BOOT'' @ [CHR 0x5C] @ ''BOOTAA64.EFI'' @ [CHR 0x0D, CHR 0x0A]"

definition utf16_le :: "string \<Rightarrow> bytes" where
  "utf16_le s = concat (map (\<lambda>c. u16_to_le_bytes (of_char c)) s)"

definition script_bytes :: bytes where
  "script_bytes = [0xFF, 0xFE] @ utf16_le startup_command"

definition populate_esp ::
  "('d, 'p, 'v, 'h) disk_lib \<Rightarrow> os \<Rightarrow> path \<Rightarrow> path \<Rightarrow> 'v \<Rightarrow> ('v, host \<times> esp) io" where
  "populate_esp lib w loader_efi kernel_macho v =
     io_then (on_esp (lib_create_dir lib ''EFI'' v)) (\<lambda>v.
     io_then (on_esp (lib_create_dir lib ''EFI/BOOT'' v)) (\<lambda>v.
     io_then (on_esp (lib_create_file lib ''EFI/BOOT/BOOTAA64.EFI'' v)) (\<lambda>(efi, v).
     io_then (copy_into_fat_file lib w loader_efi efi v) (\<lambda>(_, v).
     io_then (on_esp (lib_create_file lib ''KERNEL'' v)) (\<lambda>(kernel, v).
     io_then (copy_into_fat_file lib w kernel_macho kernel v) (\<lambda>(_, v).
     io_then (on_esp (lib_create_file lib ''STARTUP.NSH'' v)) (\<lambda>(startup, v).
     on_esp (lib_write_all lib startup script_bytes v))))))))"

definition fill_volume ::
  "('d, 'p, 'v, 'h) disk_lib \<Rightarrow> os \<Rightarrow> path \<Rightarrow> path \<Rightarrow> (unit, host \<times> esp) io" where
  "fill_volume lib w loader_efi kernel_macho =
     io_then (on_esp (lib_format lib)) (\<lambda>_.
     io_then (on_esp (lib_mount lib)) (\<lambda>v.
     io_then (populate_esp lib w loader_efi kernel_macho v) (\<lambda>v.
     on_esp (lib_unmount lib v))))"

text \<open>The image file is open while this runs; \<open>build_open_image\<close> gives the file it ends with.\<close>

definition build_open_image ::
  "('d, 'p, 'v, 'h) disk_lib \<Rightarrow> os \<Rightarrow> path \<Rightarrow> path \<Rightarrow> host \<Rightarrow> (unit, io_error) res \<times> host \<times> std_file" where
  "build_open_image lib w loader_efi kernel_macho h =
     (case partition_disk lib \<lparr>f_data = zero_image, f_pos = 0\<rparr> of
        (Ok (start, len), file) \<Rightarrow>
          (case fill_volume lib w loader_efi kernel_macho (h, PartitionIo_new file start len) of
             (r, (h', p)) \<Rightarrow> (r, h', inner p))
      | (Err e, file) \<Rightarrow> (Err e, h, file)
      | (Panic, file) \<Rightarrow> (Panic, h, file)
      | (Diverge, file) \<Rightarrow> (Diverge, h, file))"

definition build_uefi_disk_image ::
  "('d, 'p, 'v, 'h) disk_lib \<Rightarrow> os \<Rightarrow> path \<Rightarrow> path \<Rightarrow> path \<Rightarrow> (unit, host) io" where
  "build_uefi_disk_image lib w image_path loader_efi kernel_macho =
     io_then (faulty w (CreateFile image_path) (\<lambda>h. (Ok (), h\<lparr>hfiles := (hfiles h)(image_path \<mapsto> [])\<rparr>))) (\<lambda>_.
     io_then (faulty w (SetLen image_path) (\<lambda>h. (Ok (), h\<lparr>hfiles := (hfiles h)(image_path \<mapsto> zero_image)\<rparr>))) (\<lambda>_ h.
       case build_open_image lib w loader_efi kernel_macho h of
         (r, (h', file)) \<Rightarrow> (r, h'\<lparr>hfiles := (hfiles h')(image_path \<mapsto> f_data file)\<rparr>)))"

section \<open>What the crates promise\<close>

definition through_window :: "(nat \<Rightarrow> nat) \<Rightarrow> ('a, esp) io \<Rightarrow> bool" where
  "through_window cap m \<longleftrightarrow> (\<forall>p. \<exists>qs rs. serve_all (partition_ops (file_ops cap)) qs p = (rs, snd (m p)))"

definition lib_confined :: "(nat \<Rightarrow> nat) \<Rightarrow> ('d, 'p, 'v, 'h) disk_lib \<Rightarrow> bool" where
  "lib_confined cap lib \<longleftrightarrow> through_window cap (lib_format lib) \<and> through_window cap (lib_mount lib) \<and>
     (\<forall>n v. through_window cap (lib_create_dir lib n v)) \<and> (\<forall>n v. through_window cap (lib_create_file lib n v)) \<and>
     (\<forall>h bs v. through_window cap (lib_write_all lib h bs v)) \<and> (\<forall>v. through_window cap (lib_unmount lib v))"

text \<open>\<open>V v p m\<close>: the mounted volume \<open>v\<close> over the window \<open>p\<close> holds the files \<open>m\<close>. \<open>nm h\<close> is the file of a handle, which
  stands at the end of the file as long as it was only written through; \<open>rd\<close> reads the files of an unmounted volume from its bytes.\<close>

definition fat_laws ::
  "('d, 'p, 'v, 'h) disk_lib \<Rightarrow> ('v \<Rightarrow> esp \<Rightarrow> (string \<rightharpoonup> bytes) \<Rightarrow> bool) \<Rightarrow> ('h \<Rightarrow> string) \<Rightarrow> (bytes \<Rightarrow> string \<rightharpoonup> bytes) \<Rightarrow> bool" where
  "fat_laws lib V nm rd \<longleftrightarrow>
     (\<forall>p p1 v p2. lib_format lib p = (Ok (), p1) \<longrightarrow> lib_mount lib p1 = (Ok v, p2) \<longrightarrow> V v p2 Map.empty) \<and>
     (\<forall>n v p m v' p'. V v p m \<longrightarrow> lib_create_dir lib n v p = (Ok v', p') \<longrightarrow> V v' p' m) \<and>
     (\<forall>n v p m h v' p'. V v p m \<longrightarrow> m n = None \<longrightarrow> lib_create_file lib n v p = (Ok (h, v'), p') \<longrightarrow>
        V v' p' (m(n \<mapsto> [])) \<and> nm h = n) \<and>
     (\<forall>h bs old v p m v' p'. V v p m \<longrightarrow> m (nm h) = Some old \<longrightarrow> lib_write_all lib h bs v p = (Ok v', p') \<longrightarrow>
        V v' p' (m(nm h \<mapsto> old @ bs))) \<and>
     (\<forall>v p m p'. V v p m \<longrightarrow> lib_unmount lib v p = (Ok (), p') \<longrightarrow>
        rd (w_data (partition_window file_content p')) = m)"

lemma fat_lawsD:
  assumes "fat_laws lib V nm rd"
  shows "lib_format lib p = (Ok (), p1) \<Longrightarrow> lib_mount lib p1 = (Ok v, p2) \<Longrightarrow> V v p2 Map.empty"
    and "V v p m \<Longrightarrow> lib_create_dir lib n v p = (Ok v', p') \<Longrightarrow> V v' p' m"
    and "V v p m \<Longrightarrow> m n = None \<Longrightarrow> lib_create_file lib n v p = (Ok (h, v'), p') \<Longrightarrow> V v' p' (m(n \<mapsto> [])) \<and> nm h = n"
    and "V v p m \<Longrightarrow> m (nm h) = Some old \<Longrightarrow> lib_write_all lib h bs v p = (Ok v', p') \<Longrightarrow> V v' p' (m(nm h \<mapsto> old @ bs))"
    and "V v p m \<Longrightarrow> lib_unmount lib v p = (Ok (), p') \<Longrightarrow> rd (w_data (partition_window file_content p')) = m"
  using assms unfolding fat_laws_def by (elim conjE, simp)+

section \<open>Confinement\<close>

text \<open>An operation keeps the image outside the window it started with.\<close>

definition kept :: "esp \<Rightarrow> esp \<Rightarrow> bool" where
  "kept p p' \<longleftrightarrow> (file_store.part_inv p \<longrightarrow> file_store.part_inv p' \<and> file_store.keeps_out p p')"

definition esp_safe :: "('a, host \<times> esp) io \<Rightarrow> bool" where
  "esp_safe m \<longleftrightarrow> (\<forall>h p. kept p (snd (snd (m (h, p)))))"

named_theorems esp_safe

lemma kept_refl: "kept p p"
  by (simp add: kept_def file_store.keeps_out_def)

lemma kept_trans: "kept p q \<Longrightarrow> kept q r \<Longrightarrow> kept p r"
  by (auto simp: kept_def file_store.keeps_out_def)

lemma through_window_kept:
  assumes "through_window cap m"
  shows "kept p (snd (m p))"
proof -
  obtain qs rs where r: "serve_all (partition_ops (file_ops cap)) qs p = (rs, snd (m p))"
    using assms unfolding through_window_def by blast
  then show ?thesis using file_store.run_refines [of p cap qs rs] by (auto simp: kept_def)
qed

lemma esp_safe_on_esp: "through_window cap m \<Longrightarrow> esp_safe (on_esp m)"
  using through_window_kept [of cap m] by (simp add: esp_safe_def on_esp_def split: prod.splits) (metis snd_conv)

lemma esp_safe_on_host [esp_safe]: "esp_safe (on_host m)"
  by (simp add: esp_safe_def on_host_def kept_refl split: prod.splits)

lemma esp_safe_then [esp_safe]:
  assumes "esp_safe m" "\<And>a. esp_safe (k a)"
  shows "esp_safe (io_then m k)"
  unfolding esp_safe_def
proof (intro allI)
  fix h p
  obtain r h1 p1 where m: "m (h, p) = (r, (h1, p1))" by (cases "m (h, p)") auto
  have k: "kept p p1" using assms(1) m unfolding esp_safe_def by (metis snd_conv)
  have "kept p1 (snd (snd (k a (h1, p1))))" for a using assms(2) by (simp add: esp_safe_def)
  then show "kept p (snd (snd (io_then m k (h, p))))"
    using k by (cases r) (auto simp: m io_then.simps intro: kept_trans)
qed

lemma esp_safe_pair [esp_safe]: "(\<And>a b. esp_safe (k a b)) \<Longrightarrow> esp_safe (case x of (a, b) \<Rightarrow> k a b)"
  by (cases x) simp

lemma lib_ops_safe:
  assumes "lib_confined cap lib"
  shows "esp_safe (on_esp (lib_format lib))" "esp_safe (on_esp (lib_mount lib))" "esp_safe (on_esp (lib_create_dir lib n v))"
    "esp_safe (on_esp (lib_create_file lib n v))" "esp_safe (on_esp (lib_write_all lib h bs v))"
    "esp_safe (on_esp (lib_unmount lib v))"
  using assms by (auto simp: lib_confined_def intro: esp_safe_on_esp [of cap])

lemma esp_safe_res [esp_safe]: "esp_safe (io_res r)"
  by (simp add: esp_safe_def io_res_def kept_refl)

lemma io_copy_safe:
  assumes "lib_confined cap lib"
  shows "esp_safe (io_copy lib w src dst rest count v)"
proof (induction rest arbitrary: count v rule: length_induct)
  case (1 rest)
  show ?case
  proof (cases "rest = []")
    case True
    then show ?thesis by (subst io_copy.simps) (simp add: esp_safe)
  next
    case False
    then have "length (drop COPY_BUF rest) < length rest" by (simp add: COPY_BUF_def)
    then have "esp_safe (io_copy lib w src dst (drop COPY_BUF rest) c u)" for c u using 1 by blast
    with False show ?thesis
      by (subst io_copy.simps) (simp add: esp_safe lib_ops_safe [OF assms])
  qed
qed

lemma fill_volume_safe:
  assumes "lib_confined cap lib"
  shows "esp_safe (fill_volume lib w loader_efi kernel_macho)"
  unfolding fill_volume_def populate_esp_def copy_into_fat_file_def
  by (intro esp_safe lib_ops_safe [OF assms] io_copy_safe [OF assms])

text \<open>The run of \<open>build_open_image\<close> once the partition table is in place.\<close>

lemma filled_window:
  assumes "lib_confined cap lib" "file_inv f0" "unat start + unat len < 2 ^ 64"
    and "fill_volume lib w loader_efi kernel_macho (h, PartitionIo_new f0 start len) = (r, (h', p'))"
  shows "file_store.part_inv p'" "file_store.keeps_out (PartitionIo_new f0 start len) p'"
proof -
  have "kept (PartitionIo_new f0 start len) p'"
    using fill_volume_safe [OF assms(1), of w loader_efi kernel_macho] assms(4) unfolding esp_safe_def by (metis snd_conv)
  moreover have "file_store.part_inv (PartitionIo_new f0 start len)"
    by (rule file_store.new_part_inv [OF assms(2,3)])
  ultimately show "file_store.part_inv p'" "file_store.keeps_out (PartitionIo_new f0 start len) p'"
    by (simp_all add: kept_def)
qed

section \<open>Contents of the volume\<close>

definition boot_files :: "bytes \<Rightarrow> bytes \<Rightarrow> string \<rightharpoonup> bytes" where
  "boot_files loader kn =
     [''EFI/BOOT/BOOTAA64.EFI'' \<mapsto> loader, ''KERNEL'' \<mapsto> kn, ''STARTUP.NSH'' \<mapsto> script_bytes]"

definition holds :: "('v \<Rightarrow> esp \<Rightarrow> (string \<rightharpoonup> bytes) \<Rightarrow> bool) \<Rightarrow> 'v \<Rightarrow> host \<times> esp \<Rightarrow> (string \<rightharpoonup> bytes) \<Rightarrow> bool" where
  "holds V v s m \<longleftrightarrow> V v (snd s) m"

lemma on_esp_OkE:
  assumes "on_esp m s = (Ok a, s')"
  obtains p' where "m (snd s) = (Ok a, p')" "s' = (fst s, p')"
  using assms by (cases s) (auto simp: on_esp_def split: prod.splits)

lemma create_dir_holds:
  assumes "fat_laws lib V nm rd" "on_esp (lib_create_dir lib n v) s = (Ok v', s')" "holds V v s m"
  shows "holds V v' s' m" "fst s' = fst s"
  using assms(2,3) fat_lawsD(2) [OF assms(1)] by (auto simp: holds_def elim!: on_esp_OkE)

lemma create_file_holds:
  assumes "fat_laws lib V nm rd" "on_esp (lib_create_file lib n v) s = (Ok (fh, v'), s')" "holds V v s m" "m n = None"
  shows "holds V v' s' (m(n \<mapsto> []))" "nm fh = n" "fst s' = fst s"
  using assms(2-4) fat_lawsD(3) [OF assms(1), of v "snd s" m n fh v'] by (auto simp: holds_def elim!: on_esp_OkE)

lemma write_all_holds:
  assumes "fat_laws lib V nm rd" "on_esp (lib_write_all lib fh bs v) s = (Ok v', s')" "holds V v s m" "m (nm fh) = Some old"
  shows "holds V v' s' (m(nm fh \<mapsto> old @ bs))" "fst s' = fst s"
  using assms(2-4) fat_lawsD(4) [OF assms(1), of v "snd s" m fh old bs v'] by (auto simp: holds_def elim!: on_esp_OkE)

lemma io_copy_holds:
  assumes "fat_laws lib V nm rd" "io_copy lib w src fh rest c v s = (Ok (c', v'), s')" "holds V v s m" "m (nm fh) = Some old"
  shows "holds V v' s' (m(nm fh \<mapsto> old @ rest)) \<and> fst s' = fst s \<and> c' = c + word_of_nat (length rest)"
  using assms(2-4)
proof (induction rest arbitrary: c v s m old rule: length_induct)
  case (1 rest)
  show ?case
  proof (cases "rest = []")
    case True
    with 1(2-4) show ?thesis
      by (subst (asm) io_copy.simps)
        (cases s, auto simp: on_host_def io_res_def fun_upd_idem elim!: io_then_OkE faulty_OkE split: prod.splits)
  next
    case False
    let ?a = "take COPY_BUF rest" and ?b = "drop COPY_BUF rest"
    from 1(2) False obtain v1 s1 where
      w: "on_esp (lib_write_all lib fh ?a v) s = (Ok v1, s1)" and
      k: "io_copy lib w src fh ?b (c + word_of_nat (length ?a)) v1 s1 = (Ok (c', v'), s')"
      by (subst (asm) io_copy.simps)
        (cases s, auto simp: on_host_def elim!: io_then_OkE faulty_OkE split: prod.splits)
    note h = write_all_holds [OF assms(1) w 1(3,4)]
    have "length ?b < length rest" using False by (simp add: COPY_BUF_def)
    from 1(1) [rule_format, OF this k h(1)] h(2) have
      "holds V v' s' (m(nm fh \<mapsto> (old @ ?a) @ ?b))" "fst s' = fst s"
      "c' = c + word_of_nat (length ?a) + word_of_nat (length ?b)" by simp_all
    moreover have "word_of_nat (length ?a) + word_of_nat (length ?b) = (word_of_nat (length rest) :: u64)"
      unfolding of_nat_add [symmetric] length_append [symmetric] append_take_drop_id ..
    ultimately show ?thesis by (simp only: append_assoc append_take_drop_id add.assoc)
  qed
qed

lemma copy_holds:
  assumes "fat_laws lib V nm rd" "copy_into_fat_file lib w src fh v s = (Ok (c, v'), s')" "holds V v s m" "m (nm fh) = Some []"
    and "hfiles (fst s) src = Some bs"
  shows "holds V v' s' (m(nm fh \<mapsto> bs))" "fst s' = fst s"
proof -
  obtain b s1 where o: "on_host (file_open w src) s = (Ok b, s1)" "io_copy lib w src fh b 0 v s1 = (Ok (c, v'), s')"
    using assms(2) by (auto simp: copy_into_fat_file_def elim: io_then_OkE)
  have "b = bs \<and> s1 = s"
    using o(1) assms(5) by (cases s) (auto simp: on_host_def file_open_def ok_or_def elim!: faulty_OkE split: prod.splits)
  then show "holds V v' s' (m(nm fh \<mapsto> bs))" "fst s' = fst s"
    using io_copy_holds [OF assms(1) o(2), of m "[]"] assms(3,4) by simp_all
qed

lemma populated:
  assumes laws: "fat_laws lib V nm rd" and run: "populate_esp lib w le km v s = (Ok v', s')" and v: "holds V v s Map.empty"
    and src: "hfiles (fst s) le = Some lb" "hfiles (fst s) km = Some kb"
  shows "holds V v' s' (boot_files lb kb)" "fst s' = fst s"
proof -
  obtain v1 s1 v2 s2 efi v3 s3 c4 v4 s4 kn v5 s5 c6 v6 s6 st v7 s7 where
    1: "on_esp (lib_create_dir lib ''EFI'' v) s = (Ok v1, s1)" and
    2: "on_esp (lib_create_dir lib ''EFI/BOOT'' v1) s1 = (Ok v2, s2)" and
    3: "on_esp (lib_create_file lib ''EFI/BOOT/BOOTAA64.EFI'' v2) s2 = (Ok (efi, v3), s3)" and
    4: "copy_into_fat_file lib w le efi v3 s3 = (Ok (c4, v4), s4)" and
    5: "on_esp (lib_create_file lib ''KERNEL'' v4) s4 = (Ok (kn, v5), s5)" and
    6: "copy_into_fat_file lib w km kn v5 s5 = (Ok (c6, v6), s6)" and
    7: "on_esp (lib_create_file lib ''STARTUP.NSH'' v6) s6 = (Ok (st, v7), s7)" and
    8: "on_esp (lib_write_all lib st script_bytes v7) s7 = (Ok v', s')"
    using run unfolding populate_esp_def by (auto elim!: io_then_OkE)
  note h1 = create_dir_holds [OF laws 1 v]
  note h2 = create_dir_holds [OF laws 2 h1(1)]
  note h3 = create_file_holds [OF laws 3 h2(1)]
  note h4 = copy_holds [OF laws 4 h3(1)]
  have f3: "nm efi = ''EFI/BOOT/BOOTAA64.EFI''" "fst s3 = fst s" using h3(2,3) h1(2) h2(2) by simp_all
  have v4: "holds V v4 s4 [''EFI/BOOT/BOOTAA64.EFI'' \<mapsto> lb]" "fst s4 = fst s"
    using h4 [of lb] f3 src by simp_all
  note h5 = create_file_holds [OF laws 5 v4(1)]
  have f5: "nm kn = ''KERNEL''" "fst s5 = fst s" using h5(2,3) v4(2) by simp_all
  have v5: "holds V v5 s5 [''EFI/BOOT/BOOTAA64.EFI'' \<mapsto> lb, ''KERNEL'' \<mapsto> []]" using h5(1) by simp
  have v6: "holds V v6 s6 [''EFI/BOOT/BOOTAA64.EFI'' \<mapsto> lb, ''KERNEL'' \<mapsto> kb]" "fst s6 = fst s"
    using copy_holds [OF laws 6 v5, of kb] f5 src by simp_all
  note h7 = create_file_holds [OF laws 7 v6(1)]
  have v7: "holds V v7 s7 [''EFI/BOOT/BOOTAA64.EFI'' \<mapsto> lb, ''KERNEL'' \<mapsto> kb, ''STARTUP.NSH'' \<mapsto> []]"
    "nm st = ''STARTUP.NSH''" "fst s7 = fst s" using h7 v6(2) by simp_all
  show "holds V v' s' (boot_files lb kb)" "fst s' = fst s"
    using write_all_holds [OF laws 8 v7(1)] v7(2,3) by (simp_all add: boot_files_def)
qed

lemma filled:
  assumes laws: "fat_laws lib V nm rd" and run: "fill_volume lib w le km (h, p) = (Ok (), (h', p'))"
    and src: "hfiles h le = Some lb" "hfiles h km = Some kb"
  shows "rd (w_data (partition_window file_content p')) = boot_files lb kb" "h' = h"
proof -
  obtain s1 v s2 v3 s3 where
    1: "on_esp (lib_format lib) (h, p) = (Ok (), s1)" and 2: "on_esp (lib_mount lib) s1 = (Ok v, s2)" and
    3: "populate_esp lib w le km v s2 = (Ok v3, s3)" and 4: "on_esp (lib_unmount lib v3) s3 = (Ok (), (h', p'))"
    using run unfolding fill_volume_def by (auto elim!: io_then_OkE)
  obtain p1 p2 where 5: "lib_format lib p = (Ok (), p1)" "s1 = (h, p1)" "lib_mount lib p1 = (Ok v, p2)" "s2 = (h, p2)"
    using 1 2 by (auto elim!: on_esp_OkE)
  have "holds V v s2 Map.empty" using fat_lawsD(1) [OF laws 5(1,3)] by (simp add: holds_def 5(4))
  from populated [OF laws 3 this, of lb kb] src 5(4)
  have v3: "V v3 (snd s3) (boot_files lb kb)" "fst s3 = h" by (simp_all add: holds_def)
  obtain q where "lib_unmount lib v3 (snd s3) = (Ok (), q)" "(h', p') = (fst s3, q)"
    using 4 by (rule on_esp_OkE)
  then show "rd (w_data (partition_window file_content p')) = boot_files lb kb" "h' = h"
    using fat_lawsD(5) [OF laws v3(1)] v3(2) by simp_all
qed

section \<open>Properties\<close>

text \<open>Bytes \<open>[start, start + len)\<close> of an image, zeros past its end.\<close>

definition image_byte :: "bytes \<Rightarrow> nat \<Rightarrow> u8" where
  "image_byte data i = (if i < length data then data ! i else 0)"

definition esp_bytes :: "bytes \<Rightarrow> nat \<Rightarrow> nat \<Rightarrow> bytes" where
  "esp_bytes data start len = map (\<lambda>i. image_byte data (start + i)) [0..<len]"

lemma file_content_image: "file_content f = image_byte (f_data f)"
  by (simp add: file_content_def image_byte_def fun_eq_iff)

definition blank_image :: std_file where
  "blank_image = \<lparr>f_data = zero_image, f_pos = 0\<rparr>"

lemma build_run:
  assumes "build_uefi_disk_image lib w img le km h = (r, h')" "os_fault w (CreateFile img) h = None"
    and "os_fault w (SetLen img) (h\<lparr>hfiles := (hfiles h)(img \<mapsto> [])\<rparr>) = None"
    and "partition_disk lib blank_image = (Ok (start, len), f0)"
  obtains h1 p where
    "fill_volume lib w le km (h\<lparr>hfiles := (hfiles h)(img \<mapsto> zero_image)\<rparr>, PartitionIo_new f0 start len) = (r, (h1, p))"
    "h' = h1\<lparr>hfiles := (hfiles h1)(img \<mapsto> f_data (inner p))\<rparr>"
proof -
  let ?h = "h\<lparr>hfiles := (hfiles h)(img \<mapsto> zero_image)\<rparr>"
  obtain r1 h1 p where f: "fill_volume lib w le km (?h, PartitionIo_new f0 start len) = (r1, (h1, p))"
    by (metis prod.exhaust)
  have "build_open_image lib w le km ?h = (r1, h1, inner p)"
    using assms(4) f by (simp add: build_open_image_def blank_image_def)
  then have "r = r1" "h' = h1\<lparr>hfiles := (hfiles h1)(img \<mapsto> f_data (inner p))\<rparr>"
    using assms(1-3) by (simp_all add: build_uefi_disk_image_def io_then.simps faulty_def)
  with f show thesis by (auto intro: that)
qed

text \<open>C16: Building the disk image never damages the partition table: however formatting, mounting and copying end, with an
  error or not, every byte of the image file outside the EFI system partition is the byte the partition-table crate left
  there.\<close>

theorem partition_table_kept:
  assumes "lib_confined cap lib" "partition_disk lib blank_image = (Ok (start, len), f0)"
    and "file_inv f0" "unat start + unat len < 2 ^ 64"
    and "os_fault w (CreateFile img) h = None" "os_fault w (SetLen img) (h\<lparr>hfiles := (hfiles h)(img \<mapsto> [])\<rparr>) = None"
    and "build_uefi_disk_image lib w img loader_efi kernel_macho h = (r, h')"
  shows "\<exists>data. hfiles h' img = Some data \<and>
    (\<forall>i. i < unat start \<or> unat start + unat len \<le> i \<longrightarrow> image_byte data i = image_byte (f_data f0) i)"
proof -
  obtain h1 p where run: "fill_volume lib w loader_efi kernel_macho
      (h\<lparr>hfiles := (hfiles h)(img \<mapsto> zero_image)\<rparr>, PartitionIo_new f0 start len) = (r, (h1, p))"
    and h': "h' = h1\<lparr>hfiles := (hfiles h1)(img \<mapsto> f_data (inner p))\<rparr>"
    using build_run [OF assms(7,5,6,2)] by blast
  from filled_window(2) [OF assms(1,3,4) run] show ?thesis
    by (simp add: h' file_store.keeps_out_def PartitionIo_new_def file_content_image)
qed

lemma disk_image_written:
  assumes "lib_confined cap lib" "fat_laws lib V nm rd" "partition_disk lib blank_image = (Ok (start, len), f0)"
    and "file_inv f0" "unat start + unat len < 2 ^ 64"
    and "build_uefi_disk_image lib w img loader_efi kernel_macho h = (Ok (), h')"
    and "hfiles h loader_efi = Some loader" "hfiles h kernel_macho = Some kn" "loader_efi \<noteq> img" "kernel_macho \<noteq> img"
  shows "\<exists>data. hfiles h' = (hfiles h)(img \<mapsto> data) \<and>
    rd (esp_bytes data (unat start) (unat len)) = boot_files loader kn"
proof -
  let ?h = "h\<lparr>hfiles := (hfiles h)(img \<mapsto> zero_image)\<rparr>"
  have "os_fault w (CreateFile img) h = None" "os_fault w (SetLen img) (h\<lparr>hfiles := (hfiles h)(img \<mapsto> [])\<rparr>) = None"
    using assms(6) by (auto simp: build_uefi_disk_image_def elim!: io_then_OkE faulty_OkE)
  then obtain h1 p where run: "fill_volume lib w loader_efi kernel_macho (?h, PartitionIo_new f0 start len) = (Ok (), (h1, p))"
    and h': "h' = h1\<lparr>hfiles := (hfiles h1)(img \<mapsto> f_data (inner p))\<rparr>"
    using build_run [OF assms(6) _ _ assms(3)] by blast
  have "hfiles ?h loader_efi = Some loader" "hfiles ?h kernel_macho = Some kn" using assms(7-10) by simp_all
  note f = filled [OF assms(2) run this]
  have "pbase p = start" "plen p = len"
    using filled_window(2) [OF assms(1,4,5) run] by (simp_all add: file_store.keeps_out_def PartitionIo_new_def)
  then have "rd (esp_bytes (f_data (inner p)) (unat start) (unat len)) = boot_files loader kn"
    using f(1) by (simp add: partition_window_def esp_bytes_def file_content_image)
  moreover have "hfiles h' = (hfiles h)(img \<mapsto> f_data (inner p))" by (simp add: h' f(2))
  ultimately show ?thesis by blast
qed

text \<open>C17: When the disk image is built without an error, the EFI system partition read back from the image file holds
  exactly the boot loader at the default UEFI path, the kernel under the name the loader opens and the UTF-16
  startup script, each byte for byte; no other file of the host has changed.\<close>

theorem esp_holds_boot_files:
  assumes "lib_confined cap lib" "fat_laws lib V nm rd" "partition_disk lib blank_image = (Ok (start, len), f0)"
    and "file_inv f0" "unat start + unat len < 2 ^ 64"
    and "build_uefi_disk_image lib w img loader_efi kernel_macho h = (Ok (), h')"
    and "hfiles h loader_efi = Some loader" "hfiles h kernel_macho = Some kn" "loader_efi \<noteq> img" "kernel_macho \<noteq> img"
  shows "\<exists>data. hfiles h' = (hfiles h)(img \<mapsto> data) \<and>
    rd (esp_bytes data (unat start) (unat len)) = boot_files loader kn"
  using assms by (rule disk_image_written)

subsection \<open>A concrete volume\<close>

text \<open>A one-byte partition whose volume records, on unmounting, that it holds the sample boot files.\<close>

definition sample_files :: "bytes \<Rightarrow> bytes \<Rightarrow> (string \<times> bytes) list" where
  "sample_files loader kn = [(''EFI/BOOT/BOOTAA64.EFI'', loader), (''KERNEL'', kn), (''STARTUP.NSH'', script_bytes)]"

definition sample_unmount :: "bytes \<Rightarrow> bytes \<Rightarrow> (string \<times> bytes) list \<Rightarrow> (unit, esp) io" where
  "sample_unmount loader kn v p =
     (let p' = snd (serve_all (partition_ops (file_ops id)) [ReqSeek (SeekStart 0), ReqWrite [1]] p) in
      (if v = sample_files loader kn \<and> w_data (partition_window file_content p') = [1] then Ok () else Err (Foreign 2), p'))"

definition sample_lib :: "bytes \<Rightarrow> bytes \<Rightarrow> (unit, unit, (string \<times> bytes) list, string) disk_lib" where
  "sample_lib loader kn = \<lparr>lib_mbr = (\<lambda>_ f. (Ok (), f)), lib_create = (\<lambda>f. (Ok (), f)),
     lib_add_partition = (\<lambda>_ _ _ f. (Ok (1, ()), f)), lib_partition = (\<lambda>_ _. Some ()),
     lib_write_inplace = (\<lambda>_ f. (Ok (), f)), lib_write_disk = (\<lambda>_ f. (Ok (), f)),
     lib_bytes_start = (\<lambda>_. Ok 512), lib_bytes_len = (\<lambda>_. Ok 1),
     lib_format = (\<lambda>p. (Ok (), p)), lib_mount = (\<lambda>p. (Ok [], p)), lib_create_dir = (\<lambda>_ v p. (Ok v, p)),
     lib_create_file = (\<lambda>n v p. (Ok (n, AList.update n [] v), p)),
     lib_write_all = (\<lambda>n bs v p. (Ok (AList.update n (case map_of v n of Some old \<Rightarrow> old @ bs | None \<Rightarrow> bs) v), p)),
     lib_unmount = sample_unmount loader kn\<rparr>"

definition sample_read :: "bytes \<Rightarrow> bytes \<Rightarrow> bytes \<Rightarrow> string \<rightharpoonup> bytes" where
  "sample_read loader kn data = (if data = [1] then map_of (sample_files loader kn) else Map.empty)"

lemma sample_through: "through_window id (\<lambda>p. (r, p))"
  unfolding through_window_def by (auto intro: exI [of _ "[]"])

lemma sample_confined: "lib_confined id (sample_lib loader kn)"
proof -
  have "through_window id (sample_unmount loader kn v)" for v
    unfolding through_window_def sample_unmount_def by (metis prod.collapse snd_conv)
  then show ?thesis by (simp add: lib_confined_def sample_lib_def sample_through)
qed

lemma sample_laws: "fat_laws (sample_lib loader kn) (\<lambda>v p m. m = map_of v) (\<lambda>n. n) (sample_read loader kn)"
  by (auto simp: fat_laws_def sample_lib_def sample_unmount_def sample_read_def Let_def update_conv' split: if_splits)

lemma sample_partition_disk: "partition_disk (sample_lib loader kn) blank_image = (Ok (512, 1), blank_image)"
  by (simp add: partition_disk_def sample_lib_def gpt_call_def io_then.simps io_res_def u32_try_def IMAGE_SIZE_def
      saturating_sub_def)

lemma length_zero_image: "length zero_image = 268435456"
  unfolding zero_image_def length_replicate IMAGE_SIZE_def by simp

lemma blank_image_inv: "file_inv blank_image"
  by (simp add: file_inv_def blank_image_def length_zero_image)

definition sample_host :: "bytes \<Rightarrow> bytes \<Rightarrow> host" where
  "sample_host loader kn = \<lparr>hfiles = [ascii ''l'' \<mapsto> loader, ascii ''k'' \<mapsto> kn], hdirs = {}, henv = Map.empty, hlog = []\<rparr>"

definition calm_os :: os where
  "calm_os = \<lparr>os_status = (\<lambda>_ h. (Ok True, h)), os_listing = (\<lambda>_ _. []), os_fault = (\<lambda>_ _. None),
     os_text = (\<lambda>_. [])\<rparr>"

definition sample_image :: bytes where
  "sample_image = take 512 zero_image @ [1] @ drop 513 zero_image"

lemma sample_unmounted:
  "sample_unmount loader kn (sample_files loader kn) (PartitionIo_new blank_image 512 1) =
     (Ok (), \<lparr>inner = \<lparr>f_data = sample_image, f_pos = 513\<rparr>, pbase = 512, plen = 1, ppos = 1\<rparr>)"
proof -
  have s: "serve_all (partition_ops (file_ops id)) [ReqSeek (SeekStart 0), ReqWrite [1]] (PartitionIo_new blank_image 512 1) =
    ([RepSeek (Ok 0), RepWrite (Ok 1)], \<lparr>inner = \<lparr>f_data = sample_image, f_pos = 513\<rparr>, pbase = 512, plen = 1, ppos = 1\<rparr>)"
    by (simp add: partition_eval io_then.simps blank_image_def sample_image_def length_zero_image)
  have "sample_image ! 512 = 1" by (simp add: sample_image_def nth_append length_zero_image)
  moreover have "512 < length sample_image" by (simp add: sample_image_def length_zero_image)
  ultimately show ?thesis
    unfolding sample_unmount_def s Let_def snd_conv by (simp add: partition_window_def file_content_def)
qed

definition calm :: "os \<Rightarrow> bool" where
  "calm w \<longleftrightarrow> (\<forall>op h. os_fault w op h = None)"

lemma sample_write:
  "lib_write_all (sample_lib loader kn) n bs v p =
     (Ok (AList.update n (case map_of v n of Some old \<Rightarrow> old @ bs | None \<Rightarrow> bs) v), p)"
  by (simp add: sample_lib_def)

lemma sample_copies:
  assumes "calm w" "map_of v n = Some old"
  shows "\<exists>c'. io_copy (sample_lib loader kn) w src n rest c v (h, p) = (Ok (c', AList.update n (old @ rest) v), (h, p))"
  using assms(2)
proof (induction rest arbitrary: c v old rule: length_induct)
  case (1 rest)
  show ?case
  proof (cases "rest = []")
    case True
    with 1(2) assms(1) show ?thesis
      by (subst io_copy.simps) (simp add: io_then.simps on_host_def faulty_def calm_def io_res_def update_triv)
  next
    case False
    let ?a = "take COPY_BUF rest" and ?b = "drop COPY_BUF rest"
    let ?v = "AList.update n (old @ ?a) v"
    have "length ?b < length rest" using False by (simp add: COPY_BUF_def)
    moreover have "map_of ?v n = Some (old @ ?a)" by (simp add: update_conv')
    ultimately obtain c' where "io_copy (sample_lib loader kn) w src n ?b (c + word_of_nat (length ?a)) ?v (h, p) =
        (Ok (c', AList.update n ((old @ ?a) @ ?b) ?v), (h, p))" using 1(1) by blast
    then have "io_copy (sample_lib loader kn) w src n rest c v (h, p) = (Ok (c', AList.update n ((old @ ?a) @ ?b) ?v), (h, p))"
      using 1(2) False assms(1)
      by (subst io_copy.simps) (simp add: io_then.simps on_host_def on_esp_def faulty_def calm_def sample_write)
    then show ?thesis by simp
  qed
qed

lemma sample_copy_file:
  assumes "calm w" "map_of v n = Some []" "hfiles h src = Some bs"
  obtains c where "copy_into_fat_file (sample_lib loader kn) w src n v (h, p) = (Ok (c, AList.update n bs v), (h, p))"
  using sample_copies [OF assms(1,2), of loader kn src bs 0 h p] assms(1,3)
  by (auto simp: copy_into_fat_file_def on_host_def file_open_def faulty_def calm_def io_then.simps)

lemma sample_built:
  assumes "calm w" "hfiles h le = Some loader" "hfiles h km = Some kn" "le \<noteq> img" "km \<noteq> img"
  shows "build_uefi_disk_image (sample_lib loader kn) w img le km h =
     (Ok (), h\<lparr>hfiles := (hfiles h)(img \<mapsto> sample_image)\<rparr>)"
proof -
  let ?h = "h\<lparr>hfiles := (hfiles h)(img \<mapsto> zero_image)\<rparr>"
  let ?p = "PartitionIo_new blank_image 512 1" and ?efi = "''EFI/BOOT/BOOTAA64.EFI''"
  have src: "hfiles ?h le = Some loader" "hfiles ?h km = Some kn" using assms by simp_all
  obtain c1 where c1: "copy_into_fat_file (sample_lib loader kn) w le ?efi [(?efi, [])] (?h, ?p) =
      (Ok (c1, AList.update ?efi loader [(?efi, [])]), (?h, ?p))"
    by (rule sample_copy_file [OF assms(1) _ src(1), where n = ?efi and v = "[(?efi, [])]"]) simp_all
  obtain c2 where c2: "copy_into_fat_file (sample_lib loader kn) w km ''KERNEL'' [(?efi, loader), (''KERNEL'', [])] (?h, ?p) =
      (Ok (c2, AList.update ''KERNEL'' kn [(?efi, loader), (''KERNEL'', [])]), (?h, ?p))"
    by (rule sample_copy_file [OF assms(1) _ src(2), where n = "''KERNEL''" and v = "[(?efi, loader), (''KERNEL'', [])]"]) simp_all
  have mk: "lib_create_dir (sample_lib loader kn) n v = (\<lambda>p. (Ok v, p))"
    "lib_create_file (sample_lib loader kn) n v = (\<lambda>p. (Ok (n, AList.update n [] v), p))" for n v
    by (simp_all add: sample_lib_def)
  have p: "populate_esp (sample_lib loader kn) w le km [] (?h, PartitionIo_new blank_image 512 1) =
      (Ok (sample_files loader kn), (?h, PartitionIo_new blank_image 512 1))"
    using c1 c2 by (simp add: populate_esp_def on_esp_def io_then.simps mk sample_write sample_files_def)
  have "fill_volume (sample_lib loader kn) w le km (?h, PartitionIo_new blank_image 512 1) =
      (Ok (), (?h, \<lparr>inner = \<lparr>f_data = sample_image, f_pos = 513\<rparr>, pbase = 512, plen = 1, ppos = 1\<rparr>))"
    using p sample_unmounted by (simp add: fill_volume_def on_esp_def io_then.simps sample_lib_def)
  then show ?thesis
    using sample_partition_disk assms(1)
    by (simp add: build_uefi_disk_image_def build_open_image_def io_then.simps faulty_def calm_def blank_image_def)
qed

lemma sample_build:
  "build_uefi_disk_image (sample_lib loader kn) calm_os (ascii ''i'') (ascii ''l'') (ascii ''k'') (sample_host loader kn) =
     (Ok (), (sample_host loader kn)\<lparr>hfiles := (hfiles (sample_host loader kn))(ascii ''i'' \<mapsto> sample_image)\<rparr>)"
  by (rule sample_built) (simp_all add: calm_def calm_os_def sample_host_def ascii_def)

theorem partition_table_kept_witness:
  "\<exists>data. hfiles (snd (build_uefi_disk_image (sample_lib [0x4D, 0x5A] [0xCF]) calm_os (ascii ''i'') (ascii ''l'') (ascii ''k'') (sample_host [0x4D, 0x5A] [0xCF]))) (ascii ''i'') = Some data \<and>
     image_byte data 511 = image_byte (f_data blank_image) 511 \<and> image_byte data 513 = image_byte (f_data blank_image) 513"
proof -
  have "os_fault calm_os op x = None" for op x by (simp add: calm_os_def)
  from partition_table_kept [OF sample_confined sample_partition_disk blank_image_inv _ this this sample_build]
  show ?thesis by (auto simp: sample_build)
qed

theorem esp_holds_boot_files_witness:
  "\<exists>data. hfiles (snd (build_uefi_disk_image (sample_lib [0x4D, 0x5A] [0xCF]) calm_os (ascii ''i'') (ascii ''l'') (ascii ''k'') (sample_host [0x4D, 0x5A] [0xCF]))) =
       (hfiles (sample_host [0x4D, 0x5A] [0xCF]))(ascii ''i'' \<mapsto> data) \<and>
     sample_read [0x4D, 0x5A] [0xCF] (esp_bytes data 512 1) = boot_files [0x4D, 0x5A] [0xCF]"
  using esp_holds_boot_files [OF sample_confined [of "[0x4D, 0x5A]" "[0xCF]"] sample_laws sample_partition_disk blank_image_inv _ sample_build,
    of "[0x4D, 0x5A]" "[0xCF]"]
  by (simp add: sample_build) (simp add: sample_host_def ascii_def)

end
