(* ===== verification/Xtask.thy ===== *)
theory Xtask
  imports Disk_Image
begin

text \<open>
  The commands of \<open>xtask/src/main.rs\<close>: dispatch and exit codes, the cargo runs, the search for the boot loader among the
  build artifacts, the image build that ties the conversion and the disk image together, and the QEMU launch. The
  arguments are those after the program name.
\<close>

section \<open>Cargo\<close>

definition TARGET :: string where "TARGET = ''aarch64-unknown-none''"
definition UEFI_TARGET :: string where "UEFI_TARGET = ''aarch64-unknown-uefi''"
definition KERNEL_NAME :: string where "KERNEL_NAME = ''kernel''"
definition LOADER_NAME :: string where "LOADER_NAME = ''loader''"
definition QEMU_FIRMWARE_ENV :: string where "QEMU_FIRMWARE_ENV = ''QEMU_EFI_FD''"

definition cargo_args :: "string list \<Rightarrow> bytes list" where
  "cargo_args args = map ascii (''cargo'' # args)"

definition cargo :: "os \<Rightarrow> string list \<Rightarrow> (bool, host) io" where
  "cargo w args = run_command w (cargo_args args)"

primrec cargo_many :: "os \<Rightarrow> string list list \<Rightarrow> (bool, host) io" where
  "cargo_many w [] = io_res (Ok True)"
| "cargo_many w (args # runs) =
     io_then (cargo w args) (\<lambda>success. if \<not> success then io_res (Ok False) else cargo_many w runs)"

definition check_runs :: "string list list" where
  "check_runs =
     [[''check'', ''-p'', KERNEL_NAME, ''--target'', TARGET],
      [''check'', ''-p'', LOADER_NAME, ''--target'', UEFI_TARGET],
      [''check'', ''-p'', ''xtask'']]"

definition check :: "os \<Rightarrow> (bool, host) io" where
  "check w = cargo_many w check_runs"

definition clippy_runs :: "string list list" where
  "clippy_runs =
     [[''clippy'', ''-p'', KERNEL_NAME, ''--target'', TARGET, ''--'', ''-D'', ''warnings''],
      [''clippy'', ''-p'', LOADER_NAME, ''--target'', UEFI_TARGET, ''--'', ''-D'', ''warnings''],
      [''clippy'', ''-p'', ''xtask'', ''--'', ''-D'', ''warnings'']]"

definition clippy :: "os \<Rightarrow> (bool, host) io" where
  "clippy w = cargo_many w clippy_runs"

section \<open>The boot loader artifact\<close>

text \<open>\<open>Path::extension\<close>: what follows the last dot, unless nothing precedes it.\<close>

definition extension :: "bytes \<Rightarrow> bytes option" where
  "extension name =
     (if name = ascii ''..'' then None
      else case dropWhile (\<lambda>b. b \<noteq> 46) (rev name) of
        [] \<Rightarrow> None
      | [_] \<Rightarrow> None
      | _ # _ # _ \<Rightarrow> Some (rev (takeWhile (\<lambda>b. b \<noteq> 46) (rev name))))"

fun starts_with :: "bytes \<Rightarrow> bytes \<Rightarrow> bool" where
  "starts_with s pat = (take (length pat) s = pat)"

fun contains :: "bytes \<Rightarrow> bytes \<Rightarrow> bool" where
  "contains [] pat = (pat = [])"
| "contains (b # s) pat = (starts_with (b # s) pat \<or> contains s pat)"

definition is_efi :: "bytes \<Rightarrow> bool" where
  "is_efi file_name = (Option.bind (extension file_name) from_utf8 = Some (ascii ''efi''))"

definition matches_name :: "string \<Rightarrow> bytes \<Rightarrow> bool" where
  "matches_name name file_name =
     (case from_utf8 file_name of
        None \<Rightarrow> False
      | Some file \<Rightarrow> starts_with file (ascii name) \<or> contains file (ascii (name @ ''-'')))"

definition deps_dir :: path where
  "deps_dir = join (join (join (ascii ''target'') UEFI_TARGET) ''debug'') ''deps''"

definition entry_path :: "path \<Rightarrow> dir_entry \<Rightarrow> path" where
  "entry_path dir e = dir @ ascii ''/'' @ de_name e"

text \<open>\<open>UNIX_EPOCH\<close> is time 0.\<close>

definition modified_or_epoch :: "int option \<Rightarrow> int" where
  "modified_or_epoch t = (case t of None \<Rightarrow> 0 | Some t \<Rightarrow> t)"

primrec newest_match ::
  "string \<Rightarrow> (dir_entry, io_error) res list \<Rightarrow> (int \<times> path) option \<Rightarrow> ((int \<times> path) option, io_error) res" where
  "newest_match name [] best = Ok best"
| "newest_match name (ent # entries) best =
     and_then ent (\<lambda>e.
     if \<not> (is_efi (de_name e) \<and> matches_name name (de_name e)) then newest_match name entries best
     else
       and_then (de_meta e) (\<lambda>meta.
       let modified = modified_or_epoch meta;
           replace = (case best of None \<Rightarrow> True | Some (best_time, _) \<Rightarrow> modified > best_time)
       in newest_match name entries (if replace then Some (modified, entry_path deps_dir e) else best)))"

definition no_artifact :: "string \<Rightarrow> io_error" where
  "no_artifact name = IoError NotFound (''could not locate '' @ name @ ''.efi in target/aarch64-unknown-uefi/debug/deps'')"

definition discover_efi_artifact :: "os \<Rightarrow> string \<Rightarrow> (path, host) io" where
  "discover_efi_artifact w name =
     io_then (fs_read_dir w deps_dir) (\<lambda>entries.
     io_then (io_res (newest_match name entries None)) (\<lambda>best.
     io_res (ok_or (map_option snd best) (no_artifact name))))"

section \<open>Building the image\<close>

definition convert_elf_to_macho :: "elf_parser \<Rightarrow> os \<Rightarrow> path \<Rightarrow> path \<Rightarrow> (unit, host) io" where
  "convert_elf_to_macho ep w src dst =
     io_then (fs_read w src) (\<lambda>elf_bytes.
     io_then (io_res (convert_bytes ep elf_bytes)) (\<lambda>macho. fs_write w dst macho))"

definition out_dir :: path where "out_dir = ascii ''target/qemu''"
definition bundle_dir :: path where "bundle_dir = join out_dir ''bundle''"
definition esp_dir :: path where "esp_dir = join out_dir ''esp''"
definition images_dir :: path where "images_dir = join out_dir ''images''"
definition esp_img :: path where "esp_img = join images_dir ''esp.img''"
definition kernel_macho :: path where "kernel_macho = join bundle_dir ''kernel.macho''"
definition kernel_elf :: path where
  "kernel_elf = join (join (join (ascii ''target'') TARGET) ''debug'') KERNEL_NAME"

definition quoted :: "string \<Rightarrow> string" where
  "quoted s = [CHR 0x22] @ s @ [CHR 0x22]"

definition manifest :: bytes where
  "manifest = ascii (concat
     [''kernel = '', quoted ''kernel.macho'', [CHR 0x0A],
      ''loader = '', quoted ''EFI/BOOT/BOOTAA64.EFI'', [CHR 0x0A],
      ''target = '', quoted TARGET, [CHR 0x0A],
      ''boot = '', quoted ''UEFI'', [CHR 0x0A],
      ''debugging = ['', quoted ''radare2'', '', '', quoted ''r2ghidra'', '']'', [CHR 0x0A]])"

definition println :: "bytes \<Rightarrow> (unit, host) io" where
  "println line h = (Ok (), emit (Stdout (line @ [10])) h)"

text \<open>From the created directories to the finished image.\<close>

definition assemble_image ::
  "('d, 'p, 'v, 'h) disk_lib \<Rightarrow> elf_parser \<Rightarrow> os \<Rightarrow> (unit, host) io" where
  "assemble_image lib ep w =
     io_then (discover_efi_artifact w LOADER_NAME) (\<lambda>loader_efi.
     io_then (fs_copy w kernel_elf (join bundle_dir ''kernel.elf'')) (\<lambda>_.
     io_then (convert_elf_to_macho ep w kernel_elf kernel_macho) (\<lambda>_.
     io_then (fs_copy w loader_efi (join bundle_dir ''EFI/BOOT/BOOTAA64.EFI'')) (\<lambda>_.
     io_then (fs_write w (join bundle_dir ''MANIFEST.toml'') manifest) (\<lambda>_.
     build_uefi_disk_image lib w esp_img loader_efi kernel_macho)))))"

definition build_image :: "('d, 'p, 'v, 'h) disk_lib \<Rightarrow> elf_parser \<Rightarrow> os \<Rightarrow> (bool, host) io" where
  "build_image lib ep w =
     io_then (cargo w [''build'', ''-p'', LOADER_NAME, ''--target'', UEFI_TARGET]) (\<lambda>success.
     if \<not> success then io_res (Ok False) else
     io_then (cargo w [''build'', ''-p'', KERNEL_NAME, ''--target'', TARGET]) (\<lambda>success.
     if \<not> success then io_res (Ok False) else
     io_then (create_dir_all w (join bundle_dir ''EFI/BOOT'')) (\<lambda>_.
     io_then (create_dir_all w esp_dir) (\<lambda>_.
     io_then (create_dir_all w images_dir) (\<lambda>_.
     io_then (assemble_image lib ep w) (\<lambda>_.
     io_then (println (ascii ''image bundle: '' @ bundle_dir)) (\<lambda>_.
     io_then (println (ascii ''ESP image: '' @ esp_img)) (\<lambda>_.
     io_res (Ok True)))))))))"

section \<open>QEMU\<close>

definition firmware_candidates :: "path list" where
  "firmware_candidates = map ascii
     [''/usr/share/edk2/aarch64/QEMU_EFI.fd'', ''/usr/share/qemu-efi-aarch64/QEMU_EFI.fd'',
      ''/usr/share/OVMF/OVMF_CODE.fd'', ''/opt/homebrew/opt/qemu/share/qemu/edk2-aarch64-code.fd'']"

definition qemu_firmware_path :: "os \<Rightarrow> (path, host) io" where
  "qemu_firmware_path w h =
     (case env_var QEMU_FIRMWARE_ENV h of
        Some p \<Rightarrow> (Ok p, h)
      | None \<Rightarrow> (ok_or (find (\<lambda>p. path_exists w p h) firmware_candidates)
          (IoError NotFound ''UEFI firmware not found; set QEMU_EFI_FD''), h))"

definition qemu_args :: "path \<Rightarrow> bytes list" where
  "qemu_args firmware =
     map ascii [''qemu-system-aarch64'', ''-M'', ''virt,virtualization=on'', ''-accel'', ''tcg,thread=multi'',
       ''-cpu'', ''cortex-a53'', ''-m'', ''1024M'', ''-nographic'', ''-serial'', ''mon:stdio'', ''-bios''] @
     [firmware] @ map ascii [''-drive'', ''if=virtio,format=raw,file=target/qemu/images/esp.img'']"

definition run_qemu :: "('d, 'p, 'v, 'h) disk_lib \<Rightarrow> elf_parser \<Rightarrow> os \<Rightarrow> (bool, host) io" where
  "run_qemu lib ep w =
     io_then (build_image lib ep w) (\<lambda>_.
     io_then (qemu_firmware_path w) (\<lambda>firmware. run_command w (qemu_args firmware)))"

section \<open>Dispatch\<close>

definition eprintln :: "bytes \<Rightarrow> (unit, host) io" where
  "eprintln line h = (Ok (), emit (Stderr (line @ [10])) h)"

definition usage :: bytes where
  "usage = ascii ''usage: cargo xtask <check|clippy|fmt|build-image|run>''"

fun io_text :: "os \<Rightarrow> io_error \<Rightarrow> bytes" where
  "io_text w (IoError _ msg) = ascii msg"
| "io_text w (Foreign n) = os_text w n"

definition exit_code :: "os \<Rightarrow> (bool, host) io \<Rightarrow> (u8, host) io" where
  "exit_code w m h =
     (case m h of
        (Ok True, h') \<Rightarrow> (Ok 0, h')
      | (Ok False, h') \<Rightarrow> (Ok 1, h')
      | (Err e, h') \<Rightarrow> io_then (eprintln (io_text w e)) (\<lambda>_. io_res (Ok 1)) h'
      | (Panic, h') \<Rightarrow> (Panic, h')
      | (Diverge, h') \<Rightarrow> (Diverge, h'))"

definition xtask_main :: "('d, 'p, 'v, 'h) disk_lib \<Rightarrow> elf_parser \<Rightarrow> os \<Rightarrow> bytes list \<Rightarrow> (u8, host) io" where
  "xtask_main lib ep w args =
     (case args of
        [] \<Rightarrow> io_then (eprintln usage) (\<lambda>_. io_res (Ok 2))
      | cmd # _ \<Rightarrow>
          if cmd = ascii ''check'' then exit_code w (check w)
          else if cmd = ascii ''clippy'' then exit_code w (clippy w)
          else if cmd = ascii ''fmt'' then exit_code w (cargo w [''fmt'', ''--all'', ''--'', ''--check''])
          else if cmd = ascii ''build-image'' then exit_code w (build_image lib ep w)
          else if cmd = ascii ''run'' \<or> cmd = ascii ''qemu'' then exit_code w (run_qemu lib ep w)
          else io_then (eprintln (ascii ''unknown command: '' @ cmd)) (\<lambda>_.
            io_then (eprintln usage) (\<lambda>_. io_res (Ok 2))))"

section \<open>Cargo runs\<close>

lemma cargo_log:
  assumes "cargo w args h = (r, h')"
  shows "hlog h' = hlog h @ [Ran (cargo_args args)]"
  using assms by (auto simp: cargo_def run_command_def split: prod.splits)

lemma cargo_many_prefix:
  assumes "cargo_many w runs h = (r, h')"
  shows "\<exists>k. k \<le> length runs \<and> hlog h' = hlog h @ map (Ran \<circ> cargo_args) (take k runs) \<and>
    (r = Ok True \<longrightarrow> k = length runs) \<and>
    (r \<noteq> Ok True \<longrightarrow> (\<exists>g g'. cargo w (runs ! (k - 1)) g = (r, g') \<and> 0 < k))"
  using assms
proof (induction runs arbitrary: h)
  case Nil
  then show ?case by (simp add: io_res_def)
next
  case (Cons args runs)
  obtain s h1 where c: "cargo w args h = (s, h1)" by force
  note l = cargo_log [OF c]
  show ?case
  proof (cases "s = Ok True")
    case True
    then have "cargo_many w runs h1 = (r, h')" using Cons.prems c by (simp add: io_then.simps)
    from Cons.IH [OF this] obtain k where k: "k \<le> length runs" "hlog h' = hlog h1 @ map (Ran \<circ> cargo_args) (take k runs)"
      "r = Ok True \<Longrightarrow> k = length runs" "r \<noteq> Ok True \<Longrightarrow> \<exists>g g'. cargo w (runs ! (k - 1)) g = (r, g') \<and> 0 < k" by blast
    then show ?thesis using l by (intro exI [of _ "Suc k"]) (auto simp: nth_Cons')
  next
    case False
    then have "r = s \<and> h' = h1"
      using Cons.prems c by (cases s) (auto simp: io_then.simps io_res_def split: if_splits)
    then show ?thesis using l c False by (intro exI [of _ 1]) auto
  qed
qed

section \<open>The newest artifact\<close>

definition candidate :: "string \<Rightarrow> dir_entry \<Rightarrow> bool" where
  "candidate name e \<longleftrightarrow> is_efi (de_name e) \<and> matches_name name (de_name e)"

definition entry_time :: "dir_entry \<Rightarrow> int" where
  "entry_time e = (case de_meta e of Ok t \<Rightarrow> modified_or_epoch t | _ \<Rightarrow> 0)"

definition readable :: "dir_entry \<Rightarrow> bool" where
  "readable e \<longleftrightarrow> (\<exists>t. de_meta e = Ok t)"

text \<open>The first of the newest.\<close>

definition newer :: "dir_entry option \<Rightarrow> dir_entry \<Rightarrow> dir_entry option" where
  "newer best e = (case best of None \<Rightarrow> Some e | Some b \<Rightarrow> if entry_time e > entry_time b then Some e else best)"

definition first_newest :: "dir_entry list \<Rightarrow> dir_entry option" where
  "first_newest es = foldl newer None es"

lemma newest_match_fold:
  assumes "\<forall>e \<in> set es. candidate name e \<longrightarrow> readable e"
  shows "newest_match name (map Ok es) (map_option (\<lambda>e. (entry_time e, entry_path deps_dir e)) best) =
    Ok (map_option (\<lambda>e. (entry_time e, entry_path deps_dir e)) (foldl newer best (filter (candidate name) es)))"
  using assms
proof (induction es arbitrary: best)
  case (Cons e es)
  show ?case
  proof (cases "candidate name e")
    case True
    then obtain t where t: "de_meta e = Ok t" using Cons.prems by (auto simp: readable_def)
    then have "(if case map_option (\<lambda>e. (entry_time e, entry_path deps_dir e)) best of None \<Rightarrow> True
        | Some (best_time, _) \<Rightarrow> modified_or_epoch t > best_time
      then Some (modified_or_epoch t, entry_path deps_dir e) else map_option (\<lambda>e. (entry_time e, entry_path deps_dir e)) best) =
      map_option (\<lambda>e. (entry_time e, entry_path deps_dir e)) (newer best e)"
      by (auto simp: newer_def entry_time_def split: option.splits)
    then show ?thesis using True t Cons.IH [of "newer best e"] Cons.prems by (simp add: candidate_def Let_def)
  next
    case False
    then show ?thesis using Cons.IH [of best] Cons.prems by (auto simp: candidate_def)
  qed
qed simp

lemma first_newest_spec:
  assumes "es \<noteq> []"
  shows "\<exists>pre e post. es = pre @ e # post \<and> first_newest es = Some e \<and>
    (\<forall>x \<in> set pre. entry_time x < entry_time e) \<and> (\<forall>x \<in> set post. entry_time x \<le> entry_time e)"
  using assms
proof (induction es rule: rev_induct)
  case (snoc x es)
  show ?case
  proof (cases "es = []")
    case True
    then show ?thesis by (intro exI [of _ "[]"]) (simp add: first_newest_def newer_def)
  next
    case False
    then obtain pre e post where ih: "es = pre @ e # post" "first_newest es = Some e"
      "\<forall>x \<in> set pre. entry_time x < entry_time e" "\<forall>x \<in> set post. entry_time x \<le> entry_time e"
      using snoc.IH by blast
    have f: "first_newest (es @ [x]) = (if entry_time x > entry_time e then Some x else Some e)"
      using ih(2) by (simp add: first_newest_def newer_def)
    show ?thesis
    proof (cases "entry_time x > entry_time e")
      case True
      moreover have "\<forall>y \<in> set es. entry_time y < entry_time x" using True ih by force
      ultimately show ?thesis using f by (intro exI [of _ es] exI [of _ x] exI [of _ "[]"]) simp
    next
      case False
      then show ?thesis using f ih by (intro exI [of _ pre] exI [of _ e] exI [of _ "post @ [x]"]) auto
    qed
  qed
qed simp

section \<open>A successful build\<close>

lemma discover_Ok:
  assumes "discover_efi_artifact w name h = (Ok p, h')"
  shows "h' = h" "\<exists>n. p = deps_dir @ ascii ''/'' @ n"
proof -
  have inv: "\<exists>n. snd b = deps_dir @ ascii ''/'' @ n" if "newest_match name es best = Ok (Some b)"
    "\<forall>c. best = Some c \<longrightarrow> (\<exists>n. snd c = deps_dir @ ascii ''/'' @ n)" for es best b
    using that
  proof (induction es arbitrary: best)
    case (Cons r es)
    obtain e where r: "r = Ok e" using Cons.prems(1) by (cases r) auto
    show ?case
    proof (cases "candidate name e")
      case False
      then show ?thesis using Cons r by (auto simp: candidate_def)
    next
      case True
      then show ?thesis
        using Cons r by (cases "de_meta e") (auto simp: candidate_def Let_def entry_path_def split: if_splits)
    qed
  qed simp
  obtain es b where "fs_read_dir w deps_dir h = (Ok es, h')" "newest_match name es None = Ok b" "Some p = map_option snd b"
    using assms by (auto simp: discover_efi_artifact_def io_res_def ok_or_def elim!: io_then_OkE split: option.splits)
  then show "h' = h" "\<exists>n. p = deps_dir @ ascii ''/'' @ n"
    using inv [of es None] by (auto simp: fs_read_dir_def map_option_case elim!: faulty_OkE split: option.splits)
qed

text \<open>Build artifacts and the files of the bundle have different paths: they part at the eighth byte.\<close>

lemma artifact_paths: "deps_dir ! 7 = 97" "length deps_dir > 7" "kernel_elf ! 7 = 97"
  by (simp_all add: deps_dir_def kernel_elf_def join_def ascii_def UEFI_TARGET_def TARGET_def)

lemma bundle_paths:
  "esp_img ! 7 = 113" "kernel_macho ! 7 = 113" "join bundle_dir s ! 7 = 113"
  by (simp_all add: esp_img_def images_dir_def kernel_macho_def bundle_dir_def out_dir_def join_def ascii_def)

lemma artifact_apart:
  assumes "q ! 7 = 113"
  shows "deps_dir @ n \<noteq> q" "kernel_elf \<noteq> q"
  using assms artifact_paths by (auto simp: nth_append)

text \<open>The disk image is laid out as \<open>partition_disk\<close> gave it, by crates that keep their promises.\<close>

definition media_lib ::
  "('d, 'p, 'v, 'h) disk_lib \<Rightarrow> (bytes \<Rightarrow> string \<rightharpoonup> bytes) \<Rightarrow> u64 \<Rightarrow> u64 \<Rightarrow> bool" where
  "media_lib lib rd start len \<longleftrightarrow>
     (\<exists>cap V nm f0. lib_confined cap lib \<and> fat_laws lib V nm rd \<and> partition_disk lib blank_image = (Ok (start, len), f0) \<and>
        file_inv f0) \<and> unat start + unat len < 2 ^ 64"

definition bundle_files :: "bytes \<Rightarrow> bytes \<Rightarrow> bytes \<Rightarrow> bytes \<Rightarrow> (path \<rightharpoonup> bytes) \<Rightarrow> path \<rightharpoonup> bytes" where
  "bundle_files elf kn loader data m =
     m(join bundle_dir ''kernel.elf'' \<mapsto> elf, kernel_macho \<mapsto> kn, join bundle_dir ''EFI/BOOT/BOOTAA64.EFI'' \<mapsto> loader,
       join bundle_dir ''MANIFEST.toml'' \<mapsto> manifest, esp_img \<mapsto> data)"

lemma bundle_names:
  "kernel_macho \<noteq> esp_img" "kernel_macho \<noteq> join bundle_dir ''EFI/BOOT/BOOTAA64.EFI''"
  "kernel_macho \<noteq> join bundle_dir ''MANIFEST.toml''"
  by (simp_all add: kernel_macho_def esp_img_def images_dir_def bundle_dir_def out_dir_def join_def ascii_def)

lemma disk_image_files:
  assumes "media_lib lib rd start len" "build_uefi_disk_image lib w img le km h = (Ok (), h')"
    and "hfiles h le = Some loader" "hfiles h km = Some kn" "le \<noteq> img" "km \<noteq> img"
  shows "\<exists>data. hfiles h' = (hfiles h)(img \<mapsto> data) \<and> rd (esp_bytes data (unat start) (unat len)) = boot_files loader kn"
proof -
  obtain cap V nm f0 where "lib_confined cap lib" "fat_laws lib V nm rd"
    "partition_disk lib blank_image = (Ok (start, len), f0)" "file_inv f0" "unat start + unat len < 2 ^ 64"
    using assms(1) unfolding media_lib_def by blast
  then show ?thesis by (rule disk_image_written [OF _ _ _ _ _ assms(2-6)])
qed

lemma assembled:
  assumes media: "media_lib lib rd start len" and run: "assemble_image lib ep w h = (Ok (), h')"
  shows "\<exists>le loader elf kn data. discover_efi_artifact w LOADER_NAME h = (Ok le, h) \<and> hfiles h le = Some loader \<and>
    hfiles h kernel_elf = Some elf \<and> convert_bytes ep elf = Ok kn \<and>
    hfiles h' = bundle_files elf kn loader data (hfiles h) \<and>
    rd (esp_bytes data (unat start) (unat len)) = boot_files loader kn"
proof -
  obtain le g n1 h1 u2 h2 n3 h3 u4 h4 where d: "discover_efi_artifact w LOADER_NAME h = (Ok le, g)"
    and 1: "fs_copy w kernel_elf (join bundle_dir ''kernel.elf'') g = (Ok n1, h1)"
    and 2: "convert_elf_to_macho ep w kernel_elf kernel_macho h1 = (Ok u2, h2)"
    and 3: "fs_copy w le (join bundle_dir ''EFI/BOOT/BOOTAA64.EFI'') h2 = (Ok n3, h3)"
    and 4: "fs_write w (join bundle_dir ''MANIFEST.toml'') manifest h3 = (Ok u4, h4)"
    and 5: "build_uefi_disk_image lib w esp_img le kernel_macho h4 = (Ok (), h')"
    using run unfolding assemble_image_def by (auto elim!: io_then_OkE)
  obtain n where le: "le = deps_dir @ ascii ''/'' @ n" and g: "g = h" using discover_Ok [OF d] by blast
  have apart: "le \<noteq> q" "kernel_elf \<noteq> q" if "q ! 7 = 113" for q
    using artifact_apart [OF that] by (simp_all add: le)
  obtain elf where e: "hfiles h kernel_elf = Some elf" "h1 = h\<lparr>hfiles := (hfiles h)(join bundle_dir ''kernel.elf'' \<mapsto> elf)\<rparr>"
    using fs_copy_Ok [OF 1] g by blast
  have e1: "hfiles h1 kernel_elf = Some elf" using e apart(2) [OF bundle_paths(3)] by simp
  obtain kn where k: "convert_bytes ep elf = Ok kn" "h2 = h1\<lparr>hfiles := (hfiles h1)(kernel_macho \<mapsto> kn)\<rparr>"
    using 2 e1 unfolding convert_elf_to_macho_def
    by (auto simp: io_res_def dest!: fs_read_Ok fs_write_Ok elim!: io_then_OkE)
  obtain loader where l: "hfiles h2 le = Some loader"
    "h3 = h2\<lparr>hfiles := (hfiles h2)(join bundle_dir ''EFI/BOOT/BOOTAA64.EFI'' \<mapsto> loader)\<rparr>"
    using fs_copy_Ok [OF 3] by blast
  note h4 = fs_write_Ok [OF 4]
  have lh: "hfiles h le = Some loader" using l(1) apart(1) bundle_paths by (simp add: k(2) e(2))
  have "hfiles h4 le = Some loader" "hfiles h4 kernel_macho = Some kn"
    using l(1) apart(1) bundle_paths bundle_names by (simp_all add: h4 l(2) k(2))
  from disk_image_files [OF media 5 this apart(1) [OF bundle_paths(1)] bundle_names(1)]
  obtain data where data: "hfiles h' = (hfiles h4)(esp_img \<mapsto> data)"
    "rd (esp_bytes data (unat start) (unat len)) = boot_files loader kn" by blast
  have "hfiles h' = bundle_files elf kn loader data (hfiles h)"
    unfolding data(1) by (simp add: h4 l(2) k(2) e(2) bundle_files_def)
  with d g lh e(1) k(1) data(2) show ?thesis by blast
qed

lemma built:
  assumes media: "media_lib lib rd start len" and run: "build_image lib ep w h = (Ok True, h')"
  shows "\<exists>h1 h2 h3 le loader elf kn data.
    cargo w [''build'', ''-p'', LOADER_NAME, ''--target'', UEFI_TARGET] h = (Ok True, h1) \<and>
    cargo w [''build'', ''-p'', KERNEL_NAME, ''--target'', TARGET] h1 = (Ok True, h2) \<and> hfiles h3 = hfiles h2 \<and>
    discover_efi_artifact w LOADER_NAME h3 = (Ok le, h3) \<and> hfiles h2 le = Some loader \<and>
    hfiles h2 kernel_elf = Some elf \<and> convert_bytes ep elf = Ok kn \<and>
    hfiles h' = bundle_files elf kn loader data (hfiles h2) \<and>
    rd (esp_bytes data (unat start) (unat len)) = boot_files loader kn"
proof -
  obtain h1 h2 D h4 L where c: "cargo w [''build'', ''-p'', LOADER_NAME, ''--target'', UEFI_TARGET] h = (Ok True, h1)"
      "cargo w [''build'', ''-p'', KERNEL_NAME, ''--target'', TARGET] h1 = (Ok True, h2)"
    and a: "assemble_image lib ep w (h2\<lparr>hdirs := D\<rparr>) = (Ok (), h4)" and h': "h' = h4\<lparr>hlog := L\<rparr>"
    using run unfolding build_image_def
    by (auto simp: io_res_def println_def emit_def elim!: io_then_OkE dest!: create_dir_all_Ok split: if_splits)
  from assembled [OF media a] obtain le loader elf kn data where
    "discover_efi_artifact w LOADER_NAME (h2\<lparr>hdirs := D\<rparr>) = (Ok le, h2\<lparr>hdirs := D\<rparr>)" "hfiles h2 le = Some loader"
    "hfiles h2 kernel_elf = Some elf" "convert_bytes ep elf = Ok kn" "hfiles h4 = bundle_files elf kn loader data (hfiles h2)"
    "rd (esp_bytes data (unat start) (unat len)) = boot_files loader kn" by auto
  moreover have "hfiles (h2\<lparr>hdirs := D\<rparr>) = hfiles h2" by simp
  moreover have "hfiles h' = hfiles h4" by (simp add: h')
  ultimately show ?thesis using c by metis
qed

section \<open>Properties\<close>

lemma exit_zero:
  assumes "exit_code w m h = (Ok 0, h')"
  shows "m h = (Ok True, h')"
proof -
  obtain r h1 where m: "m h = (r, h1)" by force
  show ?thesis
  proof (cases r)
    case (Ok b)
    then show ?thesis using assms m by (cases b) (auto simp: exit_code_def)
  qed (use assms m in \<open>auto simp: exit_code_def eprintln_def io_then.simps io_res_def\<close>)
qed

text \<open>C3: When \<open>cargo xtask build-image\<close> exits with code 0, cargo has built the boot loader and then the kernel, the boot
  loader is the artifact found after those builds, the kernel is the Mach-O conversion of the kernel ELF they left, the
  EFI system partition read from the image file holds exactly these two and the startup script, and apart from
  the bundle and the image no file has changed since the builds.\<close>

theorem build_image_boot_media:
  assumes "media_lib lib rd start len" "xtask_main lib ep w (ascii ''build-image'' # rest) h = (Ok 0, h')"
  shows "\<exists>h1 h2 h3 le loader elf kn data.
    cargo w [''build'', ''-p'', ''loader'', ''--target'', ''aarch64-unknown-uefi''] h = (Ok True, h1) \<and>
    cargo w [''build'', ''-p'', ''kernel'', ''--target'', ''aarch64-unknown-none''] h1 = (Ok True, h2) \<and>
    hfiles h3 = hfiles h2 \<and> discover_efi_artifact w ''loader'' h3 = (Ok le, h3) \<and> hfiles h2 le = Some loader \<and>
    hfiles h2 kernel_elf = Some elf \<and> convert_bytes ep elf = Ok kn \<and>
    hfiles h' = bundle_files elf kn loader data (hfiles h2) \<and>
    rd (esp_bytes data (unat start) (unat len)) = boot_files loader kn"
proof -
  have "build_image lib ep w h = (Ok True, h')"
    using assms(2) by (intro exit_zero) (simp add: xtask_main_def ascii_def)
  from built [OF assms(1) this] show ?thesis by (simp only: LOADER_NAME_def UEFI_TARGET_def KERNEL_NAME_def TARGET_def)
qed

text \<open>A host on which cargo succeeds and leaves one loader and the sample kernel.\<close>

definition loader_entry :: dir_entry where
  "loader_entry = \<lparr>de_name = ascii ''loader-1.efi'', de_meta = Ok (Some 5)\<rparr>"

definition build_os :: os where
  "build_os = \<lparr>os_status = (\<lambda>_ h. (Ok True, h)), os_listing = (\<lambda>_ _. [Ok loader_entry]), os_fault = (\<lambda>_ _. None),
     os_text = (\<lambda>_. [])\<rparr>"

definition build_host :: host where
  "build_host = \<lparr>hfiles = [kernel_elf \<mapsto> sample_elf_bytes, entry_path deps_dir loader_entry \<mapsto> [0x4D, 0x5A]], hdirs = {},
     henv = Map.empty, hlog = []\<rparr>"

lemma loader_entry_candidate: "candidate ''loader'' loader_entry"
  by code_simp

lemma build_os_discover:
  "discover_efi_artifact build_os LOADER_NAME h = (Ok (entry_path deps_dir loader_entry), h)"
  using loader_entry_candidate
  by (simp add: discover_efi_artifact_def fs_read_dir_def faulty_def build_os_def io_then.simps io_res_def candidate_def
      loader_entry_def modified_or_epoch_def LOADER_NAME_def)

lemma build_os_steps:
  "cargo build_os args h = (Ok True, h\<lparr>hlog := hlog h @ [Ran (cargo_args args)]\<rparr>)"
  "create_dir_all build_os p h = (Ok (), h\<lparr>hdirs := hdirs h \<union> ancestors p\<rparr>)"
  "fs_write build_os p bs h = (Ok (), h\<lparr>hfiles := (hfiles h)(p \<mapsto> bs)\<rparr>)"
  "hfiles h p = Some bs \<Longrightarrow> fs_copy build_os p q h = (Ok (length bs), h\<lparr>hfiles := (hfiles h)(q \<mapsto> bs)\<rparr>)"
  "hfiles h p = Some bs \<Longrightarrow> fs_read build_os p h = (Ok bs, h)"
  by (simp_all add: cargo_def run_command_def create_dir_all_def fs_write_def fs_copy_def fs_read_def faulty_def build_os_def)

lemma build_os_assembles:
  assumes kn: "convert_bytes ep elf = Ok kn" and h: "hfiles h kernel_elf = Some elf"
    "hfiles h (entry_path deps_dir loader_entry) = Some loader"
  shows "\<exists>h'. assemble_image (sample_lib loader kn) ep build_os h = (Ok (), h')"
proof -
  let ?le = "entry_path deps_dir loader_entry"
  have ne: "?le \<noteq> q" "kernel_elf \<noteq> q" if "q ! 7 = 113" for q
    using artifact_apart [OF that] by (simp_all add: entry_path_def)
  have calm: "calm build_os" by (simp add: calm_def build_os_def)
  have built: "\<exists>h'. build_uefi_disk_image (sample_lib loader kn) build_os esp_img ?le kernel_macho g = (Ok (), h')"
    if "hfiles g ?le = Some loader" "hfiles g kernel_macho = Some kn" for g
    using sample_built [OF calm that ne(1) [OF bundle_paths(1)] bundle_names(1)] by blast
  show ?thesis
    unfolding assemble_image_def convert_elf_to_macho_def
    by (simp add: io_then.simps io_res_def build_os_discover build_os_steps h kn ne(1) [OF bundle_paths(2)]
        ne(1) [OF bundle_paths(3)] ne(2) [OF bundle_paths(3)] bundle_names built)
qed

theorem build_image_boot_media_witness:
  "\<exists>kn data h'. convert_bytes (\<lambda>_. Ok sample_elf) sample_elf_bytes = Ok kn \<and>
     xtask_main (sample_lib [0x4D, 0x5A] kn) (\<lambda>_. Ok sample_elf) build_os [ascii ''build-image''] build_host = (Ok 0, h') \<and>
     hfiles h' esp_img = Some data \<and> sample_read [0x4D, 0x5A] kn (esp_bytes data 512 1) ''KERNEL'' = Some kn"
proof -
  let ?ep = "\<lambda>_. Ok sample_elf"
  obtain kn where kn: "convert_bytes ?ep sample_elf_bytes = Ok kn"
    using converted [of ?ep sample_elf_bytes, OF refl sample_elf_convertible] by blast
  let ?lib = "sample_lib [0x4D, 0x5A] kn"
  have media: "media_lib ?lib (sample_read [0x4D, 0x5A] kn) 512 1"
    using sample_confined sample_laws sample_partition_disk blank_image_inv unfolding media_lib_def by fastforce
  have "kernel_elf \<noteq> entry_path deps_dir loader_entry" by code_simp
  then have f: "hfiles build_host kernel_elf = Some sample_elf_bytes"
    "hfiles build_host (entry_path deps_dir loader_entry) = Some [0x4D, 0x5A]" by (simp_all add: build_host_def)
  then have "\<forall>l d. \<exists>h'. assemble_image ?lib ?ep build_os (build_host\<lparr>hlog := l, hdirs := d\<rparr>) = (Ok (), h')"
    using build_os_assembles [OF kn] by simp
  then obtain fin where "\<forall>l d. assemble_image ?lib ?ep build_os (build_host\<lparr>hlog := l, hdirs := d\<rparr>) = (Ok (), fin l d)"
    by metis
  then have "\<exists>h'. build_image ?lib ?ep build_os build_host = (Ok True, h')"
    unfolding build_image_def by (simp add: io_then.simps io_res_def build_os_steps println_def)
  then obtain h' where run: "xtask_main ?lib ?ep build_os [ascii ''build-image''] build_host = (Ok 0, h')"
    by (auto simp: xtask_main_def exit_code_def ascii_def)
  from build_image_boot_media [OF media run] obtain h2 le loader elf kn' data where
    m: "cargo build_os [''build'', ''-p'', ''kernel'', ''--target'', ''aarch64-unknown-none''] 
        (build_host\<lparr>hlog := [Ran (cargo_args [''build'', ''-p'', ''loader'', ''--target'', ''aarch64-unknown-uefi''])]\<rparr>) = (Ok True, h2)"
      "hfiles h2 kernel_elf = Some elf" "convert_bytes ?ep elf = Ok kn'" "hfiles h' = bundle_files elf kn' loader data (hfiles h2)"
      "sample_read [0x4D, 0x5A] kn (esp_bytes data (unat (512 :: u64)) (unat (1 :: u64))) = boot_files loader kn'"
    by (auto simp: build_os_steps build_host_def)
  have "elf = sample_elf_bytes" using m(1,2) f(1) by (auto simp: build_os_steps)
  then have "kn' = kn" using kn m(3) by simp
  moreover have "hfiles h' esp_img = Some data" by (simp add: m(4) bundle_files_def)
  ultimately show ?thesis using kn run m(5) by (auto simp: boot_files_def)
qed

text \<open>C26: The boot loader put on the image is the most recent build: among the directory entries that carry the name and
  the extension, the one with the latest modification time is chosen, the first of them if there are several; without
  any, the search is a \<open>NotFound\<close> error. The search changes nothing on the host.\<close>

theorem newest_artifact_chosen:
  assumes "os_fault w (ReadDir deps_dir) h = None" "os_listing w deps_dir h = map Ok es"
    and "\<forall>e \<in> set es. candidate name e \<longrightarrow> readable e"
  shows "case filter (candidate name) es of
      [] \<Rightarrow> discover_efi_artifact w name h = (Err (no_artifact name), h)
    | _ \<Rightarrow> \<exists>pre e post. filter (candidate name) es = pre @ e # post \<and>
        (\<forall>x \<in> set pre. entry_time x < entry_time e) \<and> (\<forall>x \<in> set post. entry_time x \<le> entry_time e) \<and>
        discover_efi_artifact w name h = (Ok (entry_path deps_dir e), h)"
proof -
  let ?c = "filter (candidate name) es"
  have "newest_match name (map Ok es) None = Ok (map_option (\<lambda>e. (entry_time e, entry_path deps_dir e)) (first_newest ?c))"
    using newest_match_fold [OF assms(3), of None] by (simp add: first_newest_def)
  then have run: "discover_efi_artifact w name h =
      (ok_or (map_option (entry_path deps_dir) (first_newest ?c)) (no_artifact name), h)"
    using assms(1,2)
    by (simp add: discover_efi_artifact_def fs_read_dir_def faulty_def io_then.simps io_res_def option.map_comp comp_def)
  show ?thesis
  proof (cases ?c)
    case Nil
    then show ?thesis using run by (simp add: first_newest_def)
  next
    case (Cons b bs)
    then obtain pre e post where "?c = pre @ e # post" "first_newest ?c = Some e"
      "\<forall>x \<in> set pre. entry_time x < entry_time e" "\<forall>x \<in> set post. entry_time x \<le> entry_time e"
      using first_newest_spec [of ?c] by auto
    moreover from this(2) have "discover_efi_artifact w name h = (Ok (entry_path deps_dir e), h)" using run by simp
    ultimately have "\<exists>pre e post. ?c = pre @ e # post \<and> (\<forall>x \<in> set pre. entry_time x < entry_time e) \<and>
        (\<forall>x \<in> set post. entry_time x \<le> entry_time e) \<and> discover_efi_artifact w name h = (Ok (entry_path deps_dir e), h)"
      by blast
    then show ?thesis by (simp add: Cons)
  qed
qed

definition listing :: "dir_entry list" where
  "listing = [\<lparr>de_name = ascii ''loader-1.efi'', de_meta = Ok (Some 5)\<rparr>, \<lparr>de_name = ascii ''loader.d'', de_meta = Ok (Some 9)\<rparr>,
     \<lparr>de_name = ascii ''loader-2.efi'', de_meta = Ok (Some 7)\<rparr>, \<lparr>de_name = ascii ''loader-3.efi'', de_meta = Ok (Some 7)\<rparr>]"

theorem newest_artifact_chosen_witness:
  "case filter (candidate ''loader'') listing of
      [] \<Rightarrow> discover_efi_artifact (build_os\<lparr>os_listing := \<lambda>_ _. map Ok listing\<rparr>) ''loader'' build_host =
        (Err (no_artifact ''loader''), build_host)
    | _ \<Rightarrow> \<exists>pre e post. filter (candidate ''loader'') listing = pre @ e # post \<and>
        (\<forall>x \<in> set pre. entry_time x < entry_time e) \<and> (\<forall>x \<in> set post. entry_time x \<le> entry_time e) \<and>
        discover_efi_artifact (build_os\<lparr>os_listing := \<lambda>_ _. map Ok listing\<rparr>) ''loader'' build_host =
          (Ok (entry_path deps_dir e), build_host)"
  by (rule newest_artifact_chosen) (simp_all add: build_os_def listing_def readable_def)

text \<open>A chain of cargo runs (\<open>check\<close>, \<open>clippy\<close>) starts its commands in order and stops at the first that fails: what was
  started is a prefix of the list, the whole list exactly when the result is success, and otherwise the result
  is that of the last command started.\<close>

theorem cargo_many_stops_at_failure:
  assumes "cargo_many w runs h = (r, h')"
  shows "\<exists>k. k \<le> length runs \<and> hlog h' = hlog h @ map (Ran \<circ> cargo_args) (take k runs) \<and>
    (r = Ok True \<longrightarrow> k = length runs) \<and>
    (r \<noteq> Ok True \<longrightarrow> (\<exists>g g'. cargo w (runs ! (k - 1)) g = (r, g') \<and> 0 < k))"
  using assms by (rule cargo_many_prefix)

text \<open>A host whose second check fails.\<close>

definition failing_os :: os where
  "failing_os = build_os\<lparr>os_status := \<lambda>args h. (Ok (ascii ''loader'' \<notin> set args), h)\<rparr>"

lemma failing_check:
  "check failing_os build_host =
     (Ok False, build_host\<lparr>hlog := [Ran (cargo_args (check_runs ! 0)), Ran (cargo_args (check_runs ! 1))]\<rparr>)"
  by (simp add: check_def check_runs_def cargo_def run_command_def failing_os_def cargo_args_def io_then.simps io_res_def
      KERNEL_NAME_def LOADER_NAME_def TARGET_def UEFI_TARGET_def ascii_def build_host_def)

theorem cargo_many_stops_at_failure_witness:
  "\<exists>k. k \<le> length check_runs \<and> hlog (snd (check failing_os build_host)) = hlog build_host @ map (Ran \<circ> cargo_args) (take k check_runs) \<and>
    fst (check failing_os build_host) = Ok False \<and> (\<exists>g g'. cargo failing_os (check_runs ! (k - 1)) g = (Ok False, g') \<and> 0 < k)"
  using cargo_many_stops_at_failure [OF failing_check [unfolded check_def]] by (auto simp: failing_check)

text \<open>The firmware \<open>run\<close> uses: what the environment names, else the first of the known places that exists.\<close>

definition firmware_choice :: "os \<Rightarrow> host \<Rightarrow> path \<Rightarrow> bool" where
  "firmware_choice w h p \<longleftrightarrow> env_var ''QEMU_EFI_FD'' h = Some p \<or>
     env_var ''QEMU_EFI_FD'' h = None \<and> (\<exists>pre post. firmware_candidates = pre @ p # post \<and>
       path_exists w p h \<and> (\<forall>q \<in> set pre. \<not> path_exists w q h))"

lemma find_first: "P x \<Longrightarrow> \<forall>y \<in> set pre. \<not> P y \<Longrightarrow> find P (pre @ x # post) = Some x"
  by (induction pre) simp_all

lemma qemu_firmware_choice:
  "firmware_choice w h p \<Longrightarrow> qemu_firmware_path w h = (Ok p, h)"
  "\<forall>p. \<not> firmware_choice w h p \<Longrightarrow>
     qemu_firmware_path w h = (Err (IoError NotFound ''UEFI firmware not found; set QEMU_EFI_FD''), h)"
proof -
  assume c: "firmware_choice w h p"
  have "find (\<lambda>p. path_exists w p h) firmware_candidates = Some p" if "env_var ''QEMU_EFI_FD'' h = None"
  proof -
    from c that obtain pre post where fc: "firmware_candidates = pre @ p # post" and
      p: "path_exists w p h" "\<forall>q \<in> set pre. \<not> path_exists w q h" by (auto simp: firmware_choice_def)
    show ?thesis unfolding fc by (rule find_first [OF p])
  qed
  with c show "qemu_firmware_path w h = (Ok p, h)"
    by (auto simp: firmware_choice_def qemu_firmware_path_def QEMU_FIRMWARE_ENV_def split: option.split)
next
  assume none: "\<forall>p. \<not> firmware_choice w h p"
  have "find (\<lambda>p. path_exists w p h) firmware_candidates = None" if "env_var ''QEMU_EFI_FD'' h = None"
  proof (rule ccontr)
    assume "find (\<lambda>p. path_exists w p h) firmware_candidates \<noteq> None"
    then have "\<exists>p \<in> set firmware_candidates. path_exists w p h" by (auto simp: find_None_iff)
    then obtain pre p post where "firmware_candidates = pre @ p # post" "path_exists w p h"
      "\<forall>q \<in> set pre. \<not> path_exists w q h"
      using split_list_first_prop [of firmware_candidates "\<lambda>p. path_exists w p h"] by blast
    with that none show False by (auto simp: firmware_choice_def)
  qed
  with none show "qemu_firmware_path w h = (Err (IoError NotFound ''UEFI firmware not found; set QEMU_EFI_FD''), h)"
    by (cases "env_var ''QEMU_EFI_FD'' h") (auto simp: firmware_choice_def qemu_firmware_path_def QEMU_FIRMWARE_ENV_def)
qed

definition loader_build :: "string list" where
  "loader_build = [''build'', ''-p'', ''loader'', ''--target'', ''aarch64-unknown-uefi'']"

definition kernel_build :: "string list" where
  "kernel_build = [''build'', ''-p'', ''kernel'', ''--target'', ''aarch64-unknown-none'']"

lemma build_fails:
  assumes "cargo w loader_build h = (Ok False, h1) \<or>
      (\<exists>h0. cargo w loader_build h = (Ok True, h0) \<and> cargo w kernel_build h0 = (Ok False, h1))"
  shows "build_image lib ep w h = (Ok False, h1)"
  using assms by (auto simp: build_image_def loader_build_def kernel_build_def LOADER_NAME_def UEFI_TARGET_def
      KERNEL_NAME_def TARGET_def io_then.simps io_res_def)

text \<open>C38: \<open>cargo xtask run\<close> goes on after a failed build. When cargo reports that the boot loader, or after it the kernel,
  does not compile, the failure is dropped: nothing is assembled and nothing is printed, and in the state the
  failed build left QEMU is started with the firmware named by the environment, or else with the first of the known
  firmware files that exists, on whatever image an earlier run left; the exit code is that of QEMU, 0 when it
  succeeds. Only when there is no firmware does the command fail, with exit code 1 and a message about the firmware,
  not the build.\<close>

theorem run_ignores_failed_build:
  assumes "cargo w loader_build h = (Ok False, h1) \<or>
      (\<exists>h0. cargo w loader_build h = (Ok True, h0) \<and> cargo w kernel_build h0 = (Ok False, h1))"
  shows "(\<forall>p. firmware_choice w h1 p \<longrightarrow>
      xtask_main lib ep w [ascii ''run''] h = exit_code w (run_command w (qemu_args p)) h1 \<and>
      (\<forall>h2. run_command w (qemu_args p) h1 = (Ok True, h2) \<longrightarrow>
         xtask_main lib ep w [ascii ''run''] h = (Ok 0, h2) \<and> hlog h2 = hlog h1 @ [Ran (qemu_args p)])) \<and>
    ((\<forall>p. \<not> firmware_choice w h1 p) \<longrightarrow>
      xtask_main lib ep w [ascii ''run''] h =
        (Ok 1, emit (Stderr (ascii ''UEFI firmware not found; set QEMU_EFI_FD'' @ [10])) h1))"
proof -
  note b = build_fails [OF assms, of lib ep]
  have run: "run_qemu lib ep w h = io_then (qemu_firmware_path w) (\<lambda>firmware. run_command w (qemu_args firmware)) h1"
    by (simp add: run_qemu_def b io_then.simps)
  have main: "xtask_main lib ep w [ascii ''run''] h = exit_code w (run_qemu lib ep w) h"
    by (simp add: xtask_main_def ascii_def)
  show ?thesis
    by (auto simp: main exit_code_def run io_then.simps io_res_def qemu_firmware_choice eprintln_def run_command_def
        split: prod.splits)
qed

text \<open>A host on which the loader does not compile and the second of the known firmware files exists.\<close>

definition second_firmware :: path where
  "second_firmware = ascii ''/usr/share/qemu-efi-aarch64/QEMU_EFI.fd''"

definition failing_host :: host where
  "failing_host = build_host\<lparr>hfiles := (hfiles build_host)(second_firmware \<mapsto> [])\<rparr>"

lemma second_firmware_chosen: "firmware_choice failing_os (failing_host\<lparr>hlog := lg\<rparr>) second_firmware"
proof -
  let ?fst = "ascii ''/usr/share/edk2/aarch64/QEMU_EFI.fd''"
  have ne: "?fst \<noteq> second_firmware" "?fst \<noteq> kernel_elf" "?fst \<noteq> entry_path deps_dir loader_entry" by code_simp+
  have "firmware_candidates = [?fst] @ second_firmware # drop 2 firmware_candidates"
    by (simp add: firmware_candidates_def second_firmware_def)
  moreover have "\<not> path_exists failing_os ?fst (failing_host\<lparr>hlog := lg\<rparr>)"
    using ne by (simp add: path_exists_def failing_host_def build_host_def)
  moreover have "path_exists failing_os second_firmware (failing_host\<lparr>hlog := lg\<rparr>)"
    by (simp add: path_exists_def failing_host_def failing_os_def build_os_def)
  moreover have "env_var ''QEMU_EFI_FD'' (failing_host\<lparr>hlog := lg\<rparr>) = None"
    by (simp add: env_var_def failing_host_def build_host_def)
  ultimately show ?thesis unfolding firmware_choice_def
    by (intro disjI2 conjI exI [of _ "[?fst]"] exI [of _ "drop 2 firmware_candidates"]) auto
qed

theorem run_ignores_failed_build_witness:
  "fst (xtask_main (sample_lib [] []) (\<lambda>_. Ok sample_elf) failing_os [ascii ''run''] failing_host) = Ok 0"
proof -
  let ?h1 = "failing_host\<lparr>hlog := [Ran (cargo_args loader_build)]\<rparr>"
  have c: "cargo failing_os loader_build failing_host = (Ok False, ?h1)"
    by (simp add: cargo_def run_command_def failing_os_def cargo_args_def loader_build_def ascii_def failing_host_def build_host_def)
  have "fst (run_command failing_os (qemu_args second_firmware) ?h1) = Ok True"
    by (simp add: run_command_def failing_os_def qemu_args_def ascii_def second_firmware_def)
  then obtain h2 where q: "run_command failing_os (qemu_args second_firmware) ?h1 = (Ok True, h2)"
    by (metis prod.collapse)
  have "xtask_main (sample_lib [] []) (\<lambda>_. Ok sample_elf) failing_os [ascii ''run''] failing_host = (Ok 0, h2)"
    using run_ignores_failed_build [of failing_os failing_host ?h1 "sample_lib [] []" "\<lambda>_. Ok sample_elf"] c q
      second_firmware_chosen by blast
  then show ?thesis by simp
qed

end
