(* ===== verification/Spec2Isabelle.thy ===== *)
theory Spec2Isabelle
  imports Adt_Roundtrip Loader_Main Exec_Loader Bump_Alloc Boot_El Kernel_Util User_Run Xtask
begin

text \<open>
  \<^bold>\<open>Verification of xnu-rs.\<close>

  xnu-rs is a small kernel for AArch64 with its UEFI boot loader and the tool that builds its disk image. A build
  (\<open>xtask\<close>) compiles boot loader and kernel with cargo, converts the kernel from ELF to Mach-O and writes both to the EFI
  system partition of a disk image. The boot loader (\<open>loader\<close>) reads the kernel, places its segments, converts the
  firmware's flattened device tree to the Apple format, fills in the boot arguments and jumps. The kernel (\<open>kernel\<close>) leaves
  EL2, prints arguments and device tree, places a built-in user program past its own data and enters it at EL0; system
  calls of the program come back through the vector table.

  \<^bold>\<open>Theories and sources.\<close>
  \<^item> \<open>Xnu_Prelude\<close>: Rust results (\<open>res\<close> with \<open>Ok\<close>, \<open>Err\<close>, \<open>Panic\<close>, \<open>Diverge\<close>), checked, saturating and panicking arithmetic
    on words, slices, integers as bytes, UTF-8; the collections \<open>res_simps\<close> and \<open>arith_specs\<close>. \<open>Xnu_Align\<close>: the locale
    \<open>aligner\<close> for the rounding routines of the program, interpreted on each of them. \<open>Phys_Mem\<close>: memory
    as a function of addresses, regions, frame lemmas. \<open>Goblin\<close>: the values the \<open>goblin\<close> parsers return.
  \<^item> \<open>Xnu_Uart\<close>: \<open>arch/aarch64/uart.rs\<close>. \<open>Kernel_Device_Tree\<close>: \<open>kernel/src/device_tree.rs\<close>. \<open>Loader_Device_Tree\<close>:
    \<open>loader/src/device_tree.rs\<close>. \<open>Adt_Roundtrip\<close>: the kernel reads what the boot loader writes. \<open>Boot_Args\<close>: both
    \<open>boot_args.rs\<close>.
  \<^item> \<open>Boot_Env\<close>, \<open>Loader_Image\<close>, \<open>Loader_Lib\<close>, \<open>Loader_Main\<close>: \<open>loader/src/main.rs\<close> and \<open>lib.rs\<close>, as state transformers over
    firmware state, memory, cache operations and boot arguments; UEFI services are parameters.
  \<^item> \<open>Trap\<close>, \<open>Exception_Vectors\<close>: \<open>context.rs\<close>, \<open>syscall.rs\<close> and \<open>exception.rs\<close>; the assembly is a list of instructions run on
    a register state. \<open>Boot_El\<close>: \<open>boot.rs\<close>. \<open>Bump_Alloc\<close>: \<open>alloc/mod.rs\<close>, with concurrent calls as an inductive step
    relation. \<open>Kernel_Util\<close>: \<open>util/\<close>. \<open>Exec_Loader\<close>: \<open>exec/macho.rs\<close> and \<open>exec/loader.rs\<close>.
  \<^item> \<open>Macho_Format\<close>: the Mach-O format as a decoder, and what a conforming parser is. \<open>Test_Program\<close>, \<open>Kernel_Main\<close>:
    \<open>kernel/src/main.rs\<close> and \<open>lib.rs\<close>. \<open>User_Run\<close>: the AArch64 instructions of the built-in program and its run.
  \<^item> \<open>Macho_Writer\<close>, \<open>Partition_Io\<close>, \<open>Xtask_Host\<close>, \<open>Disk_Image\<close>, \<open>Xtask\<close>: \<open>xtask/src/main.rs\<close>: the conversion, the
    partition window, the host it runs on, the disk image and the commands.

  \<^bold>\<open>What is shown.\<close>
  \<^item> End to end: the kernel in memory is the kernel that was compiled (\<open>built_kernel_loads\<close>); boot loader and kernel
    entry in sequence reach user mode with the image intact and the tree printed (\<open>boot_chain\<close>); the program's greeting
    and exit appear on the console (\<open>user_program_greets_and_exits\<close>); an image build that exits with 0 has the right
    files on the partition (\<open>build_image_boot_media\<close>).
  \<^item> Boot loader: the requested page ranges cover exactly the segments, only granted pages are written, the hand-over
    regions are disjoint, the memory extent is the hull of the firmware's map.
  \<^item> Device tree: parsing and printing never panic or run forever on any bytes; writer and reader are inverse.
  \<^item> Kernel: traps preserve the general registers and state of the user program, system calls have their effect through the real
    vector code, which exceptions enter at the architecture's offset in the vector table; the heap never
    hands out overlapping blocks in any interleaving and retries are bounded, the user loader places and relocates.
  \<^item> Image builder: the conversion reads back; the locale \<open>block_store\<close> states the contract of a \<open>Read + Write + Seek\<close>
    object, \<open>std::fs::File\<close> and the partition window are interpreted as such objects, and the window refines an
    abstract byte array; the partition table survives every outcome of formatting.
  \<^item> Flaws: theorems that exhibit them are among the properties and named in the findings.

  \<^bold>\<open>Bounds.\<close> Recursion of the device-tree reader and parser runs on fuel that starts at the length of the input plus one; every
  recursive call consumes input, so the fuel lemmas show it is never exhausted and results do not depend on it. Retry loops
  of the allocator are a step relation with a bound on the number of steps. All other loops are structural or have a
  termination proof. Addresses and sizes are 64-bit words with the wrap-around or panic of the source; \<open>usize\<close> is 64 bits
  wide. Overflow panics as in a debug build.

  \<^bold>\<open>Not modelled.\<close> Third-party code is a parameter with its documented behaviour as a hypothesis: the \<open>goblin\<close>, \<open>gpt\<close>, \<open>fatfs\<close>
  and \<open>spin\<close> crates, UEFI services, cargo and QEMU. Progress messages of the boot loader on the firmware console and
  its panic handler are left out. The modules \<open>fs\<close>, \<open>ipc\<close>, \<open>mach\<close>, \<open>mm\<close>, \<open>sched\<close>, \<open>dyld\<close>, \<open>buddy\<close>, \<open>slab\<close>, \<open>cpu\<close>, \<open>gic\<close>, \<open>mmu\<close>
  and \<open>smp\<close> are empty files. Memory is flat: the MMU is never switched on by this code, caches appear only as the
  maintenance instructions issued. The processor state has the general and the used system registers; the SIMD and
  floating-point registers, which the trampolines neither save nor restore, are not in it. Files are read in the buffer
  steps of \<open>io::copy\<close> only where the program copies into the FAT volume; a short read of a regular file is not modelled.
\<close>

section \<open>From the boot loader to the user program\<close>

lemma image_below_top:
  assumes "kernel_top macho = Ok t" "unat t \<le> unat lb" "unat lb + n \<le> 2 ^ 64"
  shows "image_region macho \<inter> region lb n = {}"
proof -
  have "seg_region sg \<inter> region lb n = {}" if "sg \<in> set (segments macho)" for sg
  proof -
    have "unat t = Max (insert 0 ((\<lambda>sg. unat (vmaddr sg) + unat (vmsize sg)) ` set (segments macho)))"
      using kernel_top_loop_Ok [of "segments macho" 0 t] assms(1) by (simp add: kernel_top_def fold_max_eq)
    with that have "unat (vmaddr sg) + unat (vmsize sg) \<le> unat t" by simp
    with assms(2,3) show ?thesis by (simp add: seg_region_def region_disjoint)
  qed
  then show ?thesis by (auto simp: image_region_def)
qed

lemma launch_log_text:
  "\<exists>post. uart_text (launch_log img lb pc sp (banner_log lb log)) = uart_text log @ post"
  by (simp add: launch_log_def banner_log_def print_entry_def print_loading_def)

lemma tree_printed:
  assumes a: "args_at p = a" "p \<noteq> 0" "revision a = 2" "version a = 2" "device_tree_p a \<noteq> 0"
    and root: "wf_adt root" "mem_slice m (device_tree_p a) (unat (device_tree_length a)) = enc_node root"
  shows "uart_text (args_log args_at p m log) =
    uart_text (print_boot_args a log) @ ascii (''xnu-rs: Apple device tree'' @ [CHR 0x0A]) @ render 0 root"
proof -
  have len: "length (enc_node root) = unat (device_tree_length a)" using root(2) by (metis length_mem_slice)
  then have "\<not> device_tree_length a < 8" using length_enc_node [of root] by (simp add: word_less_nat_alt)
  moreover have "length (enc_node root) < 2 ^ 32" using len unat_bound [of "device_tree_length a"] by simp
  ultimately show ?thesis
    using dump_enc [OF root(1), of "print_boot_args a log"] assms by (simp add: args_log_def Let_def)
qed


text \<open>A parser that conforms to the format and reads the empty file as the sample kernel.\<close>

definition boot_parser :: macho_parser where
  "boot_parser bs = (if bs = [] then Ok sample_macho else format_parser bs)"

lemma conforming_boot_parser: "conforming boot_parser"
proof -
  have "decode_macho [] = None" by (simp add: decode_macho_def)
  then show ?thesis by (auto simp: conforming_def boot_parser_def format_parser_def)
qed

lemma boot_sample:
  obtains s' a where "load_and_jump_to_kernel boot_parser (sort_key range_start) sample_services (sample_boot []) =
      (Ok \<lparr>reg_sp = 0x210000, reg_x0 = 0x180000, reg_pc = 0x1000\<rparr>, s')" "args_store s' 0x180000 = Some a"
    "device_tree_p a = 0x100000" "top_of_kernel_data a = 0x3020"
  using sample_load [of boot_parser] by (auto simp: boot_parser_def)

lemma sample_services_alloc: "page_allocator list_owned (svc_alloc sample_services)"
  by (simp add: sample_services_def services_for_def list_page_allocator)

lemma sample_boot_file: "kernel_file_ok boot_parser sample_services"
  by (rule sample_file_ok) (simp add: boot_parser_def)


text \<open>C37: Nothing keeps the user program off the pages the boot loader got from the firmware after the image. With a page
  allocator that keeps its promises the kernel's stack can lie right above the image, where the kernel places
  the program: here the program's first byte is in the stack the kernel is running on.\<close>

theorem user_program_can_hit_kernel_stack:
  "\<exists>s' a lb k'. page_allocator list_owned (svc_alloc sample_services) \<and>
     load_and_jump_to_kernel boot_parser (sort_key range_start) sample_services (sample_boot []) =
       (Ok \<lparr>reg_sp = 0x210000, reg_x0 = 0x180000, reg_pc = 0x1000\<rparr>, s') \<and> args_store s' 0x180000 = Some a \<and>
     start boot_parser (\<lambda>_. a) 0x2000 0x180000
       \<lparr>ks = \<lparr>k_log = [], k_mem = mem s', k_cache = []\<rparr>, el = sample_el, BOOT_ARGS_PTR = 0\<rparr> =
       (Ok (TrapFrame_new_user lb (lb + 0x11000)), k') \<and>
     lb \<in> region (0x210000 - 65536) 65536 \<and> take 4 (mem_slice (k_mem (ks k')) lb 0x1000) = [0x01, 0x01, 0x00, 0x10]"
proof -
  obtain s' a where run: "load_and_jump_to_kernel boot_parser (sort_key range_start) sample_services (sample_boot []) =
      (Ok \<lparr>reg_sp = 0x210000, reg_x0 = 0x180000, reg_pc = 0x1000\<rparr>, s')" and a: "args_store s' 0x180000 = Some a"
    "device_tree_p a = 0x100000" "top_of_kernel_data a = 0x3020" by (rule boot_sample)
  have v: "revision a = 2" "version a = 2"
    using kernel_handed_over [OF start_sort.range_sort_axioms sample_services_alloc sample_boot_file run] a(1) by auto
  let ?k = "\<lparr>ks = \<lparr>k_log = [], k_mem = mem s', k_cache = []\<rparr>, el = sample_el, BOOT_ARGS_PTR = 0\<rparr>"
  have t: "boot_target (accepted_args (\<lambda>_. a) 0x180000) = 0x3020" by (simp add: accepted_args_def v boot_target_def a(3))
  have room: "unat (boot_target (accepted_args (\<lambda>_. a) 0x180000)) + 0x300000 < 2 ^ 64" by (simp add: t)
  from start_run [OF conforming_boot_parser room, of "0x2000" ?k, unfolded t] obtain lb k' where
    st: "start boot_parser (\<lambda>_. a) 0x2000 0x180000 ?k = (Ok (TrapFrame_new_user lb (lb + 0x11000)), k')"
    and lb: "0x200000 dvd unat lb" "unat (0x3020 :: u64) \<le> unat lb" "unat lb < unat (0x3020 :: u64) + 0x200000"
    and code: "mem_slice (k_mem (ks k')) lb 0x1000 = test_code @ replicate (0x1000 - 48) 0" by blast
  obtain q where q: "unat lb = 0x200000 * q" using lb(1) by (rule dvdE)
  with lb(2,3) have "q = 1" by simp
  then have "unat lb = unat (0x200000 :: u64)" using q by simp
  then have "lb = 0x200000" by (simp only: word_unat_eq_iff)
  then have "lb \<in> region (0x210000 - 65536) 65536" by (simp add: region_def)
  moreover have "take 4 (mem_slice (k_mem (ks k')) lb 0x1000) = [0x01, 0x01, 0x00, 0x10]"
    by (simp add: code test_code_def)
  ultimately show ?thesis using run a(1) st sample_services_alloc by blast
qed

section \<open>From the kernel ELF file to memory\<close>

text \<open>A kernel whose loadable segments are disjoint and no larger in the file than in memory.\<close>

definition elf_segments_ok :: "elf \<Rightarrow> bool" where
  "elf_segments_ok e \<longleftrightarrow> list_all (\<lambda>h. p_filesz h \<le> p_memsz h) (loadable e) \<and>
     sorted_wrt (\<lambda>g h. region (p_vaddr g) (unat (p_memsz g)) \<inter> region (p_vaddr h) (unat (p_memsz h)) = {}) (loadable e)"

definition elf_data :: "bytes \<Rightarrow> program_header \<Rightarrow> bytes" where
  "elf_data eb h = take (unat (p_filesz h)) (drop (unat (p_offset h)) eb)"

lemma carried_bytes:
  assumes "carries eb h sg" "unat (p_offset h) + unat (p_filesz h) \<le> length eb"
  shows "seg_bytes sg = elf_data eb h" "length (seg_bytes sg) = unat (p_filesz h)" "seg_region sg = region (p_vaddr h) (unat (p_memsz h))"
  using assms by (auto simp: carries_def seg_bytes_def elf_data_def seg_region_def unat_gt_0)

lemma converted_file_ok:
  assumes "list_all2 (carries eb) (loadable e) sgs" "elf_segments_ok e"
    and "list_all (\<lambda>h. unat (p_offset h) + unat (p_filesz h) \<le> length eb) (loadable e)"
  shows "list_all fits sgs" "apart sgs"
proof -
  have nth: "length sgs = length (loadable e)" "\<And>i. i < length sgs \<Longrightarrow> carries eb (loadable e ! i) (sgs ! i)"
    using assms(1) by (auto simp: list_all2_conv_all_nth)
  note b = carried_bytes [OF nth(2)]
  have src: "unat (p_offset (loadable e ! i)) + unat (p_filesz (loadable e ! i)) \<le> length eb" if "i < length sgs" for i
    using assms(3) that nth(1) by (simp add: list_all_length)
  show "list_all fits sgs"
    using assms(2) b(2) src nth
    by (auto simp: list_all_length fits_def elf_segments_ok_def word_le_nat_alt carries_def)
  show "apart sgs"
    using assms(2) b(3) src nth(1)
    by (auto simp: apart_def elf_segments_ok_def sorted_wrt_iff_nth_less)
qed

text \<open>C1: The kernel that runs is the kernel that was compiled. Take a kernel ELF file the image builder accepts, in
  the shape the project's linker script gives it: exactly one executable segment, linked above the size of the output file,
  with the entry point not below it; segment data inside the file; loadable segments disjoint and no larger in the
  file than in memory. (For other accepted files the entry point can come out wrong, see the findings.) Let the
  firmware read to the boot loader the Mach-O file the builder made from it. When the boot loader hands over, it
  jumps to the ELF entry point, and memory holds every loadable segment at its link address: its bytes from the ELF
  file, then zeros up to its memory size.\<close>

theorem built_kernel_loads:
  assumes "ep eb = Ok e" "convertible eb e" "elf_segments_ok e" "conforming mp"
    and "range_sort srt" "page_allocator owned (svc_alloc svc)"
    and "convert_bytes ep eb = Ok out" "\<forall>f. fst (svc_read_kernel svc f) = Ok out"
    and "load_and_jump_to_kernel mp srt svc s = (Ok regs, s')"
  shows "reg_pc regs = elf_entry e \<and>
    list_all (\<lambda>h. mem_slice (mem s') (p_vaddr h) (unat (p_memsz h)) =
      elf_data eb h @ replicate (unat (p_memsz h) - unat (p_filesz h)) 0) (loadable e)"
proof -
  obtain m where out: "decode_macho out = Some m" "entry m = elf_entry e"
    "list_all2 (carries eb) (loadable e) (segments m)"
    using converted [of ep eb, OF assms(1,2)] assms(7) by auto
  have mp: "mp out = Ok m" by (rule conformingD [OF assms(4) out(1)])
  have rd: "kb = out" if "svc_read_kernel svc f = (Ok kb, f')" for f kb f'
    using assms(8) [rule_format, of f] that by simp
  have src: "list_all (\<lambda>h. unat (p_offset h) + unat (p_filesz h) \<le> length eb) (loadable e)"
    using assms(2) by (simp add: convertible_def)
  note ok = converted_file_ok [OF out(3) assms(3) src]
  have "kernel_file_ok mp svc" using ok rd mp by (auto simp: kernel_file_ok_def)
  from kernel_handed_over [OF assms(5,6) this assms(9)] obtain f f' kb macho where
    "svc_read_kernel svc f = (Ok kb, f')" "mp kb = Ok macho" and pc: "reg_pc regs = entry macho"
    and img: "holds_image (mem s') macho" by blast
  then have "macho = m" using rd mp by auto
  have "mem_slice (mem s') (p_vaddr h) (unat (p_memsz h)) =
      elf_data eb h @ replicate (unat (p_memsz h) - unat (p_filesz h)) 0" if hm: "h \<in> set (loadable e)" for h
  proof -
    obtain i where i: "i < length (loadable e)" "h = loadable e ! i" using hm by (auto simp: in_set_conv_nth)
    have sg: "segments m ! i \<in> set (segments m)" "carries eb h (segments m ! i)"
      using out(3) i by (auto simp: list_all2_conv_all_nth)
    have "unat (p_offset h) + unat (p_filesz h) \<le> length eb" using src hm by (simp add: list_all_iff)
    from carried_bytes [OF sg(2) this] img sg \<open>macho = m\<close> show ?thesis
      by (auto simp: holds_image_def carries_def)
  qed
  then show ?thesis using pc out(2) \<open>macho = m\<close> by (simp add: list_all_iff)
qed

text \<open>The sample kernel of the image builder, loaded by the sample firmware.\<close>

lemma sample_elf_ok: "elf_segments_ok sample_elf"
proof -
  have "region 0x40080000 8 \<inter> region 0x40081000 0x100 = {}" by (rule region_disjoint) simp_all
  then show ?thesis by (simp add: elf_segments_ok_def sample_elf_def loadable_def PT_LOAD_def)
qed

lemma built_sample_ranges:
  assumes "list_all2 (carries sample_elf_bytes) (loadable sample_elf) (segments m)"
  shows "\<exists>sa. allocate_load_ranges (sort_key range_start) list_alloc m (sample_boot []) = (Ok (), sa) \<and> fw sa = [(0x40080000, 2)]"
    "kernel_top m = Ok 0x40081100"
proof -
  obtain s1 s2 where seg: "segments m = [s1, s2]" and c: "vmaddr s1 = 0x40080000" "vmsize s1 = 8"
    "vmaddr s2 = 0x40081000" "vmsize s2 = 0x100"
    using assms by (auto simp: sample_elf_def loadable_def PT_LOAD_def list_all2_Cons1 carries_def)
  have lr: "load_ranges [s1, s2] = Ok [\<lparr>range_start = 0x40080000, range_end = 0x40081000\<rparr>,
      \<lparr>range_start = 0x40081000, range_end = 0x40082000\<rparr>]"
    by (simp add: c align_down_def align_up_def PAGE_SIZE_u64_def checked_add_def)
  have pr: "proper \<lparr>range_start = 0x40080000, range_end = 0x40082000\<rparr>" by (simp add: proper_def)
  show "\<exists>sa. allocate_load_ranges (sort_key range_start) list_alloc m (sample_boot []) = (Ok (), sa) \<and> fw sa = [(0x40080000, 2)]"
    unfolding allocate_load_ranges_def seg lr
    by (simp add: boot_res_def merge_ranges_def merge_step_def allocate_range_run [OF pr] list_alloc_def Let_def sample_boot_def
        div_ceil_u64_def PAGE_SIZE_u64_def PAGE_SIZE_def)
  show "kernel_top m = Ok 0x40081100" by (simp add: kernel_top_def seg c checked_add_def)
qed

theorem built_kernel_loads_witness:
  "\<exists>out regs s'. convert_bytes (\<lambda>_. Ok sample_elf) sample_elf_bytes = Ok out \<and>
     load_and_jump_to_kernel format_parser (sort_key range_start) (services_for out) (sample_boot []) = (Ok regs, s') \<and>
     reg_pc regs = 0x40080004 \<and> mem_slice (mem s') 0x40080000 8 = [1, 2, 3, 4, 5, 6, 7, 8] \<and>
     mem_slice (mem s') 0x40081000 0x100 = [0xAA, 0xBB] @ replicate 0xFE 0"
proof -
  let ?ep = "\<lambda>_. Ok sample_elf"
  obtain out m where out: "convert_bytes ?ep sample_elf_bytes = Ok out" "decode_macho out = Some m"
    "list_all2 (carries sample_elf_bytes) (loadable sample_elf) (segments m)"
    using converted [of ?ep sample_elf_bytes, OF refl sample_elf_convertible] by blast
  have mp: "format_parser out = Ok m" using out(2) by (simp add: format_parser_def)
  obtain sa where sa: "allocate_load_ranges (sort_key range_start) list_alloc m (sample_boot []) = (Ok (), sa)"
    "fw sa = [(0x40080000, 2)]" using built_sample_ranges(1) [OF out(3)] by blast
  obtain regs s' where run: "load_and_jump_to_kernel format_parser (sort_key range_start) (services_for out) (sample_boot []) = (Ok regs, s')"
    using load_run [of format_parser out, OF mp sa _ _ built_sample_ranges(2) [OF out(3)]] by auto
  have rd: "\<forall>f. fst (svc_read_kernel (services_for out) f) = Ok out" by (simp add: services_for_def)
  have al: "page_allocator list_owned (svc_alloc (services_for out))" by (simp add: services_for_def list_page_allocator)
  from built_kernel_loads [of ?ep sample_elf_bytes, OF refl sample_elf_convertible sample_elf_ok conforming_format_parser
      start_sort.range_sort_axioms al out(1) rd run]
  have "reg_pc regs = 0x40080004" "mem_slice (mem s') 0x40080000 8 = [1, 2, 3, 4, 5, 6, 7, 8]"
    "mem_slice (mem s') 0x40081000 0x100 = [0xAA, 0xBB] @ replicate 0xFE 0"
    by (simp_all add: sample_elf_def loadable_def PT_LOAD_def elf_data_def sample_elf_bytes_def)
  with out(1) run show ?thesis by blast
qed

end
